(* ===== verification/Tickline_Prelude.thy ===== *)
theory Tickline_Prelude
  imports Main "HOL-Library.Word" "HOL-Library.Multiset"
begin

text \<open>
  Shared vocabulary of the Tickline development: the machine integer types of the C++
  sources, the errors a C++ call can end with, the error monad in which fallible calls are
  sequenced, and the generic list facts the component theories use.

  Unsigned integers are machine words, so their arithmetic wraps as in C++. A signed 64-bit
  integer is the same 64-bit pattern read with \<^const>\<open>sint\<close>; signed arithmetic that
  leaves the range is undefined behaviour in C++ and is the error
  \<open>Signed_overflow\<close> here, so that its absence is a theorem and not an assumption.
\<close>

unbundle bit_operations_syntax

named_theorems result_simps \<open>sequencing of fallible calls\<close>
named_theorems codec_simps \<open>encoders and readers of big-endian fields\<close>
named_theorems width_simps \<open>lengths of encoded fields\<close>

section \<open>Machine integers\<close>

type_synonym u8 = "8 word"
type_synonym u16 = "16 word"
type_synonym u32 = "32 word"
type_synonym u64 = "64 word"
type_synonym i64 = "64 word"
type_synonym bytes = "u8 list"

abbreviation i64_max :: int where
  "i64_max \<equiv> 9223372036854775807"

abbreviation i64_min :: int where
  "i64_min \<equiv> - 9223372036854775808"

abbreviation u64_limit :: nat where
  "u64_limit \<equiv> 18446744073709551616"

definition i64 :: "int \<Rightarrow> i64" where
  "i64 n = word_of_int n"

definition fits_i64 :: "int \<Rightarrow> bool" where
  "fits_i64 n \<longleftrightarrow> i64_min \<le> n \<and> n \<le> i64_max"

lemma sint_i64 [simp]: "fits_i64 n \<Longrightarrow> sint (i64 n) = n"
  by (simp add: i64_def fits_i64_def sint_sbintrunc' signed_take_bit_int_eq_self_iff)

lemma i64_sint [simp]: "i64 (sint w) = w"
  by (simp add: i64_def)

lemma sint_bounds: "i64_min \<le> sint (w :: i64)" "sint (w :: i64) \<le> i64_max"
  using sint_greater_eq [of w] sint_less [of w] by simp_all

lemma fits_sint [simp]: "fits_i64 (sint (w :: i64))"
  using sint_bounds [of w] by (simp add: fits_i64_def)

lemma fits_i64_abs: "\<bar>n\<bar> \<le> i64_max \<Longrightarrow> fits_i64 n"
  by (simp add: fits_i64_def abs_le_iff)

lemma fits_i64_within: "\<bar>n\<bar> \<le> sint (limit :: i64) \<Longrightarrow> fits_i64 n"
  using sint_bounds(2) [of limit] by (intro fits_i64_abs) linarith

section \<open>Errors and fallible calls\<close>

text \<open>
  The standard exceptions the sources throw, then the three ways a C++ program can leave
  its defined behaviour in this code: a failed \<open>assert\<close>, an access outside an array or
  span, and signed overflow.
\<close>

datatype cxx_error =
    Invalid_argument
  | Overflow_error
  | Logic_error
  | Out_of_range
  | Length_error
  | Assertion_failure
  | Out_of_bounds_access
  | Signed_overflow

type_synonym 'a result = "cxx_error + 'a"

definition undefined_behaviour :: "cxx_error \<Rightarrow> bool" where
  "undefined_behaviour e \<longleftrightarrow>
     e = Assertion_failure \<or> e = Out_of_bounds_access \<or> e = Signed_overflow"

definition bind_result :: "'e + 'a \<Rightarrow> ('a \<Rightarrow> 'e + 'b) \<Rightarrow> 'e + 'b" where
  "bind_result m f = (case m of Inl e \<Rightarrow> Inl e | Inr x \<Rightarrow> f x)"

lemma bind_result_simps [simp, result_simps]:
  "bind_result (Inl e) f = Inl e"
  "bind_result (Inr x) f = f x"
  by (simp_all add: bind_result_def)

lemma bind_result_eq_Inr [result_simps]:
  "bind_result m f = Inr y \<longleftrightarrow> (\<exists>x. m = Inr x \<and> f x = Inr y)"
  by (cases m) simp_all

lemma bind_result_eq_Inl [result_simps]:
  "bind_result m f = Inl e \<longleftrightarrow> m = Inl e \<or> (\<exists>x. m = Inr x \<and> f x = Inl e)"
  by (cases m) simp_all

text \<open>A call that returns \<open>std::expected\<close>, whose error the caller passes on.\<close>

lemma case_sum_eq_iff [result_simps]:
  "(case r of Inl code \<Rightarrow> f code | Inr x \<Rightarrow> g x) = y \<longleftrightarrow>
   (\<exists>code. r = Inl code \<and> f code = y) \<or> (\<exists>x. r = Inr x \<and> g x = y)"
  by (cases r) simp_all

text \<open>Signed arithmetic: the mathematical result, or undefined behaviour.\<close>

definition signed_result :: "int \<Rightarrow> i64 result" where
  "signed_result n = (if fits_i64 n then Inr (i64 n) else Inl Signed_overflow)"

definition signed_add :: "i64 \<Rightarrow> i64 \<Rightarrow> i64 result" where
  "signed_add a b = signed_result (sint a + sint b)"

definition signed_sub :: "i64 \<Rightarrow> i64 \<Rightarrow> i64 result" where
  "signed_sub a b = signed_result (sint a - sint b)"

definition signed_mul :: "i64 \<Rightarrow> i64 \<Rightarrow> i64 result" where
  "signed_mul a b = signed_result (sint a * sint b)"

definition signed_neg :: "i64 \<Rightarrow> i64 result" where
  "signed_neg a = signed_result (- sint a)"

text \<open>Division and remainder of C++ truncate towards zero.\<close>

definition trunc_div :: "int \<Rightarrow> int \<Rightarrow> int" where
  "trunc_div a b = sgn a * sgn b * (\<bar>a\<bar> div \<bar>b\<bar>)"

definition trunc_mod :: "int \<Rightarrow> int \<Rightarrow> int" where
  "trunc_mod a b = a - trunc_div a b * b"

lemma signed_result_fits [simp]: "fits_i64 n \<Longrightarrow> signed_result n = Inr (i64 n)"
  by (simp add: signed_result_def)

lemma trunc_div_mod: "trunc_div a b * b + trunc_mod a b = a"
  by (simp add: trunc_mod_def)

lemma trunc_mod_cases:
  assumes "0 < b"
  shows "trunc_mod a b = (if 0 \<le> a then a mod b else - ((- a) mod b))"
proof (cases "0 \<le> a")
  case True
  then show ?thesis
    using assms by (cases "a = 0") (simp_all add: trunc_mod_def trunc_div_def minus_div_mult_eq_mod)
next
  case False
  then have "trunc_mod a b = - (- a - (- a) div b * b)"
    using assms by (simp add: trunc_mod_def trunc_div_def)
  then show ?thesis
    using False by (simp only: minus_div_mult_eq_mod if_False)
qed

lemma abs_trunc_mod_less: "0 < b \<Longrightarrow> \<bar>trunc_mod a b\<bar> < b"
  by (simp add: trunc_mod_cases)

lemma abs_trunc_div_le:
  assumes "0 < b"
  shows "\<bar>trunc_div a b\<bar> \<le> \<bar>a\<bar>"
proof -
  have "\<bar>a\<bar> div b \<le> \<bar>a\<bar>" and "0 \<le> \<bar>a\<bar> div b"
    using assms zdiv_mono2 [of "\<bar>a\<bar>" 1 b] by (simp_all add: pos_imp_zdiv_nonneg_iff)
  then show ?thesis
    using assms by (auto simp: trunc_div_def abs_mult sgn_if abs_if split: if_splits)
qed

section \<open>Lists\<close>

lemma take_add_drop: "take n (drop k xs) @ drop (n + k) xs = drop k xs"
  by (metis append_take_drop_id drop_drop)

section \<open>Checks in order\<close>

text \<open>A guard sequence of early returns reports the first check that fails.\<close>

definition first_failure :: "(bool \<times> 'e) list \<Rightarrow> 'e option" where
  "first_failure checks = map_option snd (find fst checks)"

lemma first_failure_simps [simp]:
  "first_failure [] = None"
  "first_failure ((failed, code) # checks) = (if failed then Some code else first_failure checks)"
  by (simp_all add: first_failure_def)

lemma first_failure_append:
  "first_failure (xs @ ys) = (case first_failure xs of None \<Rightarrow> first_failure ys | Some e \<Rightarrow> Some e)"
  by (induction xs) auto

lemma first_failure_in: "first_failure checks = Some code \<Longrightarrow> code \<in> snd ` set checks"
proof (induction checks)
  case (Cons c checks)
  then show ?case by (cases c) (auto split: if_splits)
qed simp

section \<open>State machines\<close>

text \<open>
  A component is a set of initial states and a step relation; its reachable states are the
  least set closed under steps. \<open>system_invariant\<close> is the contract between a component
  and the properties of its runs.
\<close>

inductive reachable :: "('s \<Rightarrow> bool) \<Rightarrow> ('s \<Rightarrow> 's \<Rightarrow> bool) \<Rightarrow> 's \<Rightarrow> bool" for init step where
  reachable_init: "init s \<Longrightarrow> reachable init step s"
| reachable_step: "reachable init step s \<Longrightarrow> step s t \<Longrightarrow> reachable init step t"

locale system_invariant =
  fixes init :: "'s \<Rightarrow> bool"
    and step :: "'s \<Rightarrow> 's \<Rightarrow> bool"
    and inv :: "'s \<Rightarrow> bool"
  assumes inv_init: "init s \<Longrightarrow> inv s"
    and inv_step: "inv s \<Longrightarrow> step s t \<Longrightarrow> inv t"
begin

lemma inv_reachable: "reachable init step s \<Longrightarrow> inv s"
  by (induction rule: reachable.induct) (auto intro: inv_init inv_step)

lemma inv_steps: "step\<^sup>*\<^sup>* s t \<Longrightarrow> inv s \<Longrightarrow> inv t"
  by (induction rule: rtranclp_induct) (auto intro: inv_step)

end

end
