(* ===== verification/Bytes.thy ===== *)
theory Bytes
  imports Tickline_Prelude
begin

text \<open>
  Big-endian byte encodings. The sources spell the same encoding out several times (in the
  frame parser, the envelope codec, the canonical state, the evidence record, the archive
  and SHA-256); every component theory translates its own copy and relates it to the
  functions of this theory. The interfaces \<open>byte_codec\<close> and \<open>fixed_width_codec\<close> state what a
  strict codec promises; the component theories interpret them.
\<close>

section \<open>Fields\<close>

definition byte_at :: "'a::len word \<Rightarrow> nat \<Rightarrow> u8" where
  "byte_at v shift = ucast (drop_bit shift v AND 0xff)"

definition be16 :: "u16 \<Rightarrow> bytes" where
  "be16 v = map (byte_at v) [8, 0]"

definition be32 :: "u32 \<Rightarrow> bytes" where
  "be32 v = map (byte_at v) [24, 16, 8, 0]"

definition be64 :: "u64 \<Rightarrow> bytes" where
  "be64 v = map (byte_at v) [56, 48, 40, 32, 24, 16, 8, 0]"

definition be_value :: "bytes \<Rightarrow> 'a::len word" where
  "be_value bs = foldl (\<lambda>v b. push_bit 8 v OR ucast b) 0 bs"

text \<open>The same bytes, by position from the least significant one.\<close>

definition be_bytes :: "nat \<Rightarrow> 'a::len word \<Rightarrow> bytes" where
  "be_bytes k v = rev (map (\<lambda>i. byte_at v (8 * i)) [0..<k])"

lemma byte_mask: "(0xff :: 'a::len word) = mask 8"
  by (simp add: mask_eq_exp_minus_1)

lemma byte_at_cast [codec_simps]: "byte_at v s = ucast (drop_bit s v)"
  unfolding byte_at_def byte_mask
  by (rule bit_word_eqI) (auto simp: bit_simps dest: bit_imp_le_length)

lemma bit_byte_at: "bit (byte_at v s) n \<longleftrightarrow> n < 8 \<and> bit v (s + n)"
  by (auto simp: byte_at_cast bit_simps)

lemma be_eq_be_bytes: "be16 a = be_bytes 2 a" "be32 b = be_bytes 4 b" "be64 c = be_bytes 8 c"
  by (simp_all add: be16_def be32_def be64_def be_bytes_def upt_rec)

lemma length_be_bytes [simp, width_simps]: "length (be_bytes k v) = k"
  by (simp add: be_bytes_def)

lemma length_be [simp, width_simps]:
  "length (be16 a) = 2" "length (be32 b) = 4" "length (be64 c) = 8"
  by (simp_all add: be_eq_be_bytes)

lemma be_value_snoc: "be_value (bs @ [b]) = push_bit 8 (be_value bs) OR ucast b"
  by (simp add: be_value_def)

lemma bit_be_value:
  "8 * length bs \<le> LENGTH('a) \<Longrightarrow>
   bit (be_value bs :: 'a::len word) n \<longleftrightarrow> n < 8 * length bs \<and> bit (rev bs ! (n div 8)) (n mod 8)"
proof (induction bs arbitrary: n rule: rev_induct)
  case Nil
  then show ?case by (simp add: be_value_def)
next
  case (snoc b bs)
  show ?case
  proof (cases "n < 8")
    case True
    then show ?thesis
      using snoc.prems by (auto simp: be_value_snoc bit_simps dest: bit_imp_le_length)
  next
    case False
    then have "n div 8 = Suc ((n - 8) div 8)" and "n mod 8 = (n - 8) mod 8"
      by (simp_all add: le_div_geq le_mod_geq)
    moreover have "\<not> bit b n"
      using False bit_imp_le_length [of b n] by auto
    ultimately show ?thesis
      using False snoc.prems by (auto simp: be_value_snoc bit_simps snoc.IH)
  qed
qed

lemma be_value_be_bytes:
  assumes "8 * k = LENGTH('a)"
  shows "be_value (be_bytes k v) = (v :: 'a::len word)"
proof (rule bit_word_eqI)
  fix n assume "n < LENGTH('a)"
  then show "bit (be_value (be_bytes k v) :: 'a word) n \<longleftrightarrow> bit v n"
    using assms by (simp add: bit_be_value be_bytes_def bit_byte_at less_mult_imp_div_less)
qed

lemma be_bytes_be_value:
  assumes "8 * length bs \<le> LENGTH('a)"
  shows "be_bytes (length bs) (be_value bs :: 'a::len word) = bs"
proof (rule nth_equalityI)
  fix i assume "i < length (be_bytes (length bs) (be_value bs :: 'a word))"
  then have i: "i < length bs" by simp
  let ?j = "length bs - Suc i"
  have "be_bytes (length bs) (be_value bs :: 'a word) ! i = byte_at (be_value bs :: 'a word) (8 * ?j)"
    using i nth_upt [of 0 ?j "length bs"] by (simp add: be_bytes_def rev_nth)
  also have "\<dots> = bs ! i"
  proof (rule bit_word_eqI)
    fix n assume "n < LENGTH(8)"
    moreover from this have "8 * ?j + n < 8 * length bs"
      using i by (simp add: less_le_trans)
    ultimately have "bit (byte_at (be_value bs :: 'a word) (8 * ?j)) n \<longleftrightarrow> bit (rev bs ! ?j) n"
      using i assms by (simp add: bit_byte_at bit_be_value)
    then show "bit (byte_at (be_value bs :: 'a word) (8 * ?j)) n \<longleftrightarrow> bit (bs ! i) n"
      using i by (simp add: rev_nth Suc_diff_Suc)
  qed
  finally show "be_bytes (length bs) (be_value bs :: 'a word) ! i = bs ! i" .
qed simp

lemma be_value_be [simp, codec_simps]:
  "be_value (be16 a) = a" "be_value (be32 b) = b" "be_value (be64 c) = c"
  by (simp_all add: be_eq_be_bytes be_value_be_bytes)

lemma be_be_value [simp, codec_simps]:
  "length bs = 2 \<Longrightarrow> be16 (be_value bs) = bs"
  "length bs = 4 \<Longrightarrow> be32 (be_value bs) = bs"
  "length bs = 8 \<Longrightarrow> be64 (be_value bs) = bs"
  using be_bytes_be_value [of bs, where ?'a = 16] be_bytes_be_value [of bs, where ?'a = 32]
    be_bytes_be_value [of bs, where ?'a = 64]
  by (simp_all add: be_eq_be_bytes)

lemma be_inject [simp]:
  "be16 a = be16 a' \<longleftrightarrow> a = a'" "be32 b = be32 b' \<longleftrightarrow> b = b'" "be64 c = be64 c' \<longleftrightarrow> c = c'"
  by (metis be_value_be)+

text \<open>A fixed-width field at the front of a byte string determines itself and the rest.\<close>

lemma be_append_eq [simp]:
  "be16 a @ xs = be16 a' @ ys \<longleftrightarrow> a = a' \<and> xs = ys"
  "be32 b @ xs = be32 b' @ ys \<longleftrightarrow> b = b' \<and> xs = ys"
  "be64 c @ xs = be64 c' @ ys \<longleftrightarrow> c = c' \<and> xs = ys"
  by (simp_all add: append_eq_append_conv)

section \<open>Hexadecimal digits\<close>

definition hex_digits :: string where
  "hex_digits = ''0123456789abcdef''"

lemma length_hex_digits [simp]: "length hex_digits = 16"
  by (simp add: hex_digits_def)

lemma hex_digits_inject: "i < 16 \<Longrightarrow> j < 16 \<Longrightarrow> hex_digits ! i = hex_digits ! j \<longleftrightarrow> i = j"
  by (rule nth_eq_iff_index_eq) (simp_all add: hex_digits_def)

section \<open>Spans\<close>

text \<open>
  Element access through \<open>std::span\<close> and \<open>std::array\<close> has no defined behaviour outside the
  range, so every read and write is a fallible call; that the error cannot occur is proved
  for each user.
\<close>

definition span_at :: "bytes \<Rightarrow> nat \<Rightarrow> u8 result" where
  "span_at bs i = (if i < length bs then Inr (bs ! i) else Inl Out_of_bounds_access)"

definition span_set :: "bytes \<Rightarrow> nat \<Rightarrow> u8 \<Rightarrow> bytes result" where
  "span_set bs i b = (if i < length bs then Inr (bs[i := b]) else Inl Out_of_bounds_access)"

definition subspan :: "bytes \<Rightarrow> nat \<Rightarrow> bytes result" where
  "subspan bs offset = (if offset \<le> length bs then Inr (drop offset bs) else Inl Out_of_bounds_access)"

definition subspan_count :: "bytes \<Rightarrow> nat \<Rightarrow> nat \<Rightarrow> bytes result" where
  "subspan_count bs offset n =
     (if offset \<le> length bs \<and> n \<le> length bs - offset then Inr (take n (drop offset bs))
      else Inl Out_of_bounds_access)"

text \<open>The bytes from \<open>offset\<close> on, replaced by a field.\<close>

definition overwrite :: "nat \<Rightarrow> bytes \<Rightarrow> bytes \<Rightarrow> bytes" where
  "overwrite offset field bs = take offset bs @ field @ drop (offset + length field) bs"

lemma length_overwrite [simp]: "offset + length field \<le> length bs \<Longrightarrow> length (overwrite offset field bs) = length bs"
  by (simp add: overwrite_def)

lemma overwrite_Nil [simp]: "overwrite offset [] bs = bs"
  by (simp add: overwrite_def)

lemma overwrite_snoc:
  assumes "offset + length field < length bs"
  shows "overwrite offset (field @ [b]) bs = (overwrite offset field bs)[offset + length field := b]"
proof -
  have "drop (offset + length field) bs = bs ! (offset + length field) # drop (Suc (offset + length field)) bs"
    using assms by (simp add: Cons_nth_drop_Suc)
  then show ?thesis
    using assms by (simp add: overwrite_def list_update_append)
qed

lemma write_loop:
  "offset + n \<le> length bs \<Longrightarrow>
   foldl (\<lambda>r i. bind_result r (\<lambda>bs. span_set bs (offset + i) (f i))) (Inr bs) [0..<n] =
   Inr (overwrite offset (map f [0..<n]) bs)"
proof (induction n)
  case (Suc n)
  then show ?case
    using overwrite_snoc [of offset "map f [0..<n]" bs "f n"] by (simp add: span_set_def)
qed simp

lemma take_two_nth: "offset + 2 \<le> length bs \<Longrightarrow> take 2 (drop offset bs) = [bs ! offset, bs ! (offset + 1)]"
  by (simp add: numeral_2_eq_2 take_Suc_conv_app_nth)

lemma take_four_nth:
  "offset + 4 \<le> length bs \<Longrightarrow>
   take 4 (drop offset bs) = [bs ! offset, bs ! (offset + 1), bs ! (offset + 2), bs ! (offset + 3)]"
  by (intro nth_equalityI) (auto simp: less_Suc_eq numeral_eq_Suc)

text \<open>The two shapes in which the sources assemble a field: shifts and a loop.\<close>

lemma be_value_two: "be_value [a, b] = push_bit 8 (ucast a) OR (ucast b :: 'a::len word)"
  by (simp add: be_value_def)

lemma be_value_four:
  "be_value [a, b, c, d] =
     push_bit 24 (ucast a) OR push_bit 16 (ucast b) OR push_bit 8 (ucast c) OR (ucast d :: 'a::len word)"
  by (simp add: be_value_def push_bit_or or.assoc push_bit_push_bit)

lemma read_loop:
  "offset + n \<le> length bs \<Longrightarrow>
   foldl (\<lambda>r i. bind_result r (\<lambda>v. bind_result (span_at bs (offset + i)) (\<lambda>b. Inr (push_bit 8 v OR ucast b))))
     (Inr 0) [0..<n] = Inr (be_value (take n (drop offset bs)))"
proof (induction n)
  case 0
  then show ?case by (simp add: be_value_def)
next
  case (Suc n)
  then have "take (Suc n) (drop offset bs) = take n (drop offset bs) @ [bs ! (offset + n)]"
    by (simp add: take_Suc_conv_app_nth)
  with Suc show ?case
    by (simp add: be_value_snoc span_at_def)
qed

section \<open>Readers\<close>

text \<open>
  The two reader classes of the sources differ in how they fetch a byte and share the loops
  around it. The loops are functions of the fetch; \<open>byte_reader\<close> states what a fetch promises
  at a position inside the input, and the loops are proved once.
\<close>

fun read_many :: "('r \<Rightarrow> (u8 \<times> 'r) result) \<Rightarrow> nat \<Rightarrow> 'r \<Rightarrow> (bytes \<times> 'r) result" where
  "read_many fetch 0 r = Inr ([], r)"
| "read_many fetch (Suc n) r =
     bind_result (fetch r) (\<lambda>(b, r). bind_result (read_many fetch n r) (\<lambda>(bs, r). Inr (b # bs, r)))"

fun read_expected :: "('r \<Rightarrow> (u8 \<times> 'r) result) \<Rightarrow> bytes \<Rightarrow> 'r \<Rightarrow> (bool \<times> 'r) result" where
  "read_expected fetch [] r = Inr (True, r)"
| "read_expected fetch (m # ms) r =
     bind_result (fetch r) (\<lambda>(b, r). if b \<noteq> m then Inr (False, r) else read_expected fetch ms r)"

definition read_pair :: "('r \<Rightarrow> (u8 \<times> 'r) result) \<Rightarrow> 'r \<Rightarrow> (u16 \<times> 'r) result" where
  "read_pair fetch r =
     bind_result (fetch r) (\<lambda>(first, r).
     bind_result (fetch r) (\<lambda>(second, r).
     Inr (push_bit 8 (ucast first) OR ucast second, r)))"

definition read_value :: "('r \<Rightarrow> (u8 \<times> 'r) result) \<Rightarrow> nat \<Rightarrow> 'r \<Rightarrow> ('a::len word \<times> 'r) result" where
  "read_value fetch n r =
     foldl (\<lambda>acc index. bind_result acc (\<lambda>(value, r). bind_result (fetch r) (\<lambda>(b, r).
       Inr (push_bit 8 value OR ucast b, r)))) (Inr (0, r)) [0..<n]"

locale byte_reader =
  fixes fetch :: "'r \<Rightarrow> (u8 \<times> 'r) result"
    and at :: "bytes \<Rightarrow> nat \<Rightarrow> 'r"
  assumes fetch_at: "k < length bs \<Longrightarrow> fetch (at bs k) = Inr (bs ! k, at bs (k + 1))"
begin

lemma read_pair_at:
  "k + 2 \<le> length bs \<Longrightarrow> read_pair fetch (at bs k) = Inr (be_value (take 2 (drop k bs)), at bs (k + 2))"
  by (simp add: read_pair_def fetch_at take_two_nth be_value_two)

lemma read_value_at:
  "k + n \<le> length bs \<Longrightarrow> read_value fetch n (at bs k) = Inr (be_value (take n (drop k bs)), at bs (k + n))"
proof (induction n)
  case 0
  then show ?case by (simp add: read_value_def be_value_def)
next
  case (Suc n)
  then have "take (Suc n) (drop k bs) = take n (drop k bs) @ [bs ! (k + n)]"
    by (simp add: take_Suc_conv_app_nth)
  with Suc show ?case
    by (simp add: read_value_def be_value_snoc fetch_at)
qed

lemma read_many_at:
  "k + n \<le> length bs \<Longrightarrow> read_many fetch n (at bs k) = Inr (take n (drop k bs), at bs (k + n))"
proof (induction n arbitrary: k)
  case (Suc n)
  moreover from Suc.prems have "drop k bs = bs ! k # drop (Suc k) bs"
    by (simp add: Cons_nth_drop_Suc)
  ultimately show ?case
    by (simp add: fetch_at)
qed simp

lemma read_expected_at:
  "k + length ms \<le> length bs \<Longrightarrow> \<exists>r. read_expected fetch ms (at bs k) = Inr (take (length ms) (drop k bs) = ms, r) \<and>
     (take (length ms) (drop k bs) = ms \<longrightarrow> r = at bs (k + length ms))"
proof (induction ms arbitrary: k)
  case (Cons m ms)
  moreover from Cons.prems have "drop k bs = bs ! k # drop (Suc k) bs"
    by (simp add: Cons_nth_drop_Suc)
  ultimately show ?case
    using Cons.IH [of "Suc k"] by (auto simp: fetch_at)
qed simp

end

section \<open>Strict codecs\<close>

text \<open>
  What a strict codec promises its clients: a valid value can be encoded and survives
  decoding, and the decoder accepts nothing but the encoding of the value it returns. The
  second law is what makes a digest of the encoding a digest of the value. Both functions
  may throw; the inner sum of the decoder is its documented error value.
\<close>

locale byte_codec =
  fixes encode :: "'a \<Rightarrow> bytes result"
    and decode :: "bytes \<Rightarrow> ('e + 'a) result"
    and valid :: "'a \<Rightarrow> bool"
  assumes encode_valid: "valid a \<Longrightarrow> \<exists>bs. encode a = Inr bs \<and> decode bs = Inr (Inr a)"
    and decode_strict: "decode bs = Inr (Inr a) \<Longrightarrow> valid a \<and> encode a = Inr bs"
begin

lemma decode_iff: "decode bs = Inr (Inr a) \<longleftrightarrow> valid a \<and> encode a = Inr bs"
  using encode_valid [of a] decode_strict [of bs a] by auto

lemma encode_inj: "valid a \<Longrightarrow> valid b \<Longrightarrow> encode a = encode b \<Longrightarrow> a = b"
  using encode_valid [of a] encode_valid [of b] by auto

lemma decode_inj: "decode bs = Inr (Inr a) \<Longrightarrow> decode bs' = Inr (Inr a) \<Longrightarrow> bs = bs'"
  by (simp add: decode_iff)

end

locale fixed_width_codec = byte_codec +
  fixes width :: nat
  assumes encode_width: "valid a \<Longrightarrow> encode a = Inr bs \<Longrightarrow> length bs = width"
    and width_pos: "0 < width"
begin

lemma decode_width: "decode bs = Inr (Inr a) \<Longrightarrow> length bs = width"
  using decode_iff encode_width by auto

text \<open>A concatenation of encodings determines the values.\<close>

lemma concat_encode_inj:
  "list_all2 (\<lambda>a x. valid a \<and> encode a = Inr x) as xs \<Longrightarrow>
   list_all2 (\<lambda>b y. valid b \<and> encode b = Inr y) bs ys \<Longrightarrow>
   concat xs = concat ys \<Longrightarrow> as = bs"
proof (induction as arbitrary: bs xs ys)
  case Nil
  then show ?case
    using encode_width width_pos by (cases bs; cases ys) auto
next
  case (Cons a as)
  then obtain x xs' where x: "xs = x # xs'" "valid a" "encode a = Inr x"
      "list_all2 (\<lambda>a x. valid a \<and> encode a = Inr x) as xs'"
    by (cases xs) auto
  then have wx: "length x = width"
    using encode_width by simp
  then obtain b bs' y ys' where y: "bs = b # bs'" "ys = y # ys'" "valid b" "encode b = Inr y"
      "list_all2 (\<lambda>b y. valid b \<and> encode b = Inr y) bs' ys'"
    using Cons.prems x width_pos by (cases bs; cases ys) auto
  have "x = y" "concat xs' = concat ys'"
    using Cons.prems(3) wx encode_width [OF y(3,4)] by (simp_all add: x y append_eq_append_conv)
  then show ?case
    using Cons.IH [OF x(4) y(5)] encode_inj [of a b] x y by simp
qed

end

end
