(* ===== verification/Units.thy ===== *)
theory Units
  imports Tickline_Prelude
begin

text \<open>
  The integer units of \<open>simulation/units.hpp\<close> and the fixed-step clock of
  \<open>simulation/tick_clock.hpp\<close>. Each wrapper class is a datatype around the machine integer
  it stores; a constructor that throws is a function into a result.
\<close>

section \<open>Units\<close>

datatype Microseconds = Microseconds (us_count: i64)

datatype Millimeters = Millimeters (mm_count: i64)

datatype MillimetersPerSecond = MillimetersPerSecond (mmps_count: i64)

datatype EntityId = EntityId (eid_value: u64)

record Position2 =
  p_x :: Millimeters
  p_y :: Millimeters

record Velocity2 =
  v_x :: MillimetersPerSecond
  v_y :: MillimetersPerSecond

definition Microseconds_zero :: Microseconds where
  "Microseconds_zero = Microseconds 0"

definition from_milliseconds :: "i64 \<Rightarrow> Microseconds result" where
  "from_milliseconds milliseconds =
     (if sint milliseconds > trunc_div i64_max 1000 \<or>
         sint milliseconds < trunc_div i64_min 1000
      then Inl Overflow_error
      else bind_result (signed_mul milliseconds (i64 1000)) (\<lambda>n. Inr (Microseconds n)))"

definition make_entity_id :: "u64 \<Rightarrow> EntityId result" where
  "make_entity_id value = (if value = 0 then Inl Invalid_argument else Inr (EntityId value))"

text \<open>The defaulted three-way comparison of identifiers compares their values.\<close>

instantiation EntityId :: linorder
begin

definition less_eq_EntityId :: "EntityId \<Rightarrow> EntityId \<Rightarrow> bool" where
  "less_eq_EntityId a b \<longleftrightarrow> eid_value a \<le> eid_value b"

definition less_EntityId :: "EntityId \<Rightarrow> EntityId \<Rightarrow> bool" where
  "less_EntityId a b \<longleftrightarrow> eid_value a < eid_value b"

instance
  by standard (auto simp: less_eq_EntityId_def less_EntityId_def intro: EntityId.expand)

end

lemma trunc_div_limits: "trunc_div i64_max 1000 = 9223372036854775" "trunc_div i64_min 1000 = - 9223372036854775"
  by (simp_all add: trunc_div_def)

section \<open>The fixed-step clock\<close>

record Tick =
  tick_index :: u64
  tick_elapsed :: Microseconds

record FixedStepClock =
  clk_tick_duration :: Microseconds
  clk_tick_index :: u64
  clk_elapsed :: Microseconds

definition make_clock :: "Microseconds \<Rightarrow> FixedStepClock result" where
  "make_clock tick_duration =
     (if sint (us_count tick_duration) \<le> 0 then Inl Invalid_argument
      else Inr \<lparr>clk_tick_duration = tick_duration, clk_tick_index = 0,
                clk_elapsed = Microseconds_zero\<rparr>)"

definition clock_current_tick :: "FixedStepClock \<Rightarrow> Tick" where
  "clock_current_tick c = \<lparr>tick_index = clk_tick_index c, tick_elapsed = clk_elapsed c\<rparr>"

text \<open>
  Both exceptions are thrown before the first write, so a failing call leaves the clock as
  it was; a successful one returns the new tick and the new clock.
\<close>

definition clock_advance :: "FixedStepClock \<Rightarrow> (Tick \<times> FixedStepClock) result" where
  "clock_advance c =
     (if clk_tick_index c = - 1 then Inl Overflow_error
      else
        let duration = us_count (clk_tick_duration c);
            elapsed = us_count (clk_elapsed c)
        in bind_result (signed_sub (i64 i64_max) duration) (\<lambda>headroom.
           if sint elapsed > sint headroom then Inl Overflow_error
           else bind_result (signed_add elapsed duration) (\<lambda>elapsed'.
             let c' = c\<lparr>clk_tick_index := clk_tick_index c + 1,
                        clk_elapsed := Microseconds elapsed'\<rparr>
             in Inr (clock_current_tick c', c'))))"

definition clock_ok :: "FixedStepClock \<Rightarrow> bool" where
  "clock_ok c \<longleftrightarrow>
     0 < sint (us_count (clk_tick_duration c)) \<and>
     sint (us_count (clk_elapsed c)) =
       uint (clk_tick_index c) * sint (us_count (clk_tick_duration c))"

lemma fits_i64_max [simp]: "fits_i64 i64_max" "fits_i64 1000"
  by (simp_all add: fits_i64_def)

lemma make_clock_ok: "make_clock d = Inr c \<Longrightarrow> clock_ok c"
  by (auto simp: make_clock_def clock_ok_def Microseconds_zero_def split: if_splits)

lemma uint_Suc: "w \<noteq> - 1 \<Longrightarrow> uint (w + 1) = uint (w :: u64) + 1"
proof -
  assume "w \<noteq> - 1"
  then have "unat (w + 1) = Suc (unat w)"
    by (metis add.commute add_eq_0_iff unatSuc)
  then show ?thesis
    by (metis of_nat_Suc uint_nat add.commute)
qed

text \<open>
  The behaviour of a tick on a clock in a valid state, branch by branch: no undefined
  behaviour, two overflow exceptions, and otherwise exactly one tick of exactly the
  configured duration.
\<close>

lemma clock_advance_cases:
  assumes "clock_ok c"
  shows "clock_advance c =
    (if clk_tick_index c = - 1 \<or>
        sint (us_count (clk_elapsed c)) + sint (us_count (clk_tick_duration c)) > i64_max
     then Inl Overflow_error
     else let c' = c\<lparr>clk_tick_index := clk_tick_index c + 1,
                     clk_elapsed := Microseconds (i64 (sint (us_count (clk_elapsed c)) +
                        sint (us_count (clk_tick_duration c))))\<rparr>
          in Inr (clock_current_tick c', c'))"
proof -
  let ?d = "sint (us_count (clk_tick_duration c))" and ?e = "sint (us_count (clk_elapsed c))"
  have pos: "0 < ?d" and "0 \<le> ?e"
    using assms by (simp_all add: clock_ok_def)
  moreover have "fits_i64 (i64_max - ?d)"
    using pos sint_bounds [of "us_count (clk_tick_duration c)"] by (simp add: fits_i64_def)
  ultimately show ?thesis
    by (auto simp: clock_advance_def Let_def signed_sub_def signed_add_def fits_i64_def)
qed

lemma clock_advance_ok:
  assumes "clock_ok c" and "clock_advance c = Inr (t, c')"
  shows "clock_ok c'" and "clk_tick_index c' = clk_tick_index c + 1"
    and "uint (clk_tick_index c') = uint (clk_tick_index c) + 1"
    and "clk_tick_duration c' = clk_tick_duration c" and "t = clock_current_tick c'"
proof -
  let ?d = "sint (us_count (clk_tick_duration c))" and ?e = "sint (us_count (clk_elapsed c))"
  have step: "clk_tick_index c \<noteq> - 1" "?e + ?d \<le> i64_max"
      "c' = c\<lparr>clk_tick_index := clk_tick_index c + 1, clk_elapsed := Microseconds (i64 (?e + ?d))\<rparr>"
      "t = clock_current_tick c'"
    using assms by (auto simp: clock_advance_cases Let_def split: if_splits)
  moreover have "0 \<le> ?e" and "0 < ?d"
    using assms(1) by (simp_all add: clock_ok_def)
  then have "fits_i64 (?e + ?d)"
    using step(2) by (simp add: fits_i64_def)
  moreover have "uint (clk_tick_index c + 1) = uint (clk_tick_index c) + 1"
    using step(1) by (rule uint_Suc)
  ultimately show "clock_ok c'" "clk_tick_index c' = clk_tick_index c + 1"
      "uint (clk_tick_index c') = uint (clk_tick_index c) + 1"
      "clk_tick_duration c' = clk_tick_duration c" "t = clock_current_tick c'"
    using assms(1) by (simp_all add: clock_ok_def algebra_simps)
qed

end
