(* ===== verification/Ordered_Map.thy ===== *)
theory Ordered_Map
  imports Tickline_Prelude
begin

text \<open>
  The part of \<open>std::map\<close> the sources use: a container whose iteration order is the ascending
  order of its keys. It is an association list with strictly ascending keys;
  \<open>ordered_map\<close> states what the clients rely on (lookup after every operation, the
  order invariant, and that the contents determine the container), and the list operations
  are an interpretation of it.
\<close>

type_synonym ('k, 'v) omap = "('k \<times> 'v) list"

definition omap_ok :: "('k::linorder, 'v) omap \<Rightarrow> bool" where
  "omap_ok m \<longleftrightarrow> sorted_wrt (<) (map fst m)"

definition omap_contains :: "('k, 'v) omap \<Rightarrow> 'k \<Rightarrow> bool" where
  "omap_contains m k \<longleftrightarrow> map_of m k \<noteq> None"

text \<open>\<open>at\<close> throws \<open>std::out_of_range\<close> for a missing key.\<close>

definition omap_at :: "('k, 'v) omap \<Rightarrow> 'k \<Rightarrow> 'v result" where
  "omap_at m k = (case map_of m k of None \<Rightarrow> Inl Out_of_range | Some v \<Rightarrow> Inr v)"

text \<open>\<open>emplace\<close> leaves an existing element alone.\<close>

fun omap_emplace :: "'k::linorder \<Rightarrow> 'v \<Rightarrow> ('k, 'v) omap \<Rightarrow> ('k, 'v) omap" where
  "omap_emplace k v [] = [(k, v)]"
| "omap_emplace k v ((a, b) # m) =
     (if k < a then (k, v) # (a, b) # m
      else if k = a then (a, b) # m
      else (a, b) # omap_emplace k v m)"

text \<open>Assignment through a reference that \<open>at\<close> returned.\<close>

definition omap_assign :: "'k \<Rightarrow> 'v \<Rightarrow> ('k, 'v) omap \<Rightarrow> ('k, 'v) omap" where
  "omap_assign k v m = map (\<lambda>(a, b). if a = k then (a, v) else (a, b)) m"

lemma ascending_unique:
  assumes "sorted_wrt (<) (map fst xs)" and "sorted_wrt (<) (map fst ys)"
    and "map_of xs = map_of (ys :: ('k::linorder \<times> 'v) list)"
  shows "xs = ys"
proof (rule map_sorted_distinct_set_unique [where f = fst])
  have d: "distinct (map fst xs)" "distinct (map fst ys)"
    using assms by (simp_all add: strict_sorted_iff)
  then show "distinct (map fst xs)" "distinct (map fst ys)" .
  show eq: "set xs = set ys"
    using d assms(3) by (metis map_of_inject_set)
  show "inj_on fst (set xs \<union> set ys)"
    using d eq by (simp add: distinct_map)
qed (use assms in \<open>simp_all add: strict_sorted_iff\<close>)

locale ordered_map =
  fixes lookup :: "'m \<Rightarrow> 'k::linorder \<Rightarrow> 'v option"
    and emplace :: "'k \<Rightarrow> 'v \<Rightarrow> 'm \<Rightarrow> 'm"
    and assign :: "'k \<Rightarrow> 'v \<Rightarrow> 'm \<Rightarrow> 'm"
    and iterate :: "'m \<Rightarrow> ('k \<times> 'v) list"
    and invar :: "'m \<Rightarrow> bool"
  assumes lookup_emplace: "invar m \<Longrightarrow>
      lookup (emplace k v m) = (if lookup m k = None then (lookup m)(k \<mapsto> v) else lookup m)"
    and lookup_assign: "invar m \<Longrightarrow>
      lookup (assign k v m) = (if lookup m k = None then lookup m else (lookup m)(k \<mapsto> v))"
    and invar_emplace: "invar m \<Longrightarrow> invar (emplace k v m)"
    and invar_assign: "invar m \<Longrightarrow> invar (assign k v m)"
    and iterate_lookup: "invar m \<Longrightarrow> map_of (iterate m) = lookup m"
    and iterate_ascending: "invar m \<Longrightarrow> sorted_wrt (<) (map fst (iterate m))"
    and contents_determine: "invar m \<Longrightarrow> invar m' \<Longrightarrow> iterate m = iterate m' \<Longrightarrow> m = m'"
begin

text \<open>The contents alone determine the container, so the history of insertions is not observable.\<close>

lemma extensional: "invar m \<Longrightarrow> invar m' \<Longrightarrow> lookup m = lookup m' \<Longrightarrow> m = m'"
  by (rule contents_determine) (auto intro: ascending_unique simp: iterate_lookup iterate_ascending)

lemma emplace_commute:
  "invar m \<Longrightarrow> k \<noteq> k' \<Longrightarrow> emplace k v (emplace k' v' m) = emplace k' v' (emplace k v m)"
  by (rule extensional) (auto simp: lookup_emplace invar_emplace fun_upd_twist)

end

lemma map_of_omap_emplace:
  "map_of (omap_emplace k v m) =
     (if map_of m k = None then (map_of m)(k \<mapsto> v) else map_of m)" if "omap_ok m"
  using that
proof (induction m)
  case (Cons p m)
  obtain a b where p: "p = (a, b)" by (cases p)
  have none: "map_of m k = None" if "k < a"
  proof -
    have "k \<notin> fst ` set m"
      using Cons.prems that p by (force simp: omap_ok_def)
    then show ?thesis by (simp add: map_of_eq_None_iff)
  qed
  have "omap_ok m"
    using Cons.prems p by (simp add: omap_ok_def)
  then show ?case
    using Cons.IH none by (auto simp: p fun_eq_iff)
qed (simp add: fun_eq_iff)

lemma set_omap_emplace:
  "fst ` set (omap_emplace k v m) = insert k (fst ` set m)"
  by (induction k v m rule: omap_emplace.induct) auto

lemma in_omap_emplace: "p \<in> set (omap_emplace k v m) \<Longrightarrow> p \<in> set m \<or> p = (k, v)"
  by (induction k v m rule: omap_emplace.induct) (auto split: if_splits)

lemma omap_emplace_keys:
  "map fst m = map fst m' \<Longrightarrow> map fst (omap_emplace k v m) = map fst (omap_emplace k v' m')"
  by (induction k v m arbitrary: m' rule: omap_emplace.induct) (case_tac [!] m', auto)

lemma omap_ok_emplace: "omap_ok m \<Longrightarrow> omap_ok (omap_emplace k v m)"
proof (induction m)
  case (Cons p m)
  obtain a b where p: "p = (a, b)" by (cases p)
  have "\<forall>x \<in> fst ` set (omap_emplace k v m). a < x" if "a < k"
    using Cons.prems that p by (auto simp: omap_ok_def set_omap_emplace)
  with Cons show ?case
    by (auto simp: p omap_ok_def)
qed (simp add: omap_ok_def)

lemma fst_omap_assign [simp]: "map fst (omap_assign k v m) = map fst m"
  by (induction m) (auto simp: omap_assign_def)

lemma length_omap_assign [simp]: "length (omap_assign k v m) = length m"
  by (simp add: omap_assign_def)

lemma omap_ok_assign [simp]: "omap_ok (omap_assign k v m) \<longleftrightarrow> omap_ok m"
  by (simp add: omap_ok_def)

lemma map_of_omap_assign [simp]:
  "map_of (omap_assign k v m) =
     (if map_of m k = None then map_of m else (map_of m)(k \<mapsto> v))"
  by (induction m) (auto simp: omap_assign_def fun_eq_iff)

interpretation omap: ordered_map "map_of :: ('k::linorder \<times> 'v) list \<Rightarrow> 'k \<Rightarrow> 'v option"
  omap_emplace omap_assign "\<lambda>m. m" omap_ok
proof (unfold_locales, goal_cases)
  case (6 m)
  then show ?case by (simp only: omap_ok_def)
qed (simp_all add: map_of_omap_emplace omap_ok_emplace)

lemma omap_at_Inr [simp]: "omap_at m k = Inr v \<longleftrightarrow> map_of m k = Some v"
  by (simp add: omap_at_def split: option.splits)

lemma omap_at_Some: "map_of m k = Some v \<Longrightarrow> omap_at m k = Inr v"
  by simp

end
