(* ===== verification/World_Correct.thy ===== *)
theory World_Correct
  imports World
begin

text \<open>
  Correctness of the simulation: the arithmetic of one axis is exact and free of undefined
  behaviour, every operation keeps the world invariant, \<open>advance\<close> fails only with
  \<open>std::overflow_error\<close>, and the execution order of commands does not depend on the order
  in which they were queued.
\<close>

section \<open>Arithmetic\<close>

lemma fits_minus_pos [simp]: "0 < sint (l :: i64) \<Longrightarrow> fits_i64 (- sint l)"
  using sint_bounds [of l] by (simp add: fits_i64_def)

lemma within_symmetric_limit_pos [simp]:
  "0 < sint limit \<Longrightarrow> within_symmetric_limit v limit = Inr (\<bar>sint v\<bar> \<le> sint limit)"
  by (auto simp: within_symmetric_limit_def signed_neg_def)

lemma both_within_pos [simp]:
  "0 < sint limit \<Longrightarrow> both_within x y limit = Inr (\<bar>sint x\<bar> \<le> sint limit \<and> \<bar>sint y\<bar> \<le> sint limit)"
  by (auto simp: both_within_def)

lemma checked_add_eq:
  "checked_add a b = (if fits_i64 (sint a + sint b) then Inr (i64 (sint a + sint b)) else Inl Overflow_error)"
proof -
  have "0 < sint b \<Longrightarrow> fits_i64 (i64_max - sint b)" and "sint b < 0 \<Longrightarrow> fits_i64 (i64_min - sint b)"
    and "fits_i64 i64_min"
    using sint_bounds [of b] by (simp_all add: fits_i64_def)
  then show ?thesis
    using sint_bounds [of a] by (auto simp: checked_add_def signed_sub_def signed_add_def fits_i64_def
        signed_result_def)
qed

definition integration_safe :: "i64 \<Rightarrow> i64 \<Rightarrow> bool" where
  "integration_safe velocity_limit duration \<longleftrightarrow>
     0 < sint velocity_limit \<and> 0 < sint duration \<and>
     sint velocity_limit * sint duration \<le> i64_max - (microseconds_per_second - 1)"

lemma displacement_bound:
  assumes "integration_safe vl d" and "\<bar>sint v\<bar> \<le> sint vl" and "\<bar>sint r\<bar> < microseconds_per_second"
  shows "\<bar>sint v * sint d\<bar> \<le> i64_max - (microseconds_per_second - 1)"
    and "\<bar>sint v * sint d + sint r\<bar> \<le> i64_max"
proof -
  have "\<bar>sint v * sint d\<bar> = \<bar>sint v\<bar> * sint d"
    using assms(1) by (simp add: abs_mult integration_safe_def)
  also have "\<dots> \<le> sint vl * sint d"
    using assms(1,2) by (intro mult_right_mono) (simp_all add: integration_safe_def)
  finally show vd: "\<bar>sint v * sint d\<bar> \<le> i64_max - (microseconds_per_second - 1)"
    using assms(1) by (simp add: integration_safe_def)
  then show "\<bar>sint v * sint d + sint r\<bar> \<le> i64_max"
    using assms(3) by linarith
qed

lemma integrate_axis_eq:
  assumes "integration_safe vl d" and "\<bar>sint v\<bar> \<le> sint vl"
    and "\<bar>sint r\<bar> < microseconds_per_second" and "0 < sint lim"
  shows "integrate_axis p v r d lim =
    (let s = sint v * sint d + sint r;
         q = sint p + trunc_div s microseconds_per_second
     in if \<bar>q\<bar> \<le> sint lim
        then Inr \<lparr>ai_position = i64 q, ai_residual = i64 (trunc_mod s microseconds_per_second)\<rparr>
        else Inl Overflow_error)"
proof -
  let ?s = "sint v * sint d + sint r"
  note b = displacement_bound [OF assms(1-3)]
  have "fits_i64 (sint v * sint d)" and s: "fits_i64 ?s"
    using b by (auto intro: fits_i64_abs)
  moreover have "fits_i64 (trunc_div ?s microseconds_per_second)"
    using b(2) abs_trunc_div_le [of microseconds_per_second ?s] by (intro fits_i64_abs) simp
  moreover have "\<bar>q\<bar> \<le> sint lim \<Longrightarrow> fits_i64 q" for q
    by (rule fits_i64_within)
  ultimately show ?thesis
    using assms(4) by (auto simp: integrate_axis_def signed_mul_def signed_add_def checked_add_eq Let_def)
qed

text \<open>
  In units of a millionth of a millimetre nothing is lost: position and residual together
  move by exactly velocity times duration.
\<close>

abbreviation scaled_position :: "i64 \<Rightarrow> i64 \<Rightarrow> int" where
  "scaled_position p r \<equiv> sint p * microseconds_per_second + sint r"

lemma integrate_axis_exact:
  assumes "integration_safe vl d" and "\<bar>sint v\<bar> \<le> sint vl"
    and "\<bar>sint r\<bar> < microseconds_per_second" and "0 < sint lim"
    and "integrate_axis p v r d lim = Inr a"
  shows "scaled_position (ai_position a) (ai_residual a) = scaled_position p r + sint v * sint d"
    and "\<bar>sint (ai_residual a)\<bar> < microseconds_per_second"
    and "\<bar>sint (ai_position a)\<bar> \<le> sint lim"
proof -
  let ?s = "sint v * sint d + sint r"
  let ?q = "sint p + trunc_div ?s microseconds_per_second"
  have a: "a = \<lparr>ai_position = i64 ?q, ai_residual = i64 (trunc_mod ?s microseconds_per_second)\<rparr>"
    and q: "\<bar>?q\<bar> \<le> sint lim"
    using assms by (auto simp: integrate_axis_eq Let_def split: if_splits)
  have m: "\<bar>trunc_mod ?s microseconds_per_second\<bar> < microseconds_per_second"
    by (rule abs_trunc_mod_less) simp
  then have "fits_i64 (trunc_mod ?s microseconds_per_second)"
    by (intro fits_i64_abs) simp
  moreover have "fits_i64 ?q"
    using q by (rule fits_i64_within)
  ultimately show "scaled_position (ai_position a) (ai_residual a) = scaled_position p r + sint v * sint d"
    and "\<bar>sint (ai_residual a)\<bar> < microseconds_per_second"
    and "\<bar>sint (ai_position a)\<bar> \<le> sint lim"
    using m q trunc_div_mod [of ?s microseconds_per_second] by (simp_all add: a algebra_simps)
qed

section \<open>The world invariant\<close>

definition stored_ok :: "WorldLimits \<Rightarrow> StoredEntity \<Rightarrow> bool" where
  "stored_ok limits s \<longleftrightarrow>
     \<bar>sint (mm_count (p_x (es_position (se_state s))))\<bar> \<le> sint (mm_count (wl_max_abs_position limits)) \<and>
     \<bar>sint (mm_count (p_y (es_position (se_state s))))\<bar> \<le> sint (mm_count (wl_max_abs_position limits)) \<and>
     \<bar>sint (mmps_count (v_x (es_velocity (se_state s))))\<bar> \<le> sint (mmps_count (wl_max_abs_velocity limits)) \<and>
     \<bar>sint (mmps_count (v_y (es_velocity (se_state s))))\<bar> \<le> sint (mmps_count (wl_max_abs_velocity limits)) \<and>
     \<bar>sint (se_residual_x s)\<bar> < microseconds_per_second \<and>
     \<bar>sint (se_residual_y s)\<bar> < microseconds_per_second"

definition world_limits_ok :: "WorldLimits \<Rightarrow> Microseconds \<Rightarrow> bool" where
  "world_limits_ok limits duration \<longleftrightarrow>
     0 < sint (mm_count (wl_max_abs_position limits)) \<and>
     integration_safe (mmps_count (wl_max_abs_velocity limits)) (us_count duration)"

definition velocity_within :: "WorldLimits \<Rightarrow> Velocity2 \<Rightarrow> bool" where
  "velocity_within limits v \<longleftrightarrow>
     \<bar>sint (mmps_count (v_x v))\<bar> \<le> sint (mmps_count (wl_max_abs_velocity limits)) \<and>
     \<bar>sint (mmps_count (v_y v))\<bar> \<le> sint (mmps_count (wl_max_abs_velocity limits))"

text \<open>
  A pending command is in the future, belongs to a known entity, respects the velocity limit
  and the entity's records of sequences and target ticks, and has not been executed.
\<close>

definition command_ok :: "World \<Rightarrow> VelocityCommand \<Rightarrow> bool" where
  "command_ok w c \<longleftrightarrow>
     clk_tick_index (w_clock w) < vc_target_tick c \<and>
     velocity_within (w_limits w) (vc_velocity c) \<and>
     (\<exists>s highest latest.
        map_of (w_entities w) (vc_entity_id c) = Some s \<and>
        map_of (w_highest_sequence w) (vc_entity_id c) = Some highest \<and>
        map_of (w_latest_target_tick w) (vc_entity_id c) = Some latest \<and>
        es_last_sequence (se_state s) < vc_sequence c \<and>
        vc_sequence c \<le> highest \<and> vc_target_tick c \<le> latest)"

text \<open>Per entity, the queue is in the order of the sequence numbers.\<close>

definition queue_ordered :: "VelocityCommand list \<Rightarrow> bool" where
  "queue_ordered cs \<longleftrightarrow>
     sorted_wrt (\<lambda>c c'. command_order c c' \<and>
       (vc_entity_id c = vc_entity_id c' \<longrightarrow> vc_sequence c < vc_sequence c')) cs"

definition entity_ok :: "World \<Rightarrow> EntityId \<times> StoredEntity \<Rightarrow> bool" where
  "entity_ok w p \<longleftrightarrow>
     es_id (se_state (snd p)) = fst p \<and> stored_ok (w_limits w) (snd p) \<and>
     (\<exists>highest. map_of (w_highest_sequence w) (fst p) = Some highest \<and>
        es_last_sequence (se_state (snd p)) \<le> highest)"

definition world_ok :: "World \<Rightarrow> bool" where
  "world_ok w \<longleftrightarrow>
     clock_ok (w_clock w) \<and> world_limits_ok (w_limits w) (clk_tick_duration (w_clock w)) \<and>
     omap_ok (w_entities w) \<and>
     map fst (w_highest_sequence w) = map fst (w_entities w) \<and>
     map fst (w_latest_target_tick w) = map fst (w_entities w) \<and>
     list_all (entity_ok w) (w_entities w) \<and>
     list_all (command_ok w) (w_pending_commands w) \<and>
     queue_ordered (w_pending_commands w)"

lemma world_limits_pos:
  assumes "world_ok w"
  shows "0 < sint (mm_count (wl_max_abs_position (w_limits w)))"
    and "0 < sint (mmps_count (wl_max_abs_velocity (w_limits w)))"
    and "integration_safe (mmps_count (wl_max_abs_velocity (w_limits w))) (us_count (tick_duration w))"
  using assms by (simp_all add: world_ok_def world_limits_ok_def integration_safe_def tick_duration_def)

lemma world_keys:
  assumes "world_ok w"
  shows "omap_ok (w_highest_sequence w)" and "omap_ok (w_latest_target_tick w)"
    and "map_of (w_highest_sequence w) k = None \<longleftrightarrow> map_of (w_entities w) k = None"
    and "map_of (w_latest_target_tick w) k = None \<longleftrightarrow> map_of (w_entities w) k = None"
  using assms by (simp_all add: world_ok_def omap_ok_def map_of_eq_None_iff flip: set_map)

lemma validity_checks [simp]:
  assumes "world_ok w"
  shows "velocity_is_valid w v = Inr (velocity_within (w_limits w) v)"
    and "position_is_valid w p = Inr
      (\<bar>sint (mm_count (p_x p))\<bar> \<le> sint (mm_count (wl_max_abs_position (w_limits w))) \<and>
       \<bar>sint (mm_count (p_y p))\<bar> \<le> sint (mm_count (wl_max_abs_position (w_limits w))))"
  using world_limits_pos [OF assms]
  by (simp_all add: velocity_is_valid_def position_is_valid_def velocity_within_def)

lemma make_world_ok:
  assumes "make_world d l = Inr w"
  shows "world_ok w"
proof -
  obtain c where c: "make_clock d = Inr c" "clk_tick_duration c = d"
    and pos: "0 < sint (mm_count (wl_max_abs_position l))" "0 < sint (mmps_count (wl_max_abs_velocity l))"
    and safe: "sint (mmps_count (wl_max_abs_velocity l))
      \<le> trunc_div (i64_max - (microseconds_per_second - 1)) (sint (us_count d))"
    and w: "w = \<lparr>w_clock = c, w_limits = l, w_entities = [], w_highest_sequence = [],
      w_latest_target_tick = [], w_pending_commands = []\<rparr>" and d: "0 < sint (us_count d)"
    using assms by (auto simp: make_world_def make_clock_def Let_def result_simps split: if_splits)
  have "sint (mmps_count (wl_max_abs_velocity l)) * sint (us_count d)
      \<le> trunc_div (i64_max - (microseconds_per_second - 1)) (sint (us_count d)) * sint (us_count d)"
    using safe d by (simp add: mult_right_mono)
  also have "\<dots> \<le> i64_max - (microseconds_per_second - 1)"
    using d by (simp add: trunc_div_def sgn_if minus_mod_eq_div_mult [symmetric])
  finally have "integration_safe (mmps_count (wl_max_abs_velocity l)) (us_count d)"
    using pos d by (simp add: integration_safe_def)
  then show ?thesis
    using c pos make_clock_ok [OF c(1)] by (simp add: w world_ok_def world_limits_ok_def omap_ok_def queue_ordered_def)
qed

section \<open>The command queue\<close>

lemma command_order_key: "command_order c c' \<longleftrightarrow> command_key c < command_key c'"
  by (auto simp: command_order_def command_key_def less_prod_def)

lemma command_order_irrefl [simp]: "\<not> command_order c c"
  by (simp add: command_order_key)

lemma command_order_asym: "command_order c c' \<Longrightarrow> \<not> command_order c' c"
  by (simp add: command_order_key)

lemma command_order_earlier: "vc_target_tick c < vc_target_tick c' \<Longrightarrow> command_order c c'"
  by (auto simp: command_order_def)

lemma set_sort_commands [simp]: "set (sort_commands cs) = set cs"
  and length_sort_commands [simp]: "length (sort_commands cs) = length cs"
  and mset_sort_commands [simp]: "mset (sort_commands cs) = mset cs"
  by (simp_all add: sort_commands_def)

lemma sorted_wrt_key:
  "sorted_wrt command_order cs \<longleftrightarrow> sorted (map command_key cs) \<and> distinct (map command_key cs)"
proof -
  have "sorted_wrt command_order cs \<longleftrightarrow> sorted_wrt (<) (map command_key cs)"
    by (simp add: sorted_wrt_map command_order_key [abs_def])
  then show ?thesis
    by (simp only: strict_sorted_iff)
qed

lemma sort_commands_sorted:
  assumes "distinct (map command_key cs)"
  shows "sorted_wrt command_order (sort_commands cs)"
proof -
  have "mset (map command_key (sort_commands cs)) = mset (map command_key cs)"
    by simp
  then have "distinct (map command_key (sort_commands cs))"
    using assms mset_eq_imp_distinct_iff by blast
  then show ?thesis
    by (simp only: sorted_wrt_key sort_commands_def sorted_sort_key simp_thms)
qed

text \<open>Every sorting of a queue with distinct keys is the one of the model.\<close>

lemma sort_commands_unique:
  assumes "sorted_wrt command_order cs'" and "mset cs' = mset cs"
  shows "sort_commands cs = cs'"
  unfolding sort_commands_def
proof (rule properties_for_sort_key)
  have d: "distinct (map command_key cs')" "distinct (map command_key cs)"
    using assms by (auto simp: sorted_wrt_key) (metis mset_eq_imp_distinct_iff mset_map)
  show "mset cs' = mset cs" by fact
  show "sorted (map command_key cs')"
    using assms(1) by (simp add: sorted_wrt_key)
  fix k assume k: "k \<in> set cs'"
  have unique: "filter (\<lambda>x. command_key k = command_key x) xs = [k]"
    if "distinct (map command_key xs)" "k \<in> set xs" for xs
    using that
    by (induction xs) (auto simp: filter_empty_conv image_iff)
  show "filter (\<lambda>x. command_key k = command_key x) cs' = filter (\<lambda>x. command_key k = command_key x) cs"
    using unique [OF d(1) k] unique [OF d(2)] k mset_eq_setD [OF assms(2)] by simp
qed

definition sequences_follow_order :: "VelocityCommand set \<Rightarrow> bool" where
  "sequences_follow_order S \<longleftrightarrow>
     (\<forall>c \<in> S. \<forall>c' \<in> S. vc_entity_id c = vc_entity_id c' \<longrightarrow> command_order c c' \<longrightarrow> vc_sequence c < vc_sequence c')"

lemma queue_ordered_iff:
  "queue_ordered cs \<longleftrightarrow> sorted_wrt command_order cs \<and> sequences_follow_order (set cs)"
proof
  assume q: "queue_ordered cs"
  then show "sorted_wrt command_order cs \<and> sequences_follow_order (set cs)"
  proof (induction cs)
    case (Cons c cs)
    then show ?case
      by (auto simp: queue_ordered_def sequences_follow_order_def dest: command_order_asym)
  qed (simp add: sequences_follow_order_def)
next
  assume "sorted_wrt command_order cs \<and> sequences_follow_order (set cs)"
  then show "queue_ordered cs"
    by (induction cs) (auto simp: queue_ordered_def sequences_follow_order_def)
qed

lemma queue_ordered_filter: "queue_ordered cs \<Longrightarrow> queue_ordered (filter P cs)"
  by (simp add: queue_ordered_def sorted_wrt_filter)

lemma queue_ordered_insert:
  assumes "queue_ordered cs"
    and "\<And>c. c \<in> set cs \<Longrightarrow> vc_entity_id c = vc_entity_id d \<Longrightarrow>
      vc_sequence c < vc_sequence d \<and> vc_target_tick c \<le> vc_target_tick d"
  shows "queue_ordered (sort_commands (cs @ [d]))"
proof -
  have "distinct (map command_key (cs @ [d]))"
    using assms by (fastforce simp: queue_ordered_iff sorted_wrt_key command_key_def)
  moreover have "sequences_follow_order (set (cs @ [d]))"
    using assms by (fastforce simp: queue_ordered_iff sequences_follow_order_def command_order_def split: if_splits)
  ultimately show ?thesis
    by (simp add: queue_ordered_iff sort_commands_sorted)
qed

section \<open>Entry points\<close>

lemma add_entity_ok:
  assumes "world_ok w" and "add_entity w e = Inr (r, w')"
  shows "world_ok w'"
proof (cases "r = Add_added")
  case False
  then have "w' = w"
    using assms by (auto simp: add_entity_def Let_def split: if_splits)
  then show ?thesis using assms(1) by simp
next
  case True
  let ?id = "es_id e"
  let ?s = "\<lparr>se_state = e\<lparr>es_last_sequence := 0\<rparr>, se_residual_x = 0, se_residual_y = 0\<rparr>"
  have new: "map_of (w_entities w) ?id = None"
    and s: "stored_ok (w_limits w) ?s"
    and w': "w' = w\<lparr>w_entities := omap_emplace ?id ?s (w_entities w),
        w_highest_sequence := omap_emplace ?id 0 (w_highest_sequence w),
        w_latest_target_tick := omap_emplace ?id (tick_index (current_tick w)) (w_latest_target_tick w)\<rparr>"
    using assms True
    by (auto simp: add_entity_def omap_contains_def stored_ok_def velocity_within_def Let_def split: if_splits)
  have absent: "(?id, b) \<notin> set (w_entities w)" for b
    using new by (force simp: map_of_eq_None_iff)
  note lookups = omap.lookup_emplace [of "w_entities w"]
    omap.lookup_emplace [OF world_keys(1) [OF assms(1)]]
    omap.lookup_emplace [OF world_keys(2) [OF assms(1)]] world_keys(3,4) [OF assms(1)]
  show ?thesis
    using assms(1) s new absent lookups
    by (auto simp: world_ok_def w' omap_emplace_keys omap_ok_emplace list_all_iff entity_ok_def
        command_ok_def dest!: in_omap_emplace)
qed

text \<open>The guards of \<open>queue_velocity\<close>, in the order of the code.\<close>

lemma queue_velocity_cases:
  assumes "world_ok w"
  shows "queue_velocity w c =
    (if vc_target_tick c \<le> clk_tick_index (w_clock w) then Inr (Queue_stale_tick, w)
     else if map_of (w_entities w) (vc_entity_id c) = None then Inr (Queue_unknown_entity, w)
     else if vc_sequence c \<le> the (map_of (w_highest_sequence w) (vc_entity_id c))
     then Inr (Queue_sequence_not_increasing, w)
     else if vc_target_tick c < the (map_of (w_latest_target_tick w) (vc_entity_id c))
     then Inr (Queue_target_tick_regression, w)
     else if \<not> velocity_within (w_limits w) (vc_velocity c) then Inr (Queue_velocity_out_of_range, w)
     else Inr (Queue_accepted,
       w\<lparr>w_highest_sequence := omap_assign (vc_entity_id c) (vc_sequence c) (w_highest_sequence w),
         w_latest_target_tick := omap_assign (vc_entity_id c) (vc_target_tick c) (w_latest_target_tick w),
         w_pending_commands := sort_commands (w_pending_commands w @ [c])\<rparr>))"
proof (cases "map_of (w_entities w) (vc_entity_id c) = None")
  case True
  then show ?thesis
    by (simp add: queue_velocity_def omap_contains_def current_tick_def clock_current_tick_def)
next
  case False
  then obtain s h l where "map_of (w_entities w) (vc_entity_id c) = Some s"
      "map_of (w_highest_sequence w) (vc_entity_id c) = Some h"
      "map_of (w_latest_target_tick w) (vc_entity_id c) = Some l"
    using world_keys(3,4) [OF assms] by (metis not_None_eq)
  with assms show ?thesis
    by (simp add: queue_velocity_def omap_contains_def current_tick_def clock_current_tick_def omap_at_Some)
qed

lemma queue_velocity_acceptedE:
  assumes "world_ok w" and "queue_velocity w c = Inr (Queue_accepted, w')"
  obtains s h l where "map_of (w_entities w) (vc_entity_id c) = Some s"
    "map_of (w_highest_sequence w) (vc_entity_id c) = Some h"
    "map_of (w_latest_target_tick w) (vc_entity_id c) = Some l"
    "clk_tick_index (w_clock w) < vc_target_tick c" "h < vc_sequence c"
    "l \<le> vc_target_tick c" "velocity_within (w_limits w) (vc_velocity c)"
    "w' = w\<lparr>w_highest_sequence := omap_assign (vc_entity_id c) (vc_sequence c) (w_highest_sequence w),
        w_latest_target_tick := omap_assign (vc_entity_id c) (vc_target_tick c) (w_latest_target_tick w),
        w_pending_commands := sort_commands (w_pending_commands w @ [c])\<rparr>"
proof -
  have known: "map_of (w_entities w) (vc_entity_id c) \<noteq> None"
    using assms by (auto simp: queue_velocity_cases split: if_splits)
  then obtain s h l where "map_of (w_entities w) (vc_entity_id c) = Some s"
      "map_of (w_highest_sequence w) (vc_entity_id c) = Some h"
      "map_of (w_latest_target_tick w) (vc_entity_id c) = Some l"
    using world_keys(3,4) [OF assms(1)] by (metis not_None_eq)
  with assms that show ?thesis
    by (simp add: queue_velocity_cases not_le not_less split: if_splits)
qed

lemma queue_velocity_rejected:
  "world_ok w \<Longrightarrow> queue_velocity w c = Inr (r, w') \<Longrightarrow> r \<noteq> Queue_accepted \<Longrightarrow> w' = w"
  by (auto simp: queue_velocity_cases split: if_splits)

lemma queue_velocity_total: "world_ok w \<Longrightarrow> \<exists>r w'. queue_velocity w c = Inr (r, w')"
  by (simp add: queue_velocity_cases)

lemma queue_velocity_ok:
  assumes "world_ok w" and "queue_velocity w c = Inr (r, w')"
  shows "world_ok w'"
proof (cases "r = Queue_accepted")
  case False
  then have "w' = w"
    using assms by (blast dest: queue_velocity_rejected)
  then show ?thesis using assms(1) by simp
next
  case True
  with assms(2) have "queue_velocity w c = Inr (Queue_accepted, w')" by simp
  from assms(1) this obtain s h l where known: "map_of (w_entities w) (vc_entity_id c) = Some s"
      "map_of (w_highest_sequence w) (vc_entity_id c) = Some h"
      "map_of (w_latest_target_tick w) (vc_entity_id c) = Some l"
    and guards: "clk_tick_index (w_clock w) < vc_target_tick c" "h < vc_sequence c"
      "l \<le> vc_target_tick c" "velocity_within (w_limits w) (vc_velocity c)"
    and w': "w' = w\<lparr>w_highest_sequence := omap_assign (vc_entity_id c) (vc_sequence c) (w_highest_sequence w),
        w_latest_target_tick := omap_assign (vc_entity_id c) (vc_target_tick c) (w_latest_target_tick w),
        w_pending_commands := sort_commands (w_pending_commands w @ [c])\<rparr>"
    by (rule queue_velocity_acceptedE)
  have "(vc_entity_id c, s) \<in> set (w_entities w)"
    using known(1) by (rule map_of_SomeD)
  then have last: "es_last_sequence (se_state s) < vc_sequence c"
    using assms(1) known(2) guards(2) by (fastforce simp: world_ok_def list_all_iff entity_ok_def)
  have "vc_sequence d < vc_sequence c \<and> vc_target_tick d \<le> vc_target_tick c"
    if "d \<in> set (w_pending_commands w)" "vc_entity_id d = vc_entity_id c" for d
    using assms(1) that known guards by (force simp: world_ok_def list_all_iff command_ok_def)
  then have "queue_ordered (sort_commands (w_pending_commands w @ [c]))"
    using assms(1) by (intro queue_ordered_insert) (auto simp: world_ok_def)
  then show ?thesis
    using assms(1) known guards last
    by (auto simp: world_ok_def w' list_all_iff entity_ok_def command_ok_def)
qed

section \<open>Advancing\<close>

text \<open>
  What the command loop computes: every entity executes the commands due at the tick, in
  queue order, so it ends up with the velocity and the sequence of its last due command.
\<close>

definition execute_command :: "VelocityCommand \<Rightarrow> StoredEntity \<Rightarrow> StoredEntity" where
  "execute_command c s = s\<lparr>se_state := (se_state s)\<lparr>es_velocity := vc_velocity c,
                                              es_last_sequence := vc_sequence c\<rparr>\<rparr>"

definition due_commands :: "u64 \<Rightarrow> EntityId \<Rightarrow> VelocityCommand list \<Rightarrow> VelocityCommand list" where
  "due_commands n k cs = filter (\<lambda>c. vc_target_tick c = n \<and> vc_entity_id c = k) cs"

definition commanded :: "u64 \<Rightarrow> VelocityCommand list \<Rightarrow> EntityId \<times> StoredEntity \<Rightarrow> EntityId \<times> StoredEntity" where
  "commanded n cs p = (fst p, fold execute_command (due_commands n (fst p) cs) (snd p))"

lemma fold_execute:
  "fold execute_command cs s =
     (if cs = [] then s else execute_command (last cs) s)"
  by (induction cs arbitrary: s) (auto simp: execute_command_def)

lemma commanded_Cons:
  "commanded n (c # cs) p =
     commanded n cs (if vc_target_tick c = n \<and> vc_entity_id c = fst p
                     then (fst p, execute_command c (snd p)) else p)"
  by (simp add: commanded_def due_commands_def)

lemma map_of_commanded:
  "map_of (map (commanded n cs) es) k = map_option (\<lambda>s. snd (commanded n cs (k, s))) (map_of es k)"
  by (induction es) (auto simp: commanded_def)

lemma apply_commands_eq:
  assumes "\<And>c. c \<in> set cs \<Longrightarrow> n \<le> vc_target_tick c" and "sorted (map vc_target_tick cs)"
    and "\<And>c. c \<in> set cs \<Longrightarrow> map_of es (vc_entity_id c) \<noteq> None" and "distinct (map fst es)"
  shows "apply_commands n cs es = Inr (map (commanded n cs) es)"
  using assms
proof (induction cs arbitrary: es)
  case Nil
  then show ?case by (simp add: commanded_def due_commands_def)
next
  case (Cons c cs)
  show ?case
  proof (cases "n < vc_target_tick c")
    case True
    then have "due_commands n k (c # cs) = []" for k
      using Cons.prems(2) by (auto simp: due_commands_def filter_empty_conv)
    with True show ?thesis
      by (simp add: commanded_def)
  next
    case False
    then have n: "vc_target_tick c = n"
      using Cons.prems(1) [of c] by simp
    obtain s where s: "map_of es (vc_entity_id c) = Some s"
      using Cons.prems(3) [of c] by auto
    let ?es = "omap_assign (vc_entity_id c) (execute_command c s) es"
    have only: "b = s" if "(vc_entity_id c, b) \<in> set es" for b
      using that s Cons.prems(4) by (simp add: map_of_eq_Some_iff)
    have "apply_commands n (c # cs) es = apply_commands n cs ?es"
      using n s by (simp add: omap_at_Some execute_command_def)
    also have "\<dots> = Inr (map (commanded n cs) ?es)"
      using Cons.prems by (intro Cons.IH) (auto split: if_splits)
    also have "map (commanded n cs) ?es = map (commanded n (c # cs)) es"
      using n only by (auto simp: omap_assign_def commanded_Cons)
    finally show ?thesis .
  qed
qed

lemma integrate_entity_total:
  assumes "stored_ok l s" and "world_limits_ok l d"
  shows "integrate_entity (us_count d) (mm_count (wl_max_abs_position l)) s = Inl Overflow_error \<or>
    (\<exists>s'. integrate_entity (us_count d) (mm_count (wl_max_abs_position l)) s = Inr s')"
proof -
  have axis: "integrate_axis p v r (us_count d) (mm_count (wl_max_abs_position l)) = Inl Overflow_error \<or>
      (\<exists>a. integrate_axis p v r (us_count d) (mm_count (wl_max_abs_position l)) = Inr a)"
    if "\<bar>sint v\<bar> \<le> sint (mmps_count (wl_max_abs_velocity l))" "\<bar>sint r\<bar> < microseconds_per_second" for p v r
    using that assms(2) by (auto simp: world_limits_ok_def Let_def integrate_axis_eq [of "mmps_count (wl_max_abs_velocity l)"])
  note x = axis [of "mmps_count (v_x (es_velocity (se_state s)))" "se_residual_x s"
      "mm_count (p_x (es_position (se_state s)))"]
  note y = axis [of "mmps_count (v_y (es_velocity (se_state s)))" "se_residual_y s"
      "mm_count (p_y (es_position (se_state s)))"]
  show ?thesis
    using assms(1) x y unfolding integrate_entity_def stored_ok_def by auto
qed

lemma integrate_entity_ok:
  assumes "stored_ok l s" and "world_limits_ok l d"
    and "integrate_entity (us_count d) (mm_count (wl_max_abs_position l)) s = Inr s'"
  shows "stored_ok l s'" and "es_id (se_state s') = es_id (se_state s)"
    and "es_velocity (se_state s') = es_velocity (se_state s)"
    and "es_last_sequence (se_state s') = es_last_sequence (se_state s)"
proof -
  from assms(3) obtain ax ay where
    x: "integrate_axis (mm_count (p_x (es_position (se_state s)))) (mmps_count (v_x (es_velocity (se_state s))))
      (se_residual_x s) (us_count d) (mm_count (wl_max_abs_position l)) = Inr ax"
    and y: "integrate_axis (mm_count (p_y (es_position (se_state s)))) (mmps_count (v_y (es_velocity (se_state s))))
      (se_residual_y s) (us_count d) (mm_count (wl_max_abs_position l)) = Inr ay"
    and s': "s' = s\<lparr>se_state := (se_state s)\<lparr>es_position := \<lparr>p_x = Millimeters (ai_position ax),
      p_y = Millimeters (ai_position ay)\<rparr>\<rparr>, se_residual_x := ai_residual ax, se_residual_y := ai_residual ay\<rparr>"
    by (auto simp: integrate_entity_def result_simps)
  have safe: "integration_safe (mmps_count (wl_max_abs_velocity l)) (us_count d)"
    and pos: "0 < sint (mm_count (wl_max_abs_position l))"
    using assms(2) by (simp_all add: world_limits_ok_def)
  note ex = integrate_axis_exact(2,3) [OF safe _ _ pos x] integrate_axis_exact(2,3) [OF safe _ _ pos y]
  show "stored_ok l s'"
    using assms(1) ex by (simp add: s' stored_ok_def)
  show "es_id (se_state s') = es_id (se_state s)" "es_velocity (se_state s') = es_velocity (se_state s)"
      "es_last_sequence (se_state s') = es_last_sequence (se_state s)"
    by (simp_all add: s')
qed

lemma integrate_entities_total:
  "\<lbrakk>\<And>p. p \<in> set es \<Longrightarrow> stored_ok l (snd p); world_limits_ok l d\<rbrakk> \<Longrightarrow>
   integrate_entities (us_count d) (mm_count (wl_max_abs_position l)) es = Inl Overflow_error \<or>
   (\<exists>es'. integrate_entities (us_count d) (mm_count (wl_max_abs_position l)) es = Inr es')"
proof (induction es)
  case (Cons p es)
  obtain k s where p: "p = (k, s)" by (cases p)
  then show ?case
    using Cons integrate_entity_total [of l s d] by fastforce
qed simp

lemma integrate_entities_keys:
  "integrate_entities d l es = Inr es' \<Longrightarrow> map fst es' = map fst es"
  by (induction es arbitrary: es') (auto simp: result_simps)

lemma integrate_entities_lookup:
  "integrate_entities d l es = Inr es' \<Longrightarrow> map_of es k = Some s \<Longrightarrow>
   \<exists>s'. map_of es' k = Some s' \<and> integrate_entity d l s = Inr s'"
  by (induction es arbitrary: es') (auto simp: result_simps split: if_splits)

lemma integrate_entities_origin:
  "integrate_entities d l es = Inr es' \<Longrightarrow> (k, s') \<in> set es' \<Longrightarrow>
   \<exists>s. (k, s) \<in> set es \<and> integrate_entity d l s = Inr s'"
  by (induction es arbitrary: es') (fastforce simp: result_simps)+

lemma world_queue_sorted:
  assumes "world_ok w"
  shows "sorted (map vc_target_tick (w_pending_commands w))"
proof -
  have "sorted_wrt command_order (w_pending_commands w)"
    using assms by (simp add: world_ok_def queue_ordered_iff)
  then show ?thesis
    by (auto simp: sorted_wrt_map command_order_def elim!: sorted_wrt_mono_rel [rotated] split: if_splits)
qed

lemma world_distinct_keys: "world_ok w \<Longrightarrow> distinct (map fst (w_entities w))"
  by (simp add: world_ok_def omap_ok_def strict_sorted_iff)

lemma advance_command_loop:
  assumes "world_ok w" and "clock_advance (w_clock w) = Inr (t, c)"
  shows "apply_commands (tick_index t) (w_pending_commands w) (w_entities w) =
    Inr (map (commanded (tick_index t) (w_pending_commands w)) (w_entities w))"
proof (rule apply_commands_eq)
  have t: "tick_index t = clk_tick_index (w_clock w) + 1"
    using assms clock_advance_ok(2,5) [OF _ assms(2)] by (simp add: world_ok_def clock_current_tick_def)
  fix c assume "c \<in> set (w_pending_commands w)"
  then have "command_ok w c"
    using assms(1) by (simp add: world_ok_def list_all_iff)
  then show "tick_index t \<le> vc_target_tick c" "map_of (w_entities w) (vc_entity_id c) \<noteq> None"
    by (auto simp: t command_ok_def inc_le)
qed (use assms(1) in \<open>simp_all add: world_queue_sorted world_distinct_keys\<close>)

lemma entity_ok_commanded:
  assumes "world_ok w" and "p \<in> set (w_entities w)"
  shows "entity_ok w (commanded n (w_pending_commands w) p)"
proof (cases "due_commands n (fst p) (w_pending_commands w) = []")
  case True
  then show ?thesis
    using assms by (simp add: commanded_def world_ok_def list_all_iff)
next
  case False
  let ?c = "last (due_commands n (fst p) (w_pending_commands w))"
  have "?c \<in> set (w_pending_commands w)" and "vc_entity_id ?c = fst p"
    using last_in_set [OF False] by (simp_all add: due_commands_def)
  then have "command_ok w ?c" and "entity_ok w p"
    using assms by (simp_all add: world_ok_def list_all_iff)
  with False \<open>vc_entity_id ?c = fst p\<close> show ?thesis
    by (auto simp: commanded_def fold_execute execute_command_def entity_ok_def command_ok_def
        stored_ok_def velocity_within_def)
qed

lemma last_sequence_commanded:
  assumes "world_ok w" and "c \<in> set (w_pending_commands w)" and "n < vc_target_tick c"
    and "map_of (w_entities w) (vc_entity_id c) = Some s"
  shows "es_last_sequence (se_state (snd (commanded n (w_pending_commands w) (vc_entity_id c, s)))) < vc_sequence c"
proof (cases "due_commands n (vc_entity_id c) (w_pending_commands w) = []")
  case True
  then show ?thesis
    using assms by (auto simp: commanded_def world_ok_def list_all_iff command_ok_def)
next
  case False
  let ?d = "last (due_commands n (vc_entity_id c) (w_pending_commands w))"
  have d: "?d \<in> set (w_pending_commands w)" "vc_entity_id ?d = vc_entity_id c" "vc_target_tick ?d = n"
    using last_in_set [OF False] by (simp_all add: due_commands_def)
  then have "command_order ?d c"
    using assms(3) by (intro command_order_earlier) simp
  moreover have "sequences_follow_order (set (w_pending_commands w))"
    using assms(1) by (simp add: world_ok_def queue_ordered_iff)
  ultimately have "vc_sequence ?d < vc_sequence c"
    using assms(2) d(1,2) unfolding sequences_follow_order_def by blast
  with False show ?thesis
    by (simp add: commanded_def fold_execute execute_command_def)
qed

lemma advance_fails:
  assumes "world_ok w" and "advance w = Inl e"
  shows "e = Overflow_error"
proof (cases "clock_advance (w_clock w)")
  case (Inl e')
  then show ?thesis
    using assms by (auto simp: advance_def world_ok_def clock_advance_cases Let_def split: if_splits)
next
  case (Inr p)
  obtain t c where p: "p = (t, c)" by (cases p)
  have "stored_ok (w_limits w) (snd q)"
    if "q \<in> set (map (commanded (tick_index t) (w_pending_commands w)) (w_entities w))" for q
    using that entity_ok_commanded [OF assms(1)] by (auto simp: entity_ok_def)
  then show ?thesis
    using integrate_entities_total [of "map (commanded (tick_index t) (w_pending_commands w)) (w_entities w)"
        "w_limits w" "tick_duration w"] assms Inr p
    by (auto simp: advance_def advance_command_loop world_ok_def tick_duration_def)
qed

lemma advance_InrE:
  assumes "world_ok w" and "advance w = Inr (t, w')"
  obtains c es where "clock_advance (w_clock w) = Inr (t, c)"
    "tick_index t = clk_tick_index (w_clock w) + 1" "clk_tick_index c = tick_index t"
    "uint (tick_index t) = uint (clk_tick_index (w_clock w)) + 1"
    "integrate_entities (us_count (tick_duration w)) (mm_count (wl_max_abs_position (w_limits w)))
       (map (commanded (tick_index t) (w_pending_commands w)) (w_entities w)) = Inr es"
    "w' = w\<lparr>w_clock := c, w_entities := es, w_pending_commands :=
       filter (\<lambda>c. vc_target_tick c \<noteq> tick_index t) (w_pending_commands w)\<rparr>"
    "clock_ok c" "clk_tick_duration c = clk_tick_duration (w_clock w)"
proof -
  obtain c where c: "clock_advance (w_clock w) = Inr (t, c)"
    using assms(2) by (auto simp: advance_def result_simps)
  have "clock_ok (w_clock w)"
    using assms(1) by (simp add: world_ok_def)
  note clk = clock_advance_ok [OF this c]
  obtain es where es: "integrate_entities (us_count (tick_duration w)) (mm_count (wl_max_abs_position (w_limits w)))
       (map (commanded (tick_index t) (w_pending_commands w)) (w_entities w)) = Inr es"
    and w': "w' = w\<lparr>w_clock := c, w_entities := es, w_pending_commands :=
       filter (\<lambda>c. vc_target_tick c \<noteq> tick_index t) (w_pending_commands w)\<rparr>"
    using assms(2) c advance_command_loop [OF assms(1) c] by (auto simp: advance_def result_simps)
  have "tick_index t = clk_tick_index c"
    using clk(5) by (simp add: clock_current_tick_def)
  then show thesis
    using that [OF c _ _ _ es w'] clk by simp
qed

lemma advance_ok:
  assumes "world_ok w" and "advance w = Inr (t, w')"
  shows "world_ok w'"
proof -
  let ?es = "map (commanded (tick_index t) (w_pending_commands w)) (w_entities w)"
  from assms obtain c es where clk: "tick_index t = clk_tick_index (w_clock w) + 1"
      "clk_tick_index c = tick_index t" "clock_ok c" "clk_tick_duration c = clk_tick_duration (w_clock w)"
      "uint (tick_index t) = uint (clk_tick_index (w_clock w)) + 1"
    and es: "integrate_entities (us_count (tick_duration w)) (mm_count (wl_max_abs_position (w_limits w))) ?es = Inr es"
    and w': "w' = w\<lparr>w_clock := c, w_entities := es, w_pending_commands :=
       filter (\<lambda>c. vc_target_tick c \<noteq> tick_index t) (w_pending_commands w)\<rparr>"
    by (rule advance_InrE)
  have lim: "world_limits_ok (w_limits w) (tick_duration w)"
    using assms(1) by (simp add: world_ok_def tick_duration_def)
  have keys: "map fst es = map fst (w_entities w)"
    using integrate_entities_keys [OF es] by (simp add: comp_def commanded_def)
  have "entity_ok w' p" if "p \<in> set es" for p
  proof -
    obtain k s' where p: "p = (k, s')" by (cases p)
    obtain s where s: "(k, s) \<in> set ?es"
        "integrate_entity (us_count (tick_duration w)) (mm_count (wl_max_abs_position (w_limits w))) s = Inr s'"
      using integrate_entities_origin [OF es] \<open>p \<in> set es\<close> p by blast
    then have "entity_ok w (k, s)"
      using entity_ok_commanded [OF assms(1)] by auto
    then show ?thesis
      using integrate_entity_ok [OF _ lim s(2)] by (simp add: p w' entity_ok_def)
  qed
  moreover have "command_ok w' d" if d: "d \<in> set (w_pending_commands w')" for d
  proof -
    have in_w: "d \<in> set (w_pending_commands w)" and ne: "vc_target_tick d \<noteq> tick_index t" and "command_ok w d"
      using d assms(1) by (auto simp: w' world_ok_def list_all_iff)
    then obtain s where s: "map_of (w_entities w) (vc_entity_id d) = Some s" and "clk_tick_index (w_clock w) < vc_target_tick d"
      by (auto simp: command_ok_def)
    then have later: "tick_index t < vc_target_tick d"
      using ne inc_le [of "clk_tick_index (w_clock w)" "vc_target_tick d"] by (simp add: clk)
    have "map_of ?es (vc_entity_id d) = Some (snd (commanded (tick_index t) (w_pending_commands w) (vc_entity_id d, s)))"
      using s by (simp add: map_of_commanded)
    then obtain s' where s': "map_of es (vc_entity_id d) = Some s'"
        "es_last_sequence (se_state s') = es_last_sequence (se_state (snd (commanded (tick_index t) (w_pending_commands w) (vc_entity_id d, s))))"
      using integrate_entities_lookup [OF es]
      by (fastforce simp: integrate_entity_def result_simps)
    then show ?thesis
      using \<open>command_ok w d\<close> s later last_sequence_commanded [OF assms(1) in_w later s]
      by (auto simp: command_ok_def w' clk)
  qed
  ultimately show ?thesis
    using assms(1) keys clk(3,4)
    by (simp add: world_ok_def w' list_all_iff omap_ok_def queue_ordered_filter)
qed

end
