(* ===== verification/World_Runs.thy ===== *)
theory World_Runs
  imports World_Correct
begin

text \<open>
  The simulation as a state machine and the properties of its runs: definedness of every
  operation in reachable worlds, the invariant, exact and drift-free motion, and independence
  of the order in which commands were queued. The last section has a concrete world on which
  the properties are applied.
\<close>

section \<open>Reachable worlds\<close>

text \<open>
  The world as a state machine: it starts from a successful constructor call, and a step is
  one call that returned normally. A call that throws leaves the world as it was.
\<close>

definition world_init :: "World \<Rightarrow> bool" where
  "world_init w \<longleftrightarrow> (\<exists>d l. make_world d l = Inr w)"

inductive world_step :: "World \<Rightarrow> World \<Rightarrow> bool" where
  step_add: "add_entity w e = Inr (r, w') \<Longrightarrow> world_step w w'"
| step_queue: "queue_velocity w c = Inr (q, w') \<Longrightarrow> world_step w w'"
| step_advance: "advance w = Inr (t, w') \<Longrightarrow> world_step w w'"

interpretation simulation: system_invariant world_init world_step world_ok
  by unfold_locales
     (auto simp: world_init_def elim!: world_step.cases
       intro: make_world_ok add_entity_ok queue_velocity_ok advance_ok)

lemma add_entity_total: "world_ok w \<Longrightarrow> \<exists>r w'. add_entity w e = Inr (r, w')"
  by (simp add: add_entity_def Let_def)

section \<open>Repeated operations\<close>

text \<open>A sequence of ticks, stopping at the first exception.\<close>

fun advance_n :: "nat \<Rightarrow> World \<Rightarrow> World result" where
  "advance_n 0 w = Inr w"
| "advance_n (Suc n) w = bind_result (advance w) (\<lambda>(t, w'). advance_n n w')"

text \<open>A sequence of commands, every one of which the world accepts.\<close>

fun queue_all :: "World \<Rightarrow> VelocityCommand list \<Rightarrow> World option" where
  "queue_all w [] = Some w"
| "queue_all w (c # cs) =
     (case queue_velocity w c of
        Inr (Queue_accepted, w') \<Rightarrow> queue_all w' cs
      | _ \<Rightarrow> None)"

lemma queue_all_Cons:
  "queue_all w (c # cs) = Some w' \<longleftrightarrow>
     (\<exists>w1. queue_velocity w c = Inr (Queue_accepted, w1) \<and> queue_all w1 cs = Some w')"
  by (auto split: sum.splits prod.splits QueueCommandResult.splits)

text \<open>
  What a run of accepted commands leaves behind is a function of the commands as a
  multiset: per entity the largest sequence and the largest target tick.
\<close>

definition recorded :: "(VelocityCommand \<Rightarrow> u64) \<Rightarrow> VelocityCommand set \<Rightarrow> (EntityId \<rightharpoonup> u64) \<Rightarrow> EntityId \<rightharpoonup> u64" where
  "recorded f S m k =
     (if {c \<in> S. vc_entity_id c = k} = {} then m k
      else Some (Max (f ` {c \<in> S. vc_entity_id c = k})))"

lemma recorded_step:
  assumes "finite S"
    and "\<And>d. d \<in> S \<Longrightarrow> vc_entity_id d = vc_entity_id c \<Longrightarrow> f c \<le> f d"
  shows "recorded f S (m(vc_entity_id c \<mapsto> f c)) = recorded f (insert c S) m"
proof
  fix k
  let ?A = "{d \<in> S. vc_entity_id d = k}"
  have A: "{d \<in> insert c S. vc_entity_id d = k} = (if vc_entity_id c = k then insert c ?A else ?A)"
    by auto
  show "recorded f S (m(vc_entity_id c \<mapsto> f c)) k = recorded f (insert c S) m k"
  proof (cases "vc_entity_id c = k \<and> ?A \<noteq> {}")
    case True
    then obtain d where d: "d \<in> ?A" by blast
    have "f c \<le> f d" using assms(2) [of d] d True by simp
    also have "f d \<le> Max (f ` ?A)" using d assms(1) by (intro Max_ge) auto
    finally have "Max (f ` insert c ?A) = Max (f ` ?A)"
      using assms(1) True by (simp add: max_def)
    with True show ?thesis
      unfolding recorded_def A by auto
  next
    case False
    then consider "vc_entity_id c \<noteq> k" | "vc_entity_id c = k" "?A = {}" by blast
    then show ?thesis
    proof cases
      case 1
      then show ?thesis unfolding recorded_def A by auto
    next
      case 2
      then show ?thesis
        by (simp only: recorded_def A if_True if_False simp_thms insert_not_empty fun_upd_same
            image_insert image_empty Max_singleton)
    qed
  qed
qed

lemma queue_all_frame:
  assumes "world_ok w" and "queue_all w cs = Some w'"
  shows "world_ok w' \<and> w_clock w' = w_clock w \<and> w_limits w' = w_limits w \<and>
    w_entities w' = w_entities w \<and>
    mset (w_pending_commands w') = mset (w_pending_commands w) + mset cs"
  using assms
proof (induction cs arbitrary: w)
  case (Cons c cs)
  then obtain w1 where w1: "queue_velocity w c = Inr (Queue_accepted, w1)" "queue_all w1 cs = Some w'"
    by (auto simp only: queue_all_Cons)
  moreover from this have "world_ok w1"
    using Cons.prems(1) queue_velocity_ok by blast
  ultimately show ?case
    using Cons.IH [of w1] Cons.prems(1) by (auto elim!: queue_velocity_acceptedE)
qed simp

lemma queue_all_records:
  assumes "world_ok w" and "queue_all w cs = Some w'"
  shows "map_of (w_highest_sequence w') = recorded vc_sequence (set cs) (map_of (w_highest_sequence w)) \<and>
    map_of (w_latest_target_tick w') = recorded vc_target_tick (set cs) (map_of (w_latest_target_tick w)) \<and>
    (\<forall>c \<in> set cs. \<exists>h l. map_of (w_highest_sequence w) (vc_entity_id c) = Some h \<and> h \<le> vc_sequence c \<and>
       map_of (w_latest_target_tick w) (vc_entity_id c) = Some l \<and> l \<le> vc_target_tick c)"
  using assms
proof (induction cs arbitrary: w)
  case Nil
  then show ?case by (simp add: recorded_def fun_eq_iff)
next
  case (Cons c cs)
  then obtain w1 where w1: "queue_velocity w c = Inr (Queue_accepted, w1)" "queue_all w1 cs = Some w'"
    by (auto simp only: queue_all_Cons)
  with Cons.prems(1) obtain h l where
    old: "map_of (w_highest_sequence w) (vc_entity_id c) = Some h" "h < vc_sequence c"
      "map_of (w_latest_target_tick w) (vc_entity_id c) = Some l" "l \<le> vc_target_tick c"
    and new: "map_of (w_highest_sequence w1) = (map_of (w_highest_sequence w))(vc_entity_id c \<mapsto> vc_sequence c)"
      "map_of (w_latest_target_tick w1) = (map_of (w_latest_target_tick w))(vc_entity_id c \<mapsto> vc_target_tick c)"
    by (auto elim!: queue_velocity_acceptedE)
  have IH: "map_of (w_highest_sequence w') = recorded vc_sequence (set cs) (map_of (w_highest_sequence w1))"
      "map_of (w_latest_target_tick w') = recorded vc_target_tick (set cs) (map_of (w_latest_target_tick w1))"
      "\<forall>d \<in> set cs. \<exists>h l. map_of (w_highest_sequence w1) (vc_entity_id d) = Some h \<and> h \<le> vc_sequence d \<and>
         map_of (w_latest_target_tick w1) (vc_entity_id d) = Some l \<and> l \<le> vc_target_tick d"
    using Cons.IH [OF queue_velocity_ok [OF Cons.prems(1) w1(1)] w1(2)] by auto
  then have above: "vc_sequence c \<le> vc_sequence d" "vc_target_tick c \<le> vc_target_tick d"
    if "d \<in> set cs" "vc_entity_id d = vc_entity_id c" for d
    using that by (auto simp: new)
  have guards: "\<exists>h l. map_of (w_highest_sequence w) (vc_entity_id d) = Some h \<and> h \<le> vc_sequence d \<and>
       map_of (w_latest_target_tick w) (vc_entity_id d) = Some l \<and> l \<le> vc_target_tick d"
    if "d \<in> set (c # cs)" for d
  proof (cases "vc_entity_id d = vc_entity_id c")
    case True
    then show ?thesis
      using that above [of d] old by (auto intro: order_trans less_imp_le)
  next
    case False
    then show ?thesis
      using that IH(3) by (auto simp: new)
  qed
  show ?case
    using IH(1,2) guards above
    by (simp add: new recorded_step)
qed

lemma world_eqI:
  assumes "w_clock w = w_clock (w' :: World)" "w_limits w = w_limits w'" "w_entities w = w_entities w'"
    "w_highest_sequence w = w_highest_sequence w'" "w_latest_target_tick w = w_latest_target_tick w'"
    "w_pending_commands w = w_pending_commands w'"
  shows "w = w'"
  using assms by simp

section \<open>Properties\<close>

text \<open>C2: In every world the program can reach, admitting an entity and queueing a command
  always return normally, and a tick either succeeds or throws \<open>std::overflow_error\<close>: signed
  overflow, a missing map key and the internal \<open>std::logic_error\<close> for a stale pending command
  are impossible.\<close>

theorem world_operations_defined:
  assumes "reachable world_init world_step w"
  shows "(\<exists>r w'. add_entity w e = Inr (r, w')) \<and>
    (\<exists>r w'. queue_velocity w c = Inr (r, w')) \<and>
    (\<forall>err. advance w = Inl err \<longrightarrow> err = Overflow_error)"
  using simulation.inv_reachable [OF assms] add_entity_total queue_velocity_total advance_fails
  by blast

text \<open>C14: In every reachable world the elapsed time is the tick index times the tick duration,
  every entity is inside the configured limits with a residual below one millimetre, and the
  queue holds only future, in-limit commands of known entities, strictly ordered by target tick,
  entity and sequence.\<close>

theorem reachable_world_invariant:
  assumes "reachable world_init world_step w"
  shows "sint (us_count (clk_elapsed (w_clock w))) =
      uint (clk_tick_index (w_clock w)) * sint (us_count (tick_duration w)) \<and>
    (\<forall>(k, s) \<in> set (w_entities w). es_id (se_state s) = k \<and> stored_ok (w_limits w) s) \<and>
    (\<forall>c \<in> set (w_pending_commands w). tick_index (current_tick w) < vc_target_tick c \<and>
       velocity_within (w_limits w) (vc_velocity c) \<and> entity w (vc_entity_id c) \<noteq> None) \<and>
    sorted_wrt command_order (w_pending_commands w)"
proof -
  have ok: "world_ok w"
    using assms by (rule simulation.inv_reachable)
  then have "command_ok w c" if "c \<in> set (w_pending_commands w)" for c
    using that by (simp add: world_ok_def list_all_iff)
  then show ?thesis
    using ok by (fastforce simp: world_ok_def clock_ok_def tick_duration_def list_all_iff entity_ok_def
        queue_ordered_iff command_ok_def entity_def current_tick_def clock_current_tick_def)
qed

definition axis_state :: "StoredEntity \<Rightarrow> int \<times> int" where
  "axis_state s =
     (scaled_position (mm_count (p_x (es_position (se_state s)))) (se_residual_x s),
      scaled_position (mm_count (p_y (es_position (se_state s)))) (se_residual_y s))"

definition axis_velocity :: "Velocity2 \<Rightarrow> int \<times> int" where
  "axis_velocity v = (sint (mmps_count (v_x v)), sint (mmps_count (v_y v)))"

lemma integrate_entity_exact:
  assumes "stored_ok l s" and "world_limits_ok l d"
    and "integrate_entity (us_count d) (mm_count (wl_max_abs_position l)) s = Inr s'"
  shows "fst (axis_state s') = fst (axis_state s) + fst (axis_velocity (es_velocity (se_state s))) * sint (us_count d)"
    and "snd (axis_state s') = snd (axis_state s) + snd (axis_velocity (es_velocity (se_state s))) * sint (us_count d)"
proof -
  from assms(3) obtain ax ay where
    x: "integrate_axis (mm_count (p_x (es_position (se_state s)))) (mmps_count (v_x (es_velocity (se_state s))))
      (se_residual_x s) (us_count d) (mm_count (wl_max_abs_position l)) = Inr ax"
    and y: "integrate_axis (mm_count (p_y (es_position (se_state s)))) (mmps_count (v_y (es_velocity (se_state s))))
      (se_residual_y s) (us_count d) (mm_count (wl_max_abs_position l)) = Inr ay"
    and s': "axis_state s' = (scaled_position (ai_position ax) (ai_residual ax),
      scaled_position (ai_position ay) (ai_residual ay))"
    by (auto simp: integrate_entity_def result_simps axis_state_def)
  have safe: "integration_safe (mmps_count (wl_max_abs_velocity l)) (us_count d)"
    and pos: "0 < sint (mm_count (wl_max_abs_position l))"
    using assms(2) by (simp_all add: world_limits_ok_def)
  show "fst (axis_state s') = fst (axis_state s) + fst (axis_velocity (es_velocity (se_state s))) * sint (us_count d)"
    and "snd (axis_state s') = snd (axis_state s) + snd (axis_velocity (es_velocity (se_state s))) * sint (us_count d)"
    unfolding s'
    using integrate_axis_exact(1) [OF safe _ _ pos x] integrate_axis_exact(1) [OF safe _ _ pos y] assms(1)
    by (simp_all add: axis_state_def axis_velocity_def stored_ok_def)
qed

lemma advance_entity:
  assumes "world_ok w" and "advance w = Inr (t, w')" and "map_of (w_entities w) k = Some s"
  defines "due \<equiv> due_commands (tick_index t) k (w_pending_commands w)"
  shows "\<exists>s'. map_of (w_entities w') k = Some s' \<and>
    es_velocity (se_state s') = (if due = [] then es_velocity (se_state s) else vc_velocity (last due)) \<and>
    fst (axis_state s') = fst (axis_state s) + fst (axis_velocity (es_velocity (se_state s'))) * sint (us_count (tick_duration w)) \<and>
    snd (axis_state s') = snd (axis_state s) + snd (axis_velocity (es_velocity (se_state s'))) * sint (us_count (tick_duration w))"
proof -
  let ?p = "commanded (tick_index t) (w_pending_commands w) (k, s)"
  from assms(1,2) obtain c es where
    es: "integrate_entities (us_count (tick_duration w)) (mm_count (wl_max_abs_position (w_limits w)))
       (map (commanded (tick_index t) (w_pending_commands w)) (w_entities w)) = Inr es"
    and w': "w_entities w' = es"
    by (auto elim!: advance_InrE)
  have "map_of (map (commanded (tick_index t) (w_pending_commands w)) (w_entities w)) k = Some (snd ?p)"
    using assms(3) by (simp add: map_of_commanded)
  from integrate_entities_lookup [OF es this] obtain s' where
    s': "map_of es k = Some s'"
      "integrate_entity (us_count (tick_duration w)) (mm_count (wl_max_abs_position (w_limits w))) (snd ?p) = Inr s'"
    by blast
  have ok: "stored_ok (w_limits w) (snd ?p)" and lim: "world_limits_ok (w_limits w) (tick_duration w)"
    using entity_ok_commanded [OF assms(1) map_of_SomeD [OF assms(3)]] assms(1)
    by (simp_all add: entity_ok_def world_ok_def tick_duration_def)
  have "axis_state (snd ?p) = axis_state s"
    "es_velocity (se_state (snd ?p)) = (if due = [] then es_velocity (se_state s) else vc_velocity (last due))"
    by (simp_all add: commanded_def fold_execute due_def execute_command_def axis_state_def)
  then show ?thesis
    using s'(1) w' integrate_entity_exact [OF ok lim s'(2)] integrate_entity_ok(3) [OF ok lim s'(2)] by simp
qed

text \<open>C10: A tick is exact. Every entity takes the velocity of its last due command (or keeps its
  own) and moves, position and sub-millimetre residual together, by exactly that velocity times
  the tick duration on both axes.\<close>

theorem advance_is_exact:
  assumes "reachable world_init world_step w" and "advance w = Inr (t, w')"
    and "map_of (w_entities w) k = Some s"
  shows "\<exists>s'. map_of (w_entities w') k = Some s' \<and>
    es_velocity (se_state s') =
      (let due = due_commands (tick_index t) k (w_pending_commands w)
       in if due = [] then es_velocity (se_state s) else vc_velocity (last due)) \<and>
    fst (axis_state s') = fst (axis_state s) +
      fst (axis_velocity (es_velocity (se_state s'))) * sint (us_count (tick_duration w)) \<and>
    snd (axis_state s') = snd (axis_state s) +
      snd (axis_velocity (es_velocity (se_state s'))) * sint (us_count (tick_duration w))"
  using advance_entity [OF simulation.inv_reachable [OF assms(1)] assms(2,3)] by (simp add: Let_def)

lemma advance_idle:
  assumes "world_ok w" and "advance w = Inr (t, w')" and "w_pending_commands w = []"
  shows "w_pending_commands w' = []" and "tick_duration w' = tick_duration w"
  using assms by (auto elim!: advance_InrE simp: tick_duration_def)

lemma advance_n_ok:
  "world_ok w \<Longrightarrow> advance_n n w = Inr w' \<Longrightarrow> world_ok w'"
  by (induction n arbitrary: w) (auto simp: result_simps dest: advance_ok)

text \<open>C23: No truncation drift. With an empty queue, \<open>n\<close> ticks move every entity by exactly
  \<open>n\<close> times its velocity times the tick duration, in millionths of a millimetre.\<close>

theorem no_drift:
  assumes "reachable world_init world_step w" and "w_pending_commands w = []"
    and "advance_n n w = Inr w'" and "map_of (w_entities w) k = Some s"
  shows "\<exists>s'. map_of (w_entities w') k = Some s' \<and>
    es_velocity (se_state s') = es_velocity (se_state s) \<and>
    fst (axis_state s') = fst (axis_state s) +
      int n * (fst (axis_velocity (es_velocity (se_state s))) * sint (us_count (tick_duration w))) \<and>
    snd (axis_state s') = snd (axis_state s) +
      int n * (snd (axis_velocity (es_velocity (se_state s))) * sint (us_count (tick_duration w)))"
proof -
  have "world_ok w"
    using assms(1) by (rule simulation.inv_reachable)
  then show ?thesis
    using assms(2-4)
  proof (induction n arbitrary: w s)
    case 0
    then show ?case by simp
  next
    case (Suc n)
    then obtain t w1 where w1: "advance w = Inr (t, w1)" "advance_n n w1 = Inr w'"
      by (auto simp: result_simps)
    obtain s1 where s1: "map_of (w_entities w1) k = Some s1"
      "es_velocity (se_state s1) = es_velocity (se_state s)"
      "fst (axis_state s1) = fst (axis_state s) + fst (axis_velocity (es_velocity (se_state s))) * sint (us_count (tick_duration w))"
      "snd (axis_state s1) = snd (axis_state s) + snd (axis_velocity (es_velocity (se_state s))) * sint (us_count (tick_duration w))"
      using advance_entity [OF Suc.prems(1) w1(1) Suc.prems(4)] Suc.prems(2) by (auto simp: due_commands_def)
    note idle = advance_idle [OF Suc.prems(1) w1(1) Suc.prems(2)]
    show ?case
      using Suc.IH [OF advance_ok [OF Suc.prems(1) w1(1)] idle(1) w1(2) s1(1)] s1 idle(2)
      by (auto simp: algebra_simps)
  qed
qed

text \<open>C18: The order in which accepted commands arrived is not observable: two queueing histories of
  the same commands, in any order the world accepts, end in the same world.\<close>

theorem queue_order_independent:
  assumes "reachable world_init world_step w" and "queue_all w cs = Some w1"
    and "queue_all w cs' = Some w2" and "mset cs = mset cs'"
  shows "w1 = w2"
proof -
  have ok: "world_ok w"
    using assms(1) by (rule simulation.inv_reachable)
  note f1 = queue_all_frame [OF ok assms(2)] and f2 = queue_all_frame [OF ok assms(3)]
  note r1 = queue_all_records [OF ok assms(2)] and r2 = queue_all_records [OF ok assms(3)]
  have same: "set cs = set cs'"
    using assms(4) by (rule mset_eq_setD)
  show ?thesis
  proof (rule world_eqI)
    show "w_pending_commands w1 = w_pending_commands w2"
      using f1 f2 assms(4) sort_commands_unique [of "w_pending_commands w1" "w_pending_commands w2"]
        sort_commands_unique [of "w_pending_commands w2" "w_pending_commands w2"]
      by (simp add: world_ok_def queue_ordered_iff)
    show "w_highest_sequence w1 = w_highest_sequence w2"
      using f1 f2 r1 r2 by (intro omap.extensional world_keys(1)) (simp_all add: same)
    show "w_latest_target_tick w1 = w_latest_target_tick w2"
      using f1 f2 r1 r2 by (intro omap.extensional world_keys(2)) (simp_all add: same)
  qed (use f1 f2 in simp_all)
qed

section \<open>A concrete world\<close>

text \<open>
  The scenario of the simulation documentation: a tick of 100 ms and an entity that moves at
  one millimetre per second.
\<close>

definition demo_velocity :: Velocity2 where
  "demo_velocity = \<lparr>v_x = MillimetersPerSecond 1, v_y = MillimetersPerSecond 0\<rparr>"

definition demo_entity :: EntityState where
  "demo_entity = \<lparr>es_id = EntityId 7, es_position = \<lparr>p_x = Millimeters 0, p_y = Millimeters 0\<rparr>,
     es_velocity = demo_velocity, es_last_sequence = 0\<rparr>"

definition demo_stored :: StoredEntity where
  "demo_stored = \<lparr>se_state = demo_entity, se_residual_x = 0, se_residual_y = 0\<rparr>"

definition demo_empty :: World where
  "demo_empty = \<lparr>w_clock = \<lparr>clk_tick_duration = Microseconds 100000, clk_tick_index = 0,
       clk_elapsed = Microseconds 0\<rparr>,
     w_limits = default_limits, w_entities = [], w_highest_sequence = [],
     w_latest_target_tick = [], w_pending_commands = []\<rparr>"

definition demo_world :: World where
  "demo_world = demo_empty\<lparr>w_entities := [(EntityId 7, demo_stored)],
     w_highest_sequence := [(EntityId 7, 0)], w_latest_target_tick := [(EntityId 7, 0)]\<rparr>"

definition demo_command :: "u64 \<Rightarrow> u64 \<Rightarrow> u64 \<Rightarrow> VelocityCommand" where
  "demo_command key target sequence = \<lparr>vc_target_tick = target, vc_entity_id = EntityId key,
     vc_sequence = sequence,
     vc_velocity = \<lparr>v_x = MillimetersPerSecond 3, v_y = MillimetersPerSecond (- 2)\<rparr>\<rparr>"

definition demo_pair :: World where
  "demo_pair = demo_world\<lparr>w_entities := [(EntityId 7, demo_stored),
       (EntityId 9, demo_stored\<lparr>se_state := demo_entity\<lparr>es_id := EntityId 9\<rparr>\<rparr>)],
     w_highest_sequence := [(EntityId 7, 0), (EntityId 9, 0)],
     w_latest_target_tick := [(EntityId 7, 0), (EntityId 9, 0)]\<rparr>"

definition demo_queued :: World where
  "demo_queued = demo_world\<lparr>w_highest_sequence := [(EntityId 7, 5)],
     w_latest_target_tick := [(EntityId 7, 1)],
     w_pending_commands := [demo_command 7 1 5]\<rparr>"

lemmas demo_defs = demo_velocity_def demo_entity_def demo_stored_def demo_empty_def
  demo_world_def demo_command_def demo_pair_def demo_queued_def default_limits_def

lemma demo_empty_made: "make_world (Microseconds 100000) default_limits = Inr demo_empty"
  by (simp add: make_world_def make_clock_def demo_defs trunc_div_def Microseconds_zero_def)

lemma demo_world_added: "add_entity demo_empty demo_entity = Inr (Add_added, demo_world)"
  by code_simp

lemma demo_pair_added:
  "add_entity demo_world (demo_entity\<lparr>es_id := EntityId 9\<rparr>) = Inr (Add_added, demo_pair)"
  by code_simp

lemma demo_world_queued: "queue_velocity demo_world (demo_command 7 1 5) = Inr (Queue_accepted, demo_queued)"
  by code_simp

lemma demo_empty_reachable: "reachable world_init world_step demo_empty"
  using demo_empty_made by (intro reachable_init) (auto simp: world_init_def)

lemma demo_world_reachable: "reachable world_init world_step demo_world"
  using demo_empty_reachable step_add [OF demo_world_added] by (rule reachable_step)

lemma demo_pair_reachable: "reachable world_init world_step demo_pair"
  using demo_world_reachable step_add [OF demo_pair_added] by (rule reachable_step)

lemma demo_queued_reachable: "reachable world_init world_step demo_queued"
  using demo_world_reachable step_queue [OF demo_world_queued] by (rule reachable_step)

lemma demo_tick: "\<exists>t w'. advance demo_queued = Inr (t, w') \<and> tick_index t = 1"
proof -
  have "case_sum (\<lambda>e. False) (\<lambda>(t, w). tick_index t = 1) (advance demo_queued)"
    by code_simp
  then show ?thesis
    by (auto split: sum.splits)
qed

lemma demo_ten_ticks: "\<exists>w'. advance_n 10 demo_world = Inr w'"
proof -
  have "case_sum (\<lambda>e. False) (\<lambda>w. True) (advance_n 10 demo_world)"
    by code_simp
  then show ?thesis
    by (auto split: sum.splits)
qed

theorem world_operations_defined_witness:
  "reachable world_init world_step demo_queued \<and>
   (\<exists>r w'. add_entity demo_queued demo_entity = Inr (r, w')) \<and>
   (\<exists>r w'. queue_velocity demo_queued (demo_command 7 1 5) = Inr (r, w')) \<and>
   advance demo_queued \<noteq> Inl Signed_overflow"
  using world_operations_defined [OF demo_queued_reachable] demo_queued_reachable by blast

theorem reachable_world_invariant_witness:
  "reachable world_init world_step demo_queued \<and>
   tick_index (current_tick demo_queued) < vc_target_tick (demo_command 7 1 5) \<and>
   sorted_wrt command_order (w_pending_commands demo_queued)"
  using reachable_world_invariant [OF demo_queued_reachable] demo_queued_reachable
  by (simp add: demo_queued_def)

theorem advance_is_exact_witness:
  "\<exists>t w' s'. advance demo_queued = Inr (t, w') \<and> map_of (w_entities w') (EntityId 7) = Some s' \<and>
     axis_state s' = (300000, - 200000)"
proof -
  obtain t w' where t: "advance demo_queued = Inr (t, w')" "tick_index t = 1"
    using demo_tick by blast
  have "map_of (w_entities demo_queued) (EntityId 7) = Some demo_stored"
    by (simp add: demo_defs)
  from advance_is_exact [OF demo_queued_reachable t(1) this] obtain s' where
    "map_of (w_entities w') (EntityId 7) = Some s'" "axis_state s' = (300000, - 200000)"
    by (auto simp: t(2) due_commands_def axis_velocity_def axis_state_def tick_duration_def demo_defs)
  with t show ?thesis by blast
qed

theorem no_drift_witness:
  "\<exists>w' s'. advance_n 10 demo_world = Inr w' \<and> map_of (w_entities w') (EntityId 7) = Some s' \<and>
     fst (axis_state s') = microseconds_per_second"
proof -
  obtain w' where w': "advance_n 10 demo_world = Inr w'"
    using demo_ten_ticks by blast
  have "w_pending_commands demo_world = []" "map_of (w_entities demo_world) (EntityId 7) = Some demo_stored"
    by (simp_all add: demo_defs)
  from no_drift [OF demo_world_reachable this(1) w' this(2)] w' show ?thesis
    by (auto simp: axis_velocity_def axis_state_def tick_duration_def demo_defs)
qed

theorem queue_order_independent_witness:
  "queue_all demo_pair [demo_command 7 1 1, demo_command 9 1 1] \<noteq> None \<and>
   queue_all demo_pair [demo_command 7 1 1, demo_command 9 1 1] =
   queue_all demo_pair [demo_command 9 1 1, demo_command 7 1 1]"
proof -
  have "queue_all demo_pair [demo_command 7 1 1, demo_command 9 1 1] \<noteq> None"
    "queue_all demo_pair [demo_command 9 1 1, demo_command 7 1 1] \<noteq> None"
    by code_simp+
  then obtain w1 w2 where "queue_all demo_pair [demo_command 7 1 1, demo_command 9 1 1] = Some w1"
    "queue_all demo_pair [demo_command 9 1 1, demo_command 7 1 1] = Some w2"
    by blast
  with queue_order_independent [OF demo_pair_reachable this] show ?thesis
    by simp
qed

end
