(* ===== verification/Canonical_State.thy ===== *)
theory Canonical_State
  imports Bytes World_Runs
begin

text \<open>
  The canonical encoding of a world (\<open>simulation/canonical_state.cpp\<close>) and its FNV-1a
  fingerprint (\<open>simulation/state_fingerprint.cpp\<close>). The encoding is total and injective on
  reachable worlds, so comparing encodings is comparing worlds; the fingerprint is not
  collision free, but no change of a single byte escapes it.
\<close>

section \<open>Encoding\<close>

abbreviation canonical_state_schema_version :: u16 where
  "canonical_state_schema_version \<equiv> 1"

definition append_u16 :: "bytes \<Rightarrow> u16 \<Rightarrow> bytes" where
  "append_u16 output value = output @ [byte_at value 8] @ [byte_at value 0]"

definition append_u64 :: "bytes \<Rightarrow> u64 \<Rightarrow> bytes" where
  "append_u64 output value =
     foldl (\<lambda>out shift. out @ [byte_at value shift]) output [56, 48, 40, 32, 24, 16, 8, 0]"

definition append_i64 :: "bytes \<Rightarrow> i64 \<Rightarrow> bytes" where
  "append_i64 output value = append_u64 output value"

definition checked_size :: "nat \<Rightarrow> u64 result" where
  "checked_size value = (if \<not> value < u64_limit then Inl Overflow_error else Inr (of_nat value))"

definition state_magic :: bytes where
  "state_magic = [0x54, 0x4c, 0x57, 0x53]"

fun encode_entities :: "World \<Rightarrow> bytes \<Rightarrow> (EntityId, StoredEntity) omap \<Rightarrow> bytes result" where
  "encode_entities world output [] = Inr output"
| "encode_entities world output ((entity_id, stored) # rest) =
     (let output = append_u64 output (eid_value entity_id);
          output = append_i64 output (mm_count (p_x (es_position (se_state stored))));
          output = append_i64 output (mm_count (p_y (es_position (se_state stored))));
          output = append_i64 output (mmps_count (v_x (es_velocity (se_state stored))));
          output = append_i64 output (mmps_count (v_y (es_velocity (se_state stored))));
          output = append_u64 output (es_last_sequence (se_state stored));
          output = append_i64 output (se_residual_x stored);
          output = append_i64 output (se_residual_y stored)
      in bind_result (omap_at (w_highest_sequence world) entity_id) (\<lambda>highest.
         let output = append_u64 output highest
         in bind_result (omap_at (w_latest_target_tick world) entity_id) (\<lambda>latest.
            encode_entities world (append_u64 output latest) rest)))"

definition encode_command :: "bytes \<Rightarrow> VelocityCommand \<Rightarrow> bytes" where
  "encode_command output command =
     (let output = append_u64 output (vc_target_tick command);
          output = append_u64 output (eid_value (vc_entity_id command));
          output = append_u64 output (vc_sequence command);
          output = append_i64 output (mmps_count (v_x (vc_velocity command)))
      in append_i64 output (mmps_count (v_y (vc_velocity command))))"

definition encode_world_state :: "World \<Rightarrow> bytes result" where
  "encode_world_state world =
     (let output = [] @ state_magic;
          output = append_u16 output canonical_state_schema_version;
          output = append_u16 output 0;
          tick = clock_current_tick (w_clock world);
          output = append_u64 output (tick_index tick);
          output = append_i64 output (us_count (tick_elapsed tick));
          output = append_i64 output (us_count (clk_tick_duration (w_clock world)));
          output = append_i64 output (mm_count (wl_max_abs_position (w_limits world)));
          output = append_i64 output (mmps_count (wl_max_abs_velocity (w_limits world)))
      in bind_result (checked_size (length (w_entities world))) (\<lambda>entity_total.
         bind_result (encode_entities world (append_u64 output entity_total) (w_entities world)) (\<lambda>output.
         bind_result (checked_size (length (w_pending_commands world))) (\<lambda>pending_total.
         Inr (foldl encode_command (append_u64 output pending_total) (w_pending_commands world))))))"

section \<open>Fingerprint\<close>

datatype StateFingerprint = StateFingerprint (fp_value: u64)

abbreviation fnv_offset_basis :: u64 where
  "fnv_offset_basis \<equiv> 14695981039346656037"

abbreviation fnv_prime :: u64 where
  "fnv_prime \<equiv> 1099511628211"

definition fnv_step :: "u64 \<Rightarrow> u8 \<Rightarrow> u64" where
  "fnv_step hash byte = (hash XOR ucast byte) * fnv_prime"

definition fingerprint_bytes :: "bytes \<Rightarrow> StateFingerprint" where
  "fingerprint_bytes bytes = StateFingerprint (foldl fnv_step fnv_offset_basis bytes)"

definition fingerprint_world_state :: "World \<Rightarrow> StateFingerprint result" where
  "fingerprint_world_state world =
     bind_result (encode_world_state world) (\<lambda>bytes. Inr (fingerprint_bytes bytes))"

text \<open>
  \<open>StateFingerprint::to_hex\<close>: sixteen digits, written from the last position backwards.
\<close>

definition to_hex_step :: "string \<times> u64 \<Rightarrow> nat \<Rightarrow> string \<times> u64" where
  "to_hex_step = (\<lambda>(result, remaining) offset.
     (result[length result - 1 - offset := hex_digits ! unat (remaining AND 0x0f)],
      drop_bit 4 remaining))"

definition fingerprint_to_hex :: "StateFingerprint \<Rightarrow> string" where
  "fingerprint_to_hex f =
     fst (foldl to_hex_step (replicate 16 (CHR ''0''), fp_value f) [0..<16])"

section \<open>The encoding as a concatenation of fixed-width fields\<close>

lemma append_be [codec_simps]:
  "append_u16 out a = out @ be16 a" "append_u64 out b = out @ be64 b" "append_i64 out c = out @ be64 c"
  by (simp_all add: append_u16_def append_u64_def append_i64_def be16_def be64_def)

definition entity_fields :: "EntityId \<times> StoredEntity \<Rightarrow> u64 \<Rightarrow> u64 \<Rightarrow> bytes" where
  "entity_fields p highest latest =
     be64 (eid_value (fst p)) @
     be64 (mm_count (p_x (es_position (se_state (snd p))))) @
     be64 (mm_count (p_y (es_position (se_state (snd p))))) @
     be64 (mmps_count (v_x (es_velocity (se_state (snd p))))) @
     be64 (mmps_count (v_y (es_velocity (se_state (snd p))))) @
     be64 (es_last_sequence (se_state (snd p))) @
     be64 (se_residual_x (snd p)) @ be64 (se_residual_y (snd p)) @ be64 highest @ be64 latest"

definition command_fields :: "VelocityCommand \<Rightarrow> bytes" where
  "command_fields c =
     be64 (vc_target_tick c) @ be64 (eid_value (vc_entity_id c)) @ be64 (vc_sequence c) @
     be64 (mmps_count (v_x (vc_velocity c))) @ be64 (mmps_count (v_y (vc_velocity c)))"

definition state_header :: "World \<Rightarrow> bytes" where
  "state_header w =
     state_magic @ be16 canonical_state_schema_version @ be16 0 @
     be64 (clk_tick_index (w_clock w)) @ be64 (us_count (clk_elapsed (w_clock w))) @
     be64 (us_count (clk_tick_duration (w_clock w))) @
     be64 (mm_count (wl_max_abs_position (w_limits w))) @
     be64 (mmps_count (wl_max_abs_velocity (w_limits w)))"

definition entity_row :: "World \<Rightarrow> EntityId \<times> StoredEntity \<Rightarrow> bytes" where
  "entity_row w p = entity_fields p (the (map_of (w_highest_sequence w) (fst p)))
     (the (map_of (w_latest_target_tick w) (fst p)))"

lemma length_rows [simp]:
  "length (entity_row w p) = 80" "length (command_fields c) = 40" "length (state_header w) = 48"
  by (simp_all add: entity_row_def entity_fields_def command_fields_def state_header_def state_magic_def)

lemma encode_entities_eq:
  assumes "\<And>p. p \<in> set es \<Longrightarrow> map_of (w_highest_sequence w) (fst p) \<noteq> None"
    and "\<And>p. p \<in> set es \<Longrightarrow> map_of (w_latest_target_tick w) (fst p) \<noteq> None"
  shows "encode_entities w out es = Inr (out @ concat (map (entity_row w) es))"
  using assms
proof (induction es arbitrary: out)
  case (Cons p es)
  obtain h l where "map_of (w_highest_sequence w) (fst p) = Some h" "map_of (w_latest_target_tick w) (fst p) = Some l"
    using Cons.prems [of p] by auto
  with Cons show ?case
    by (cases p) (simp add: Let_def omap_at_Some append_be entity_row_def entity_fields_def)
qed simp

lemma foldl_encode_command: "foldl encode_command out cs = out @ concat (map command_fields cs)"
  by (induction cs arbitrary: out) (simp_all add: encode_command_def append_be command_fields_def)

lemma encode_world_state_eq:
  assumes "world_ok w"
  shows "encode_world_state w =
    (if entity_count w < u64_limit \<and> pending_command_count w < u64_limit
     then Inr (state_header w @ be64 (of_nat (entity_count w)) @ concat (map (entity_row w) (w_entities w)) @
       be64 (of_nat (pending_command_count w)) @ concat (map command_fields (w_pending_commands w)))
     else Inl Overflow_error)"
proof -
  have "map_of (w_entities w) (fst p) \<noteq> None" if "p \<in> set (w_entities w)" for p
    using that by (auto simp: map_of_eq_None_iff)
  then have "encode_entities w out (w_entities w) = Inr (out @ concat (map (entity_row w) (w_entities w)))" for out
    using world_keys(3,4) [OF assms] by (intro encode_entities_eq) auto
  then show ?thesis
    by (simp add: encode_world_state_def Let_def checked_size_def foldl_encode_command append_be
        state_header_def entity_count_def pending_command_count_def clock_current_tick_def)
qed

section \<open>Injectivity\<close>

lemma length_concat_rows: "(\<And>x. length (f x) = k) \<Longrightarrow> length (concat (map f xs)) = k * length xs"
  by (induction xs) simp_all

lemma concat_rows_eq:
  "length xs = length ys \<Longrightarrow> (\<And>x. length (f x) = k) \<Longrightarrow> (\<And>y. length (g y) = k) \<Longrightarrow>
   concat (map f xs) @ r = concat (map g ys) @ r' \<longleftrightarrow> map f xs = map g ys \<and> r = r'"
proof (induction xs ys rule: list_induct2)
  case (Cons x xs y ys)
  then show ?case by (auto simp: append_eq_append_conv)
qed simp

lemma entity_fields_inject:
  "entity_fields p h l = entity_fields p' h' l' \<Longrightarrow> es_id (se_state (snd p)) = fst p \<Longrightarrow>
   es_id (se_state (snd p')) = fst p' \<Longrightarrow> p = p' \<and> h = h' \<and> l = l'"
  by (cases p; cases p')
     (auto simp: entity_fields_def intro!: StoredEntity.equality EntityState.equality Position2.equality
       Velocity2.equality EntityId.expand Millimeters.expand MillimetersPerSecond.expand)

lemma command_fields_inject [simp]: "command_fields c = command_fields c' \<longleftrightarrow> c = c'"
  by (auto simp: command_fields_def intro!: VelocityCommand.equality Velocity2.equality
      EntityId.expand MillimetersPerSecond.expand)

lemma state_header_inject:
  "state_header w = state_header w' \<Longrightarrow> w_clock w = w_clock w' \<and> w_limits w = w_limits w'"
  by (auto simp: state_header_def intro!: FixedStepClock.equality WorldLimits.equality Microseconds.expand
      Millimeters.expand MillimetersPerSecond.expand)

lemma of_nat_u64_inject: "m < u64_limit \<Longrightarrow> n < u64_limit \<Longrightarrow> of_nat m = (of_nat n :: u64) \<longleftrightarrow> m = n"
  by (simp add: word_unat_eq_iff unsigned_of_nat take_bit_nat_eq_self)

lemma entity_rows_inject:
  assumes "world_ok w" and "world_ok w'"
    and "map (entity_row w) (w_entities w) = map (entity_row w') (w_entities w')"
  shows "w_entities w = w_entities w'" and "w_highest_sequence w = w_highest_sequence w'"
    and "w_latest_target_tick w = w_latest_target_tick w'"
proof -
  have own: "es_id (se_state (snd p)) = fst p" if "p \<in> set (w_entities v)" "world_ok v" for p v
    using that by (simp add: world_ok_def list_all_iff entity_ok_def)
  have len: "length (w_entities w) = length (w_entities w')"
    using assms(3) by (rule map_eq_imp_length_eq)
  have row: "w_entities w ! i = w_entities w' ! i \<and>
      the (map_of (w_highest_sequence w) (fst (w_entities w ! i))) = the (map_of (w_highest_sequence w') (fst (w_entities w ! i))) \<and>
      the (map_of (w_latest_target_tick w) (fst (w_entities w ! i))) = the (map_of (w_latest_target_tick w') (fst (w_entities w ! i)))"
    if i: "i < length (w_entities w)" for i
  proof -
    have "entity_row w (w_entities w ! i) = entity_row w' (w_entities w' ! i)"
      using arg_cong [OF assms(3), of "\<lambda>xs. xs ! i"] i len by simp
    then show ?thesis
      using entity_fields_inject own assms(1,2) i len unfolding entity_row_def by (metis nth_mem)
  qed
  then show es: "w_entities w = w_entities w'"
    using len by (intro nth_equalityI) auto
  have same: "map_of (w_highest_sequence w) k = map_of (w_highest_sequence w') k \<and>
      map_of (w_latest_target_tick w) k = map_of (w_latest_target_tick w') k" for k
  proof (cases "map_of (w_entities w) k")
    case None
    then show ?thesis
      using world_keys(3,4) [OF assms(1), of k] world_keys(3,4) [OF assms(2), of k] es by simp
  next
    case (Some s)
    then obtain i where "i < length (w_entities w)" "w_entities w ! i = (k, s)"
      by (metis map_of_SomeD in_set_conv_nth)
    then show ?thesis
      using row [of i] Some es world_keys(3,4) [OF assms(1), of k] world_keys(3,4) [OF assms(2), of k]
      by (auto intro: option.expand)
  qed
  show "w_highest_sequence w = w_highest_sequence w'"
    using same assms(1,2) by (intro omap.extensional world_keys(1)) auto
  show "w_latest_target_tick w = w_latest_target_tick w'"
    using same assms(1,2) by (intro omap.extensional world_keys(2)) auto
qed

text \<open>C15: The canonical encoding of a reachable world exists whenever both counts fit in 64 bits
  (no map key is missing), has the documented length, and determines the world: two reachable
  worlds with the same encoding are equal, internal records and residuals included.\<close>

theorem canonical_encoding_faithful:
  assumes "reachable world_init world_step w" and "reachable world_init world_step w'"
    and "entity_count w < u64_limit" and "pending_command_count w < u64_limit"
  shows "\<exists>bs. encode_world_state w = Inr bs \<and>
    length bs = 64 + 80 * entity_count w + 40 * pending_command_count w \<and>
    (encode_world_state w' = Inr bs \<longrightarrow> w' = w)"
proof -
  have ok: "world_ok w" "world_ok w'"
    using assms(1,2) by (simp_all add: simulation.inv_reachable)
  let ?bs = "state_header w @ be64 (of_nat (entity_count w)) @ concat (map (entity_row w) (w_entities w)) @
       be64 (of_nat (pending_command_count w)) @ concat (map command_fields (w_pending_commands w))"
  have "w' = w" if "encode_world_state w' = Inr ?bs"
  proof -
    have n: "entity_count w' < u64_limit" "pending_command_count w' < u64_limit"
      using that ok(2) by (auto simp: encode_world_state_eq split: if_splits)
    then have e: "state_header w' = state_header w" "entity_count w' = entity_count w"
      "concat (map (entity_row w') (w_entities w')) @ be64 (of_nat (pending_command_count w')) @
         concat (map command_fields (w_pending_commands w')) =
       concat (map (entity_row w) (w_entities w)) @ be64 (of_nat (pending_command_count w)) @
         concat (map command_fields (w_pending_commands w))"
      using that ok(2) assms(3) by (simp_all add: encode_world_state_eq append_eq_append_conv of_nat_u64_inject)
    then have rows: "map (entity_row w') (w_entities w') = map (entity_row w) (w_entities w)"
      and rest: "be64 (of_nat (pending_command_count w')) @ concat (map command_fields (w_pending_commands w')) =
        be64 (of_nat (pending_command_count w)) @ concat (map command_fields (w_pending_commands w))"
      by (simp_all add: concat_rows_eq [where k = 80] entity_count_def)
    then have "pending_command_count w' = pending_command_count w"
      using n assms(4) by (simp add: of_nat_u64_inject)
    with rest have "map command_fields (w_pending_commands w') = map command_fields (w_pending_commands w)"
      using concat_rows_eq [of "w_pending_commands w'" "w_pending_commands w" command_fields 40 command_fields "[]" "[]"]
      by (simp add: pending_command_count_def)
    then have "w_pending_commands w' = w_pending_commands w"
      by (simp add: inj_map_eq_map inj_def)
    then show "w' = w"
      using entity_rows_inject [OF ok(2,1) rows] state_header_inject [OF e(1)] by (intro world_eqI) simp_all
  qed
  moreover have "encode_world_state w = Inr ?bs"
    using ok(1) assms(3,4) by (simp add: encode_world_state_eq)
  ultimately show ?thesis
    by (intro exI [of _ ?bs]) (simp add: length_concat_rows [where k = 80] length_concat_rows [where k = 40] entity_count_def pending_command_count_def)
qed

theorem canonical_encoding_faithful_witness:
  "\<exists>bs. encode_world_state demo_queued = Inr bs \<and> length bs = 184 \<and> encode_world_state demo_world \<noteq> Inr bs"
proof -
  have n: "entity_count demo_queued = 1" "pending_command_count demo_queued = 1"
    by (simp_all add: entity_count_def pending_command_count_def demo_defs)
  have "demo_world \<noteq> demo_queued"
    by (simp add: demo_defs)
  with canonical_encoding_faithful [OF demo_queued_reachable demo_world_reachable] n show ?thesis
    by auto
qed

section \<open>Single-byte changes\<close>

lemma fnv_step_inject: "fnv_step h b = fnv_step h' b' \<longleftrightarrow> h XOR ucast b = h' XOR ucast b'"
proof
  assume "fnv_step h b = fnv_step h' b'"
  then have "(h XOR ucast b) * fnv_prime * 14886173955864302971 =
      (h' XOR ucast b') * fnv_prime * 14886173955864302971"
    by (simp only: fnv_step_def)
  moreover have "fnv_prime * 14886173955864302971 = 1"
    by code_simp
  ultimately show "h XOR ucast b = h' XOR ucast b'"
    by (simp only: mult.assoc mult_1_right)
qed (simp add: fnv_step_def)

lemma xor_cancel: "h XOR a = h XOR b \<longleftrightarrow> a = (b :: 'a::len word)" "a XOR h = b XOR h \<longleftrightarrow> a = b"
  by (auto simp: bit_eq_iff bit_simps)

lemma ucast_byte_inject: "(ucast (a :: u8) :: u64) = ucast b \<longleftrightarrow> a = b"
proof
  assume eq: "(ucast a :: u64) = ucast b"
  show "a = b"
  proof (rule bit_word_eqI)
    fix n assume "n < LENGTH(8)"
    then show "bit a n = bit b n"
      using arg_cong [OF eq, of "\<lambda>w. bit w n"] by (simp add: bit_simps)
  qed
qed simp

lemma fnv_fold_inject: "foldl fnv_step h bs = foldl fnv_step h' bs \<longleftrightarrow> h = h'"
  by (induction bs arbitrary: h h') (simp_all add: fnv_step_inject xor_cancel)

text \<open>C38: Changing exactly one byte of any input changes the FNV-1a fingerprint, at any position
  and in any context.\<close>

theorem fingerprint_detects_single_byte:
  "fingerprint_bytes (xs @ [a] @ ys) = fingerprint_bytes (xs @ [b] @ ys) \<longleftrightarrow> a = b"
  by (simp add: fingerprint_bytes_def fnv_fold_inject fnv_step_inject xor_cancel ucast_byte_inject)

section \<open>Hexadecimal rendering\<close>

definition hex_nibble :: "u64 \<Rightarrow> nat \<Rightarrow> nat" where
  "hex_nibble v i = unat (drop_bit (4 * i) v AND 0x0f)"

lemma foldl_to_hex_step:
  "k \<le> length r \<Longrightarrow> foldl to_hex_step (r, v) [0..<k] =
     (take (length r - k) r @ rev (map (\<lambda>i. hex_digits ! hex_nibble v i) [0..<k]), drop_bit (4 * k) v)"
proof (induction k)
  case (Suc k)
  then have "take (length r - k) r = take (length r - Suc k) r @ [r ! (length r - Suc k)]"
    by (metis Suc_diff_Suc Suc_le_lessD diff_less take_Suc_conv_app_nth zero_less_Suc
        less_le_trans le0 Suc_le_eq)
  with Suc show ?case
    by (simp add: to_hex_step_def hex_nibble_def list_update_append drop_bit_drop_bit add.commute)
qed simp

lemma fingerprint_to_hex_eq:
  "fingerprint_to_hex f = rev (map (\<lambda>i. hex_digits ! hex_nibble (fp_value f) i) [0..<16])"
  by (simp add: fingerprint_to_hex_def foldl_to_hex_step)

lemma hex_nibble_bits: "hex_nibble v i < 16" "n < 4 \<Longrightarrow> bit (hex_nibble v i) n \<longleftrightarrow> bit v (4 * i + n)"
proof -
  have m: "(0x0f :: u64) = mask 4"
    by (simp add: mask_eq_exp_minus_1)
  have "hex_nibble v i = unat (take_bit 4 (drop_bit (4 * i) v))"
    by (simp add: hex_nibble_def m take_bit_eq_mask)
  then have e: "hex_nibble v i = take_bit 4 (unat (drop_bit (4 * i) v))"
    by (simp add: unsigned_take_bit_eq)
  then show "hex_nibble v i < 16"
    using take_bit_nat_less_exp [of 4] by simp
  show "n < 4 \<Longrightarrow> bit (hex_nibble v i) n \<longleftrightarrow> bit v (4 * i + n)"
    by (simp add: e bit_simps)
qed

text \<open>The hexadecimal rendering of a fingerprint is sixteen lowercase digits and loses
  nothing: different fingerprints render differently.\<close>

lemma fingerprint_to_hex_faithful:
  "length (fingerprint_to_hex f) = 16 \<and> set (fingerprint_to_hex f) \<subseteq> set hex_digits \<and>
   (fingerprint_to_hex f = fingerprint_to_hex g \<longleftrightarrow> f = g)"
proof (intro conjI)
  show "length (fingerprint_to_hex f) = 16"
    by (simp add: fingerprint_to_hex_eq)
  have "length hex_digits = 16"
    by (simp add: hex_digits_def)
  then show "set (fingerprint_to_hex f) \<subseteq> set hex_digits"
    using hex_nibble_bits(1) by (auto simp: fingerprint_to_hex_eq)
  show "fingerprint_to_hex f = fingerprint_to_hex g \<longleftrightarrow> f = g"
  proof
    assume "fingerprint_to_hex f = fingerprint_to_hex g"
    then have nib: "hex_nibble (fp_value f) i = hex_nibble (fp_value g) i" if "i < 16" for i
      using that hex_nibble_bits(1) by (simp add: fingerprint_to_hex_eq hex_digits_inject)
    have "fp_value f = fp_value g"
    proof (rule bit_word_eqI)
      fix n assume "n < LENGTH(64)"
      then have "hex_nibble (fp_value f) (n div 4) = hex_nibble (fp_value g) (n div 4)"
        by (intro nib) simp
      then show "bit (fp_value f) n = bit (fp_value g) n"
        using hex_nibble_bits(2) [of "n mod 4" "fp_value f" "n div 4"]
          hex_nibble_bits(2) [of "n mod 4" "fp_value g" "n div 4"] by simp
    qed
    then show "f = g" by (rule StateFingerprint.expand)
  qed simp
qed

end
