(* ===== verification/Sha256.thy ===== *)
theory Sha256
  imports Bytes
begin

text \<open>
  The hash function of \<open>security/sha256.cpp\<close> and the digest class of \<open>security/sha256.hpp\<close>.
  \<open>Sha256_Standard\<close> proves that it computes the function of the published standard.
\<close>

section \<open>The digest\<close>

text \<open>The class wraps \<open>std::array<std::byte, 32>\<close>; \<open>digest_ok\<close> records the array's length.\<close>

datatype Sha256Digest = Sha256Digest (digest_bytes: bytes)

definition digest_ok :: "Sha256Digest \<Rightarrow> bool" where
  "digest_ok d \<longleftrightarrow> length (digest_bytes d) = 32"

definition Sha256Digest_zero :: Sha256Digest where
  "Sha256Digest_zero = Sha256Digest (replicate 32 0)"

definition digest_to_hex :: "Sha256Digest \<Rightarrow> string" where
  "digest_to_hex d = concat (map (\<lambda>value.
     [hex_digits ! unat (drop_bit 4 value), hex_digits ! unat (value AND 0x0f)]) (digest_bytes d))"

section \<open>The compression function\<close>

definition block_size :: nat where
  "block_size = 64"

definition round_constants :: "u32 list" where
  "round_constants = concat
    [[0x428a2f98, 0x71374491, 0xb5c0fbcf, 0xe9b5dba5, 0x3956c25b, 0x59f111f1, 0x923f82a4, 0xab1c5ed5],
     [0xd807aa98, 0x12835b01, 0x243185be, 0x550c7dc3, 0x72be5d74, 0x80deb1fe, 0x9bdc06a7, 0xc19bf174],
     [0xe49b69c1, 0xefbe4786, 0x0fc19dc6, 0x240ca1cc, 0x2de92c6f, 0x4a7484aa, 0x5cb0a9dc, 0x76f988da],
     [0x983e5152, 0xa831c66d, 0xb00327c8, 0xbf597fc7, 0xc6e00bf3, 0xd5a79147, 0x06ca6351, 0x14292967],
     [0x27b70a85, 0x2e1b2138, 0x4d2c6dfc, 0x53380d13, 0x650a7354, 0x766a0abb, 0x81c2c92e, 0x92722c85],
     [0xa2bfe8a1, 0xa81a664b, 0xc24b8b70, 0xc76c51a3, 0xd192e819, 0xd6990624, 0xf40e3585, 0x106aa070],
     [0x19a4c116, 0x1e376c08, 0x2748774c, 0x34b0bcb5, 0x391c0cb3, 0x4ed8aa4a, 0x5b9cca4f, 0x682e6ff3],
     [0x748f82ee, 0x78a5636f, 0x84c87814, 0x8cc70208, 0x90befffa, 0xa4506ceb, 0xbef9a3f7, 0xc67178f2]]"

text \<open>\<open>std::rotr\<close> for the counts between 1 and 31 the code uses.\<close>

definition rotr :: "u32 \<Rightarrow> nat \<Rightarrow> u32" where
  "rotr value n = drop_bit n value OR push_bit (32 - n) value"

definition sha_choose :: "u32 \<Rightarrow> u32 \<Rightarrow> u32 \<Rightarrow> u32" where
  "sha_choose x y z = (x AND y) XOR (NOT x AND z)"

definition majority :: "u32 \<Rightarrow> u32 \<Rightarrow> u32 \<Rightarrow> u32" where
  "majority x y z = (x AND y) XOR (x AND z) XOR (y AND z)"

definition large_sigma_zero :: "u32 \<Rightarrow> u32" where
  "large_sigma_zero value = rotr value 2 XOR rotr value 13 XOR rotr value 22"

definition large_sigma_one :: "u32 \<Rightarrow> u32" where
  "large_sigma_one value = rotr value 6 XOR rotr value 11 XOR rotr value 25"

definition small_sigma_zero :: "u32 \<Rightarrow> u32" where
  "small_sigma_zero value = rotr value 7 XOR rotr value 18 XOR drop_bit 3 value"

definition small_sigma_one :: "u32 \<Rightarrow> u32" where
  "small_sigma_one value = rotr value 17 XOR rotr value 19 XOR drop_bit 10 value"

definition read_word :: "bytes \<Rightarrow> nat \<Rightarrow> u32" where
  "read_word block offset =
     push_bit 24 (ucast (block ! offset)) OR push_bit 16 (ucast (block ! (offset + 1))) OR
     push_bit 8 (ucast (block ! (offset + 2))) OR ucast (block ! (offset + 3))"

text \<open>The message schedule: an array of 64 words, filled by two loops.\<close>

definition expand_schedule :: "nat \<Rightarrow> u32 list \<Rightarrow> u32 list" where
  "expand_schedule index schedule = schedule[index :=
     schedule ! (index - 16) + small_sigma_zero (schedule ! (index - 15)) +
     schedule ! (index - 7) + small_sigma_one (schedule ! (index - 2))]"

definition message_schedule :: "bytes \<Rightarrow> u32 list" where
  "message_schedule block =
     fold expand_schedule [16..<64]
       (fold (\<lambda>index schedule. schedule[index := read_word block (index * 4)]) [0..<16]
         (replicate 64 0))"

type_synonym working_variables = "u32 \<times> u32 \<times> u32 \<times> u32 \<times> u32 \<times> u32 \<times> u32 \<times> u32"

definition compression_round :: "u32 list \<Rightarrow> nat \<Rightarrow> working_variables \<Rightarrow> working_variables" where
  "compression_round schedule index = (\<lambda>(a, b, c, d, e, f, g, h).
     let first = h + large_sigma_one e + sha_choose e f g + round_constants ! index + schedule ! index;
         second = large_sigma_zero a + majority a b c
     in (first + second, a, b, c, d + first, e, f, g))"

definition process_block :: "bytes \<Rightarrow> u32 list \<Rightarrow> u32 list" where
  "process_block block state =
     (let schedule = message_schedule block;
          (a, b, c, d, e, f, g, h) = fold (compression_round schedule) [0..<64]
            (state ! 0, state ! 1, state ! 2, state ! 3, state ! 4, state ! 5, state ! 6, state ! 7)
      in [state ! 0 + a, state ! 1 + b, state ! 2 + c, state ! 3 + d,
          state ! 4 + e, state ! 5 + f, state ! 6 + g, state ! 7 + h])"

definition write_word :: "bytes \<Rightarrow> nat \<Rightarrow> u32 \<Rightarrow> bytes" where
  "write_word output offset value =
     output[offset := ucast (drop_bit 24 value AND 0xff),
            offset + 1 := ucast (drop_bit 16 value AND 0xff),
            offset + 2 := ucast (drop_bit 8 value AND 0xff),
            offset + 3 := ucast (value AND 0xff)]"

section \<open>The hash\<close>

definition initial_state :: "u32 list" where
  "initial_state =
    [0x6a09e667, 0xbb67ae85, 0x3c6ef372, 0xa54ff53a, 0x510e527f, 0x9b05688c, 0x1f83d9ab, 0x5be0cd19]"

definition sub_span :: "nat \<Rightarrow> nat \<Rightarrow> bytes \<Rightarrow> bytes" where
  "sub_span offset n bs = take n (drop offset bs)"

definition final_size :: "nat \<Rightarrow> nat" where
  "final_size remainder = (if remainder < 56 then block_size else block_size * 2)"

text \<open>The 128-byte tail: the bytes after the last complete block, the marker and the bit length.\<close>

definition build_tail :: "bytes \<Rightarrow> bytes" where
  "build_tail bs =
     (let consumed = length bs div block_size * block_size;
          remainder = length bs - consumed;
          tail = fold (\<lambda>index tail. tail[index := bs ! (consumed + index)]) [0..<remainder]
                   (replicate (block_size * 2) 0);
          tail = tail[remainder := 0x80];
          bit_length = (of_nat (length bs) :: u64) * 8;
          shifts = [56, 48, 40, 32, 24, 16, 8, 0]
      in fold (\<lambda>index tail. tail[final_size remainder - length shifts + index :=
                  ucast (drop_bit (shifts ! index) bit_length AND 0xff)]) [0..<length shifts] tail)"

definition sha256 :: "bytes \<Rightarrow> Sha256Digest" where
  "sha256 bs =
     (let complete_blocks = length bs div block_size;
          state = fold (\<lambda>block_index state.
             process_block (sub_span (block_index * block_size) block_size bs) state)
             [0..<complete_blocks] initial_state;
          remainder = length bs - complete_blocks * block_size;
          tail = build_tail bs;
          state = process_block (sub_span 0 block_size tail) state;
          state = (if final_size remainder = block_size * 2
                   then process_block (sub_span block_size block_size tail) state else state)
      in Sha256Digest (fold (\<lambda>index digest. write_word digest (index * 4) (state ! index))
           [0..<8] (replicate 32 0)))"

section \<open>Loops over arrays\<close>

lemma fold_write:
  "k + n \<le> length t \<Longrightarrow>
   fold (\<lambda>i t. t[k + i := f i]) [0..<n] t = take k t @ map f [0..<n] @ drop (k + n) t"
proof (induction n)
  case (Suc n)
  then have "drop (k + n) t = t ! (k + n) # drop (Suc (k + n)) t"
    by (simp add: Cons_nth_drop_Suc)
  with Suc show ?case
    by (simp add: list_update_append)
qed simp

lemma length_4E: "length xs = 4 \<Longrightarrow> (\<And>a b c d. xs = [a, b, c, d] \<Longrightarrow> thesis) \<Longrightarrow> thesis"
  by (auto simp: length_Suc_conv numeral_eq_Suc)

lemma write_word_eq:
  assumes "offset + 4 \<le> length out"
  shows "write_word out offset v = take offset out @ be32 v @ drop (offset + 4) out"
proof -
  define p where "p = take offset out"
  define q where "q = drop (offset + 4) out"
  have "length (take 4 (drop offset out)) = 4"
    using assms by simp
  then obtain a b c d where mid: "take 4 (drop offset out) = [a, b, c, d]"
    by (rule length_4E)
  have "out = p @ take 4 (drop offset out) @ q"
    using take_add_drop [of 4 offset out] by (simp add: p_def q_def add.commute)
  then have out: "out = p @ [a, b, c, d] @ q" and len: "length p = offset"
    using assms by (simp_all only: mid p_def length_take)
  show ?thesis
    by (simp add: out len [symmetric] write_word_def be32_def byte_at_def list_update_append)
qed

lemma length_concat_be32 [simp]: "length (concat (map be32 xs)) = 4 * length xs"
  by (induction xs) simp_all

lemma digest_loop:
  "n \<le> 8 \<Longrightarrow> fold (\<lambda>index digest. write_word digest (index * 4) (state ! index)) [0..<n] (replicate 32 0) =
     concat (map (\<lambda>i. be32 (state ! i)) [0..<n]) @ replicate (32 - n * 4) 0"
proof (induction n)
  case (Suc n)
  have len: "length (concat (map (\<lambda>i. be32 (state ! i)) [0..<n])) = n * 4" for n
    by (induction n) auto
  show ?case
    using Suc by (simp add: write_word_eq len)
qed simp

section \<open>The digest\<close>

lemma length_concat_words: "length (concat (map (\<lambda>i. be32 (f i)) xs)) = 4 * length xs"
  by (induction xs) simp_all

lemma digest_bytes_words:
  "\<exists>state. digest_bytes (sha256 bs) = concat (map (\<lambda>i. be32 (state ! i)) [0..<8])"
  unfolding sha256_def Let_def Sha256Digest.sel digest_loop [OF order_refl] by auto

lemma digest_ok_sha256 [simp]: "digest_ok (sha256 bs)"
  using digest_bytes_words [of bs] by (auto simp: digest_ok_def length_concat_words)

lemma nibbles_determine:
  "unat (drop_bit 4 v) = unat (drop_bit 4 w) \<Longrightarrow> unat (v AND 0x0f) = unat (w AND 0x0f) \<Longrightarrow> v = (w :: u8)"
proof (rule bit_word_eqI)
  fix n assume e: "unat (drop_bit 4 v) = unat (drop_bit 4 w)" "unat (v AND 0x0f) = unat (w AND 0x0f)"
    and n: "n < LENGTH(8)"
  have m: "(0x0f :: u8) = mask 4"
    by (simp add: mask_eq_exp_minus_1)
  have "drop_bit 4 v = drop_bit 4 w" and "v AND mask 4 = w AND mask 4"
    using e by (simp_all add: m word_unat_eq_iff)
  then have "bit (drop_bit 4 v) (n - 4) = bit (drop_bit 4 w) (n - 4)"
      and "bit (v AND mask 4) n = bit (w AND mask 4) n" by simp_all
  then show "bit v n \<longleftrightarrow> bit w n"
    using n by (cases "n < 4") (simp_all add: bit_simps)
qed

lemma nibble_bounds [simp]: "unat (drop_bit 4 (v :: u8)) < 16" "unat ((v :: u8) AND 0x0f) < 16"
proof -
  have m: "(0x0f :: u8) = mask 4"
    by (simp add: mask_eq_exp_minus_1)
  show "unat (drop_bit 4 v) < 16"
    using unsigned_less [of v, where ?'a = nat] by (simp add: drop_bit_eq_div unat_div less_mult_imp_div_less)
  show "unat (v AND 0x0f) < 16"
    unfolding m using and_mask_less' [of 4 v] by (simp add: word_less_nat_alt)
qed

lemma hex_pairs_inject:
  "concat (map (\<lambda>v. [hex_digits ! unat (drop_bit 4 v), hex_digits ! unat (v AND 0x0f)]) xs) =
   concat (map (\<lambda>v. [hex_digits ! unat (drop_bit 4 v), hex_digits ! unat (v AND 0x0f)]) (ys :: bytes)) \<Longrightarrow>
   xs = ys"
proof (induction xs arbitrary: ys)
  case Nil
  then show ?case by (cases ys) simp_all
next
  case (Cons x xs)
  then show ?case
    by (cases ys) (auto simp: hex_digits_inject intro: nibbles_determine)
qed

text \<open>The hexadecimal rendering of a digest has two lowercase digits per byte and loses
  nothing: different digests render differently.\<close>

lemma digest_to_hex_faithful:
  "length (digest_to_hex d) = 2 * length (digest_bytes d) \<and>
   set (digest_to_hex d) \<subseteq> set hex_digits \<and>
   (digest_to_hex d = digest_to_hex e \<longleftrightarrow> d = e)"
proof (intro conjI)
  show "length (digest_to_hex d) = 2 * length (digest_bytes d)"
    by (simp add: digest_to_hex_def length_concat comp_def sum_list_triv)
  show "set (digest_to_hex d) \<subseteq> set hex_digits"
    by (auto simp: digest_to_hex_def)
  show "digest_to_hex d = digest_to_hex e \<longleftrightarrow> d = e"
    unfolding digest_to_hex_def by (auto dest: hex_pairs_inject intro: Sha256Digest.expand)
qed

end
