(* ===== verification/Sha256_Standard.thy ===== *)
theory Sha256_Standard
  imports Sha256 Complex_Main
begin

text \<open>
  SHA-256 as the published standard defines it, in definitions that share nothing with the
  implementation (library rotations, constants from the real roots of primes, the message
  schedule as a recurrence, padding of the whole message), and the proof that the
  implementation of \<open>security/sha256.cpp\<close> computes it on every input.
\<close>

section \<open>The standard\<close>

text \<open>
  SHA-256 as FIPS 180-4 defines it, stated without any definition of the implementation:
  rotations are those of the word library, the constants are the first 32 bits of the
  fractional parts of real roots of primes (cube roots of the first 64 primes for the rounds,
  square roots of the first 8 for the initial hash value), the schedule is a recurrence over
  the block, and the message is padded as a whole and cut into blocks of 64 bytes. Every
  composite number below 361 has a divisor of at most 17, so \<open>first_primes\<close> lists the primes
  up to 311.
\<close>

definition first_primes :: "int list" where
  "first_primes = filter (\<lambda>n. list_all (\<lambda>d. d < n \<longrightarrow> n mod d \<noteq> 0) [2..17]) [2..311]"

definition fraction_word :: "nat \<Rightarrow> int \<Rightarrow> u32" where
  "fraction_word k p = word_of_int \<lfloor>frac (root k (real_of_int p)) * 2 ^ 32\<rfloor>"

definition fips_constant :: "nat \<Rightarrow> u32" where
  "fips_constant t = fraction_word 3 (first_primes ! t)"

definition fips_initial :: "u32 list" where
  "fips_initial = map (fraction_word 2) (take 8 first_primes)"

definition fips_select :: "u32 \<Rightarrow> u32 \<Rightarrow> u32 \<Rightarrow> u32" where
  "fips_select e f g = (e AND f) XOR (NOT e AND g)"

definition fips_vote :: "u32 \<Rightarrow> u32 \<Rightarrow> u32 \<Rightarrow> u32" where
  "fips_vote a b c = (a AND b) XOR (a AND c) XOR (b AND c)"

definition fips_rotations :: "nat \<Rightarrow> nat \<Rightarrow> nat \<Rightarrow> u32 \<Rightarrow> u32" where
  "fips_rotations i j k w = word_rotr i w XOR word_rotr j w XOR word_rotr k w"

definition fips_mix :: "nat \<Rightarrow> nat \<Rightarrow> nat \<Rightarrow> u32 \<Rightarrow> u32" where
  "fips_mix i j k w = word_rotr i w XOR word_rotr j w XOR drop_bit k w"

fun fips_schedule :: "bytes \<Rightarrow> nat \<Rightarrow> u32" where
  "fips_schedule block t =
     (if t < 16 then be_value (take 4 (drop (4 * t) block))
      else fips_mix 17 19 10 (fips_schedule block (t - 2)) + fips_schedule block (t - 7) +
           fips_mix 7 18 3 (fips_schedule block (t - 15)) + fips_schedule block (t - 16))"

declare fips_schedule.simps [simp del]

definition fips_padding :: "nat \<Rightarrow> bytes" where
  "fips_padding n = 0x80 # replicate ((119 - n mod 64) mod 64) 0 @ be64 (of_nat (8 * n))"

primrec fips_rounds :: "(nat \<Rightarrow> u32) \<Rightarrow> nat \<Rightarrow> working_variables \<Rightarrow> working_variables" where
  "fips_rounds w 0 v = v"
| "fips_rounds w (Suc t) v = (let (a, b, c, d, e, f, g, h) = fips_rounds w t v;
       t1 = h + fips_rotations 6 11 25 e + fips_select e f g + fips_constant t + w t;
       t2 = fips_rotations 2 13 22 a + fips_vote a b c
     in (t1 + t2, a, b, c, d + t1, e, f, g))"

definition fips_compress :: "u32 list \<Rightarrow> bytes \<Rightarrow> u32 list" where
  "fips_compress hash block =
     (let (a, b, c, d, e, f, g, h) = fips_rounds (fips_schedule block) 64
        (hash ! 0, hash ! 1, hash ! 2, hash ! 3, hash ! 4, hash ! 5, hash ! 6, hash ! 7)
      in map2 (+) [a, b, c, d, e, f, g, h] hash)"

definition blocks_of :: "bytes \<Rightarrow> bytes list" where
  "blocks_of m = map (\<lambda>i. take 64 (drop (i * 64) m)) [0..<length m div 64]"

definition fips_sha256 :: "bytes \<Rightarrow> bytes" where
  "fips_sha256 m =
     concat (map be32 (foldl fips_compress fips_initial (blocks_of (m @ fips_padding (length m)))))"

section \<open>Words of a block\<close>

lemma read_word_eq:
  "offset + 4 \<le> length block \<Longrightarrow> read_word block offset = be_value (take 4 (drop offset block))"
  by (simp add: read_word_def take_four_nth be_value_four)

section \<open>The functions and constants agree with the standard\<close>

lemma rotr_word_rotr: "0 < n \<Longrightarrow> n < 32 \<Longrightarrow> rotr v n = word_rotr n v"
proof (rule bit_word_eqI)
  fix i assume "0 < n" "n < 32" "i < LENGTH(32)"
  then show "bit (rotr v n) i \<longleftrightarrow> bit (word_rotr n v) i"
    using bit_imp_le_length [of v "i + n"] le_mod_geq [of 32 "i + n"] mod_less [of "i + n" 32]
    by (cases "i + n < 32") (auto simp: rotr_def bit_simps bit_word_rotr_iff add.commute)
qed

lemma sha_functions:
  "sha_choose = fips_select" "majority = fips_vote"
  "large_sigma_zero = fips_rotations 2 13 22" "large_sigma_one = fips_rotations 6 11 25"
  "small_sigma_zero = fips_mix 7 18 3" "small_sigma_one = fips_mix 17 19 10"
  by (simp_all add: fun_eq_iff rotr_word_rotr sha_choose_def fips_select_def majority_def fips_vote_def
    large_sigma_zero_def large_sigma_one_def small_sigma_zero_def small_sigma_one_def
    fips_rotations_def fips_mix_def)

text \<open>A decidable test for the constants: with \<open>r\<close> the integer part of the \<open>k\<close>-th root of \<open>p\<close>
  (below 8 for these primes), the word \<open>w\<close> is right when \<open>r * 2^32 + w\<close> is the integer part of
  the \<open>k\<close>-th root of \<open>p * 2^(32 * k)\<close>.\<close>

definition root_fraction :: "nat \<Rightarrow> int \<Rightarrow> u32 \<Rightarrow> bool" where
  "root_fraction k p w \<longleftrightarrow> list_ex (\<lambda>r. r ^ k \<le> p \<and> p < (r + 1) ^ k \<and>
     (r * 2 ^ 32 + uint w) ^ k \<le> p * 2 ^ (32 * k) \<and>
     p * 2 ^ (32 * k) < (r * 2 ^ 32 + uint w + 1) ^ k) [1..7]"

lemma floor_root:
  assumes "0 < k" and "0 \<le> r" and "r ^ k \<le> p" and "p < (r + 1) ^ k"
  shows "\<lfloor>root k (real_of_int p)\<rfloor> = r"
proof (rule floor_unique)
  have "real_of_int r ^ k \<le> real_of_int p"
    using assms(3) by (metis of_int_le_iff of_int_power)
  then show "real_of_int r \<le> root k (real_of_int p)"
    using assms(1,2) real_root_le_mono [of k "real_of_int r ^ k" "real_of_int p"]
    by (simp add: real_root_power_cancel)
  have "real_of_int p < (real_of_int r + 1) ^ k"
    using assms(4) by (metis of_int_less_iff of_int_power of_int_add of_int_1)
  then show "root k (real_of_int p) < real_of_int r + 1"
    using assms(1,2) real_root_less_mono [of k "real_of_int p" "(real_of_int r + 1) ^ k"]
    by (simp add: real_root_power_cancel)
qed

lemma root_fraction_word:
  assumes "root_fraction k p w" and "0 < k"
  shows "fraction_word k p = w"
proof -
  obtain r where r: "1 \<le> r" "r ^ k \<le> p" "p < (r + 1) ^ k"
      "(r * 2 ^ 32 + uint w) ^ k \<le> p * 2 ^ (32 * k)" "p * 2 ^ (32 * k) < (r * 2 ^ 32 + uint w + 1) ^ k"
    using assms(1) by (auto simp: root_fraction_def list_ex_iff simp del: power_numeral)
  have "\<lfloor>root k (real_of_int (p * 2 ^ (32 * k)))\<rfloor> = r * 2 ^ 32 + uint w"
    using r by (intro floor_root assms(2)) auto
  moreover have "root k (real_of_int (p * 2 ^ (32 * k))) = root k (real_of_int p) * 2 ^ 32"
    using assms(2) by (simp add: real_root_mult power_mult real_root_power_cancel)
  moreover have "\<lfloor>root k (real_of_int p)\<rfloor> = r"
    using r by (intro floor_root assms(2)) simp_all
  ultimately have "\<lfloor>frac (root k (real_of_int p)) * 2 ^ 32\<rfloor> = uint w"
    by (simp add: frac_def left_diff_distrib) linarith
  then show ?thesis
    by (simp add: fraction_word_def)
qed

lemma sha_constants_roots:
  "list_all2 (root_fraction 3) first_primes round_constants"
  "list_all2 (root_fraction 2) (take 8 first_primes) initial_state"
  by code_simp+

lemma length_initial_state [simp]: "length initial_state = 8"
  by (simp add: initial_state_def)

lemma length_round_constants [simp]: "length round_constants = 64"
  by (simp add: round_constants_def)

lemma initial_state_eq: "initial_state = fips_initial"
  using sha_constants_roots(2) unfolding fips_initial_def
  by (auto simp: list_all2_conv_all_nth root_fraction_word [symmetric] intro!: nth_equalityI)

lemma round_constants_nth: "t < 64 \<Longrightarrow> round_constants ! t = fips_constant t"
  using sha_constants_roots(1)
  by (auto simp: list_all2_conv_all_nth root_fraction_word [symmetric] fips_constant_def)

section \<open>The compression function agrees with the standard\<close>

lemma schedule_prefix:
  assumes "length block = 64" and "16 \<le> n" and "n \<le> 64"
  shows "length (fold expand_schedule [16..<n]
       (fold (\<lambda>index schedule. schedule[index := read_word block (index * 4)]) [0..<16] (replicate 64 0))) = 64 \<and>
     (\<forall>t < n. fold expand_schedule [16..<n]
       (fold (\<lambda>index schedule. schedule[index := read_word block (index * 4)]) [0..<16] (replicate 64 0)) ! t =
        fips_schedule block t)"
  using assms(2,3)
proof (induction n rule: dec_induct)
  case base
  show ?case
    using fold_write [of 0 16 "replicate 64 (0 :: u32)" "\<lambda>i. read_word block (i * 4)"] assms(1)
    by (simp add: nth_append fips_schedule.simps read_word_eq mult.commute)
next
  case (step n)
  let ?s = "fold expand_schedule [16..<n]
       (fold (\<lambda>index schedule. schedule[index := read_word block (index * 4)]) [0..<16] (replicate 64 0))"
  have len: "length ?s = 64" and pre: "\<And>t. t < n \<Longrightarrow> ?s ! t = fips_schedule block t"
    using step by simp_all
  have w: "fips_schedule block n = ?s ! (n - 16) + small_sigma_zero (?s ! (n - 15)) +
      ?s ! (n - 7) + small_sigma_one (?s ! (n - 2))"
    using step.hyps(1) by (subst fips_schedule.simps) (simp add: pre sha_functions)
  have s: "fold expand_schedule [16..<Suc n]
       (fold (\<lambda>index schedule. schedule[index := read_word block (index * 4)]) [0..<16] (replicate 64 0)) =
       ?s[n := fips_schedule block n]"
    using step.hyps(1) by (simp only: w expand_schedule_def upt_Suc_append fold_append fold.simps comp_apply id_apply)
  show ?case
    unfolding s using len pre step.prems by (auto simp: nth_list_update less_Suc_eq)
qed

lemma message_schedule_nth:
  "length block = 64 \<Longrightarrow> t < 64 \<Longrightarrow> message_schedule block ! t = fips_schedule block t"
  using schedule_prefix [of block 64] by (simp add: message_schedule_def)

lemma rounds_eq:
  "n \<le> 64 \<Longrightarrow> (\<And>t. t < n \<Longrightarrow> s ! t = w t) \<Longrightarrow>
   fold (compression_round s) [0..<n] v = fips_rounds w n v"
  by (induction n) (simp_all add: compression_round_def sha_functions round_constants_nth Let_def split_def)

lemma length_process_block [simp]: "length (process_block block state) = 8"
  by (simp add: process_block_def Let_def split_def)

lemma process_block_eq:
  assumes "length block = 64" and "length state = 8"
  shows "process_block block state = fips_compress state block"
proof -
  obtain s0 s1 s2 s3 s4 s5 s6 s7 where state: "state = [s0, s1, s2, s3, s4, s5, s6, s7]"
    using assms(2) by (auto simp: length_Suc_conv numeral_eq_Suc)
  show ?thesis
    using assms(1)
    by (simp add: state process_block_def fips_compress_def Let_def split_def
      rounds_eq [OF order_refl message_schedule_nth] add.commute)
qed

section \<open>Padding and blocks\<close>

lemma blocks_of_append:
  assumes "length x mod 64 = 0"
  shows "blocks_of (x @ y) = blocks_of x @ blocks_of y"
proof -
  define k where "k = length x div 64"
  have x: "length x = k * 64"
    using assms div_mult_mod_eq [of "length x" 64] by (simp add: k_def)
  have "(k * 64 + length y) div 64 = k + length y div 64"
    by simp
  moreover have "[0..<k + length y div 64] = [0..<k] @ map (\<lambda>i. i + k) [0..<length y div 64]"
    using upt_add_eq_append [of 0 k "length y div 64"] by (simp add: map_add_upt add.commute)
  ultimately show ?thesis
    by (simp add: blocks_of_def x)
qed

lemma blocks_of_64: "length x = 64 \<Longrightarrow> blocks_of x = [x]"
  by (simp add: blocks_of_def)

lemma blocks_of_128: "length x = 128 \<Longrightarrow> blocks_of x = [take 64 x, drop 64 x]"
  by (simp add: blocks_of_def upt_rec)

lemma length_fips_compress: "length hash = 8 \<Longrightarrow> length (fips_compress hash block) = 8"
  by (simp add: fips_compress_def Let_def split_def)

lemma length_fips_blocks: "length hash = 8 \<Longrightarrow> length (foldl fips_compress hash blocks) = 8"
  by (induction blocks arbitrary: hash) (simp_all add: length_fips_compress)

lemma blocks_loop:
  assumes "length state = 8" and "n * 64 \<le> length bs"
  shows "fold (\<lambda>i state. process_block (sub_span (i * block_size) block_size bs) state)
      [0..<n] state = foldl fips_compress state (map (\<lambda>i. take 64 (drop (i * 64) bs)) [0..<n])"
  using assms(2)
proof (induction n)
  case (Suc n)
  have "length (take 64 (drop (n * 64) bs)) = 64"
    using Suc.prems by simp
  then have "process_block (take 64 (drop (n * 64) bs)) (foldl fips_compress state bl) =
      fips_compress (foldl fips_compress state bl) (take 64 (drop (n * 64) bs))" for bl
    using assms(1) by (intro process_block_eq length_fips_blocks)
  with Suc show ?case
    by (simp add: sub_span_def block_size_def)
qed simp

lemma padding_zeros: "r < 64 \<Longrightarrow> (119 - r) mod 64 = (if r < 56 then 55 - r else 119 - (r :: nat))"
proof (cases "r < 56")
  case True
  then have "119 - r = 64 + (55 - r)" by simp
  with True show ?thesis by (simp only: mod_add_self1) simp
qed simp

lemma build_tail_eq:
  fixes bs :: bytes
  defines "r \<equiv> length bs mod 64"
  shows "build_tail bs = drop (length bs div 64 * 64) bs @ fips_padding (length bs) @
     replicate (128 - final_size r) 0"
proof -
  let ?c = "length bs div 64 * 64"
  define rest where "rest = drop ?c bs"
  define k where "k = final_size r - 8"
  have c: "length bs - ?c = r" and r: "r < 64" and le: "?c + r = length bs"
    by (simp_all add: r_def minus_div_mult_eq_mod)
  have len: "length rest = r"
    using le by (simp add: rest_def)
  have "map (\<lambda>i. bs ! (?c + i)) [0..<r] = rest"
    using le by (intro nth_equalityI) (simp_all add: rest_def)
  then have copy: "fold (\<lambda>index tail. tail[index := bs ! (?c + index)]) [0..<r] (replicate 128 0) =
      rest @ replicate (128 - r) 0"
    using fold_write [of 0 r "replicate 128 0" "\<lambda>i. bs ! (?c + i)"] r by simp
  have "128 - r = Suc (127 - r)"
    using r by simp
  then have "replicate (128 - r) (0 :: u8) = 0 # replicate (127 - r) 0"
    by (simp only: replicate_Suc)
  then have marker: "(rest @ replicate (128 - r) 0)[r := 0x80] = rest @ 0x80 # replicate (127 - r) 0"
    by (simp add: list_update_append len)
  have k: "k + 8 = final_size r" "r < k" "k + 8 \<le> 128" "k - r - 1 = (119 - r) mod 64"
    using r by (auto simp: k_def final_size_def block_size_def padding_zeros)
  let ?shifts = "[56, 48, 40, 32, 24, 16, 8, 0] :: nat list"
  let ?f = "\<lambda>i. ucast (drop_bit (?shifts ! i) (of_nat (length bs) * 8 :: u64) AND 0xff) :: u8"
  have sizes: "block_size = 64" "(64 :: nat) * 2 = 128" "length ?shifts = 8"
    by (simp_all add: block_size_def)
  have bits: "map ?f [0..<8] = be64 (of_nat (8 * length bs))"
    by (simp add: be64_def byte_at_def upt_rec mult.commute)
  have zeros: "take k (rest @ 0x80 # replicate (127 - r) 0) = rest @ 0x80 # replicate ((119 - r) mod 64) 0"
      "drop (k + 8) (rest @ 0x80 # replicate (127 - r) 0) = replicate (128 - final_size r) 0"
    using k r len by (auto simp: take_Cons' drop_Cons' min_def)
  have fits: "k + 8 \<le> length (rest @ 0x80 # replicate (127 - r) 0)"
    using k r len by simp
  have "build_tail bs = fold (\<lambda>i t. t[k + i := ?f i]) [0..<8] (rest @ 0x80 # replicate (127 - r) 0)"
    by (simp only: build_tail_def Let_def sizes c copy marker k_def)
  also have "\<dots> = (rest @ 0x80 # replicate ((119 - r) mod 64) 0) @ map ?f [0..<8] @ replicate (128 - final_size r) 0"
    by (simp only: fold_write [OF fits] zeros)
  finally show ?thesis
    by (simp only: bits) (simp add: fips_padding_def rest_def r_def)
qed

section \<open>The implementation computes the standard\<close>

lemma digest_bytes_sha256: "digest_bytes (sha256 bs) = fips_sha256 bs"
proof -
  let ?k = "length bs div 64"
  let ?r = "length bs mod 64"
  define tail where "tail = drop (?k * 64) bs @ fips_padding (length bs)"
  define state where "state = foldl fips_compress initial_state (blocks_of (take (?k * 64) bs))"
  define final where "final = foldl fips_compress state (blocks_of tail)"
  have r: "length bs - ?k * 64 = ?r" "?r < 64" and k: "?k * 64 \<le> length bs"
    by (simp_all add: minus_div_mult_eq_mod)
  have size: "length bs div block_size = ?k" "length bs - ?k * block_size = ?r"
    by (simp_all add: block_size_def r)
  have len: "length state = 8" "length final = 8"
    by (simp_all add: state_def final_def length_fips_blocks)
  have complete: "map (\<lambda>i. take 64 (drop (i * 64) bs)) [0..<?k] = blocks_of (take (?k * 64) bs)"
    using k by (simp add: blocks_of_def min_absorb2) (simp add: take_drop min_def)
  have state: "fold (\<lambda>i state. process_block (sub_span (i * block_size) block_size bs) state)
      [0..<?k] initial_state = state"
    using blocks_loop [OF length_initial_state k] by (simp only: complete state_def)
  have tail: "length tail = final_size ?r" "build_tail bs = tail @ replicate (128 - final_size ?r) 0"
    using r by (auto simp: tail_def build_tail_eq fips_padding_def final_size_def block_size_def padding_zeros)
  have last: "(if final_size ?r = block_size * 2
      then process_block (sub_span block_size block_size (build_tail bs))
        (process_block (sub_span 0 block_size (build_tail bs)) state)
      else process_block (sub_span 0 block_size (build_tail bs)) state) = final"
    using tail len by (auto simp: final_def final_size_def block_size_def sub_span_def
      blocks_of_64 blocks_of_128 process_block_eq length_fips_compress split: if_splits)
  have "digest_bytes (sha256 bs) = concat (map (\<lambda>i. be32 (final ! i)) [0..<8])"
    using digest_loop [of 8 final]
    by (simp only: sha256_def Let_def size state last Sha256Digest.sel) simp
  also have "\<dots> = concat (map be32 final)"
    using len(2) map_nth [of final] by (metis map_map comp_apply map_cong)
  also have "bs @ fips_padding (length bs) = take (?k * 64) bs @ tail"
    by (simp add: tail_def)
  then have "final = foldl fips_compress initial_state (blocks_of (bs @ fips_padding (length bs)))"
    using k blocks_of_append [of "take (?k * 64) bs" tail]
    by (simp add: final_def state_def min_absorb2)
  finally show ?thesis
    by (simp add: fips_sha256_def initial_state_eq)
qed

text \<open>C3: The hash function computes SHA-256: for every input, of any length, hashing the
  complete blocks in place and then one or two blocks of a 128-byte tail, with the tables and
  shift-and-or rotations of the code, gives the digest the standard defines by padding the
  whole message, by rotations of 32-bit words and by the real roots of the first primes; and
  the digest has 32 bytes.\<close>

theorem sha256_is_standard: "digest_bytes (sha256 bs) = fips_sha256 bs \<and> digest_ok (sha256 bs)"
  by (simp add: digest_bytes_sha256)

end
