(* ===== verification/Frame.thy ===== *)
theory Frame
  imports Bytes
begin

text \<open>
  The binary frame of \<open>protocol/frame.hpp\<close> and its parser, \<open>protocol/frame_parser.cpp\<close>: a
  16-byte header followed by the payload. Reads go through the fallible span access, so
  that memory safety on arbitrary input is a theorem.
\<close>

section \<open>The frame format\<close>

definition frame_magic :: bytes where
  "frame_magic = [0x54, 0x49, 0x43, 0x4b]"

abbreviation protocol_version :: u16 where
  "protocol_version \<equiv> 1"

abbreviation frame_header_size :: nat where
  "frame_header_size \<equiv> 16"

abbreviation default_max_frame_size :: u32 where
  "default_max_frame_size \<equiv> 4096"

record ProtocolLimits =
  pl_maximum_frame_size :: u32

definition default_protocol_limits :: ProtocolLimits where
  "default_protocol_limits = \<lparr>pl_maximum_frame_size = default_max_frame_size\<rparr>"

datatype MessageType = Command_envelope

definition message_type_code :: "MessageType \<Rightarrow> u16" where
  "message_type_code t = (case t of Command_envelope \<Rightarrow> 1)"

datatype ParseErrorCode =
    Parse_none
  | Truncated_header
  | Invalid_magic
  | Unsupported_protocol_version
  | Invalid_header_size
  | Frame_too_small
  | Frame_too_large
  | Reserved_flags_set
  | Unknown_message_type
  | Truncated_frame
  | Trailing_data
  | Payload_size_mismatch
  | Invalid_entity_id

definition parse_error_code_name :: "ParseErrorCode \<Rightarrow> string" where
  "parse_error_code_name code = (case code of
     Parse_none \<Rightarrow> ''none''
   | Truncated_header \<Rightarrow> ''truncated_header''
   | Invalid_magic \<Rightarrow> ''invalid_magic''
   | Unsupported_protocol_version \<Rightarrow> ''unsupported_protocol_version''
   | Invalid_header_size \<Rightarrow> ''invalid_header_size''
   | Frame_too_small \<Rightarrow> ''frame_too_small''
   | Frame_too_large \<Rightarrow> ''frame_too_large''
   | Reserved_flags_set \<Rightarrow> ''reserved_flags_set''
   | Unknown_message_type \<Rightarrow> ''unknown_message_type''
   | Truncated_frame \<Rightarrow> ''truncated_frame''
   | Trailing_data \<Rightarrow> ''trailing_data''
   | Payload_size_mismatch \<Rightarrow> ''payload_size_mismatch''
   | Invalid_entity_id \<Rightarrow> ''invalid_entity_id'')"

record FrameHeader =
  fh_version :: u16
  fh_header_size :: u16
  fh_frame_size :: u32
  fh_message_type :: MessageType
  fh_flags :: u16

record FrameView =
  fv_header :: FrameHeader
  fv_payload :: bytes

section \<open>The parser\<close>

definition read_u16 :: "bytes \<Rightarrow> nat \<Rightarrow> u16 result" where
  "read_u16 bs offset =
     bind_result (span_at bs offset) (\<lambda>b0.
     bind_result (span_at bs (offset + 1)) (\<lambda>b1.
     Inr (push_bit 8 (ucast b0) OR ucast b1)))"

definition read_u32 :: "bytes \<Rightarrow> nat \<Rightarrow> u32 result" where
  "read_u32 bs offset =
     bind_result (span_at bs offset) (\<lambda>b0.
     bind_result (span_at bs (offset + 1)) (\<lambda>b1.
     bind_result (span_at bs (offset + 2)) (\<lambda>b2.
     bind_result (span_at bs (offset + 3)) (\<lambda>b3.
     Inr (push_bit 24 (ucast b0) OR push_bit 16 (ucast b1) OR push_bit 8 (ucast b2) OR ucast b3)))))"

definition validate_limits :: "ProtocolLimits \<Rightarrow> unit result" where
  "validate_limits limits =
     (if unat (pl_maximum_frame_size limits) < frame_header_size then Inl Invalid_argument else Inr ())"

fun matches_from :: "bytes \<Rightarrow> nat \<Rightarrow> bytes \<Rightarrow> bool result" where
  "matches_from bs index [] = Inr True"
| "matches_from bs index (m # magic) =
     bind_result (span_at bs index) (\<lambda>b.
       if b \<noteq> m then Inr False else matches_from bs (index + 1) magic)"

definition has_valid_magic :: "bytes \<Rightarrow> bool result" where
  "has_valid_magic bs = matches_from bs 0 frame_magic"

definition decode_frame_header ::
  "bytes \<Rightarrow> ProtocolLimits \<Rightarrow> (ParseErrorCode + FrameHeader) result"
where
  "decode_frame_header bs limits =
     bind_result (validate_limits limits) (\<lambda>_.
     if length bs < frame_header_size then Inr (Inl Truncated_header)
     else bind_result (has_valid_magic bs) (\<lambda>magic_ok.
     if \<not> magic_ok then Inr (Inl Invalid_magic)
     else bind_result (read_u16 bs 4) (\<lambda>version.
     if version \<noteq> protocol_version then Inr (Inl Unsupported_protocol_version)
     else bind_result (read_u16 bs 6) (\<lambda>declared_header_size.
     if unat declared_header_size \<noteq> frame_header_size then Inr (Inl Invalid_header_size)
     else bind_result (read_u32 bs 8) (\<lambda>declared_frame_size.
     if unat declared_frame_size < frame_header_size then Inr (Inl Frame_too_small)
     else if declared_frame_size > pl_maximum_frame_size limits then Inr (Inl Frame_too_large)
     else bind_result (read_u16 bs 12) (\<lambda>message_type_value.
     bind_result (read_u16 bs 14) (\<lambda>flags.
     if flags \<noteq> 0 then Inr (Inl Reserved_flags_set)
     else if message_type_value \<noteq> message_type_code Command_envelope
     then Inr (Inl Unknown_message_type)
     else Inr (Inr \<lparr>fh_version = version, fh_header_size = declared_header_size,
                    fh_frame_size = declared_frame_size, fh_message_type = Command_envelope,
                    fh_flags = flags\<rparr>))))))))"

definition parse_frame :: "bytes \<Rightarrow> ProtocolLimits \<Rightarrow> (ParseErrorCode + FrameView) result" where
  "parse_frame bs limits =
     bind_result (decode_frame_header bs limits) (\<lambda>header_result. case header_result of
       Inl code \<Rightarrow> Inr (Inl code)
     | Inr header \<Rightarrow>
         let declared_size = unat (fh_frame_size header) in
         if length bs < declared_size then Inr (Inl Truncated_frame)
         else if length bs > declared_size then Inr (Inl Trailing_data)
         else bind_result (subspan bs frame_header_size) (\<lambda>payload.
           Inr (Inr \<lparr>fv_header = header, fv_payload = payload\<rparr>)))"

section \<open>Reads inside the buffer\<close>

lemma read_u16_eq: "offset + 2 \<le> length bs \<Longrightarrow> read_u16 bs offset = Inr (be_value (take 2 (drop offset bs)))"
  by (simp add: read_u16_def span_at_def take_two_nth be_value_two)

lemma read_u32_eq: "offset + 4 \<le> length bs \<Longrightarrow> read_u32 bs offset = Inr (be_value (take 4 (drop offset bs)))"
  by (simp add: read_u32_def span_at_def take_four_nth be_value_four)

lemma matches_from_eq:
  "index + length magic \<le> length bs \<Longrightarrow>
   matches_from bs index magic = Inr (take (length magic) (drop index bs) = magic)"
proof (induction magic arbitrary: index)
  case (Cons m magic)
  moreover from Cons.prems have "drop index bs = bs ! index # drop (Suc index) bs"
    by (simp add: Cons_nth_drop_Suc)
  ultimately show ?case
    by (auto simp: span_at_def)
qed simp

lemma length_frame_magic [simp]: "length frame_magic = 4"
  by (simp add: frame_magic_def)

lemma has_valid_magic_eq: "4 \<le> length bs \<Longrightarrow> has_valid_magic bs = Inr (take 4 bs = frame_magic)"
  using matches_from_eq [of 0 frame_magic bs] by (simp add: has_valid_magic_def)

section \<open>The header, as fields and as bytes\<close>

definition limits_ok :: "ProtocolLimits \<Rightarrow> bool" where
  "limits_ok limits \<longleftrightarrow> 16 \<le> unat (pl_maximum_frame_size limits)"

definition header_for :: "u32 \<Rightarrow> FrameHeader" where
  "header_for n = \<lparr>fh_version = protocol_version, fh_header_size = 16, fh_frame_size = n,
     fh_message_type = Command_envelope, fh_flags = 0\<rparr>"

definition header_bytes :: "u32 \<Rightarrow> bytes" where
  "header_bytes n = frame_magic @ be16 protocol_version @ be16 16 @ be32 n @ be16 1 @ be16 0"

text \<open>The checks of the parser in the order in which it makes them.\<close>

definition header_checks :: "bytes \<Rightarrow> ProtocolLimits \<Rightarrow> (bool \<times> ParseErrorCode) list" where
  "header_checks bs limits =
     [(length bs < 16, Truncated_header),
      (take 4 bs \<noteq> frame_magic, Invalid_magic),
      (be_value (take 2 (drop 4 bs)) \<noteq> protocol_version, Unsupported_protocol_version),
      (be_value (take 2 (drop 6 bs)) \<noteq> (16 :: u16), Invalid_header_size),
      (unat (be_value (take 4 (drop 8 bs)) :: u32) < 16, Frame_too_small),
      (be_value (take 4 (drop 8 bs)) > pl_maximum_frame_size limits, Frame_too_large),
      (be_value (take 2 (drop 14 bs)) \<noteq> (0 :: u16), Reserved_flags_set),
      (be_value (take 2 (drop 12 bs)) \<noteq> (1 :: u16), Unknown_message_type)]"

lemma length_header_bytes [simp, width_simps]: "length (header_bytes n) = 16"
  by (simp add: header_bytes_def frame_magic_def)

lemma decode_frame_header_eq:
  assumes "limits_ok limits"
  shows "decode_frame_header bs limits =
    Inr (case first_failure (header_checks bs limits) of
           Some code \<Rightarrow> Inl code
         | None \<Rightarrow> Inr (header_for (be_value (take 4 (drop 8 bs)))))"
proof -
  have "validate_limits limits = Inr ()"
    using assms by (simp add: validate_limits_def limits_ok_def)
  moreover have "unat w = 16 \<longleftrightarrow> w = 16" for w :: u16
    by (simp add: word_unat_eq_iff)
  ultimately show ?thesis
    by (simp add: decode_frame_header_def has_valid_magic_eq read_u16_eq read_u32_eq message_type_code_def
      header_checks_def header_for_def)
qed

lemma decode_frame_header_invalid_limits:
  "\<not> limits_ok limits \<Longrightarrow> decode_frame_header bs limits = Inl Invalid_argument"
  by (simp add: decode_frame_header_def validate_limits_def limits_ok_def)

text \<open>Acceptance: the first sixteen bytes are the header of a size within the limits.\<close>

lemma header_split:
  assumes "16 \<le> length bs"
  shows "bs = take 4 bs @ take 2 (drop 4 bs) @ take 2 (drop 6 bs) @ take 4 (drop 8 bs) @
     take 2 (drop 12 bs) @ take 2 (drop 14 bs) @ drop 16 bs"
  using take_add_drop [of 2 14 bs] take_add_drop [of 2 12 bs] take_add_drop [of 4 8 bs]
    take_add_drop [of 2 6 bs] take_add_drop [of 2 4 bs] by simp

lemma decode_frame_header_iff:
  assumes "limits_ok limits"
  shows "decode_frame_header bs limits = Inr (Inr h) \<longleftrightarrow>
    (\<exists>n rest. bs = header_bytes n @ rest \<and> h = header_for n \<and>
       16 \<le> unat n \<and> n \<le> pl_maximum_frame_size limits)" (is "?L \<longleftrightarrow> ?R")
proof
  assume ?R
  then show ?L
    by (auto simp: decode_frame_header_eq [OF assms] header_checks_def header_bytes_def
      frame_magic_def)
next
  assume ?L
  then have len: "16 \<le> length bs" and f: "take 4 bs = frame_magic"
      "be_value (take 2 (drop 4 bs)) = protocol_version" "be_value (take 2 (drop 6 bs)) = (16 :: u16)"
      "be_value (take 2 (drop 14 bs)) = (0 :: u16)" "be_value (take 2 (drop 12 bs)) = (1 :: u16)"
      "16 \<le> unat (be_value (take 4 (drop 8 bs)) :: u32)"
      "be_value (take 4 (drop 8 bs)) \<le> pl_maximum_frame_size limits"
      "h = header_for (be_value (take 4 (drop 8 bs)))"
    by (auto simp: decode_frame_header_eq [OF assms] header_checks_def
      split: if_splits option.splits)
  have fields: "take 2 (drop 4 bs) = be16 1" "take 2 (drop 6 bs) = be16 16"
      "take 2 (drop 12 bs) = be16 1" "take 2 (drop 14 bs) = be16 0"
      "take 4 (drop 8 bs) = be32 (be_value (take 4 (drop 8 bs)))"
    using len f(2-5) be_be_value(1) [of "take 2 (drop 4 bs)"] be_be_value(1) [of "take 2 (drop 6 bs)"]
      be_be_value(1) [of "take 2 (drop 12 bs)"] be_be_value(1) [of "take 2 (drop 14 bs)"] by simp_all
  have "bs = header_bytes (be_value (take 4 (drop 8 bs))) @ drop 16 bs"
    unfolding header_bytes_def
    by (subst header_split [OF len]) (simp only: f(1) fields(1-4) append_assoc fields(5) [symmetric])
  then show ?R
    using f by blast
qed

section \<open>Properties\<close>

definition frame_checks :: "bytes \<Rightarrow> ProtocolLimits \<Rightarrow> (bool \<times> ParseErrorCode) list" where
  "frame_checks bs limits = header_checks bs limits @
     [(length bs < unat (be_value (take 4 (drop 8 bs)) :: u32), Truncated_frame),
      (length bs > unat (be_value (take 4 (drop 8 bs)) :: u32), Trailing_data)]"

lemma parse_frame_eq:
  assumes "limits_ok limits"
  shows "parse_frame bs limits =
    Inr (case first_failure (frame_checks bs limits) of
           Some code \<Rightarrow> Inl code
         | None \<Rightarrow> Inr \<lparr>fv_header = header_for (be_value (take 4 (drop 8 bs))), fv_payload = drop 16 bs\<rparr>)"
proof (cases "first_failure (header_checks bs limits)")
  case None
  then have "16 \<le> length bs"
    by (simp add: header_checks_def split: if_split_asm)
  then have span: "subspan bs 16 = Inr (drop 16 bs)"
    by (simp add: subspan_def)
  define v where "v = (be_value (take 4 (drop 8 bs)) :: u32)"
  have "decode_frame_header bs limits = Inr (Inr (header_for v))"
    using None by (simp add: decode_frame_header_eq [OF assms] v_def)
  moreover have "fh_frame_size (header_for v) = v"
    by (simp add: header_for_def)
  ultimately show ?thesis
    by (simp add: parse_frame_def frame_checks_def first_failure_append None span flip: v_def)
next
  case (Some code)
  then show ?thesis
    by (simp add: parse_frame_def decode_frame_header_eq [OF assms] frame_checks_def first_failure_append)
qed

text \<open>The payload of an accepted frame and its length.\<close>

definition frame_bytes :: "bytes \<Rightarrow> bytes" where
  "frame_bytes payload = header_bytes (of_nat (16 + length payload)) @ payload"

lemma parse_frame_accepts:
  assumes "limits_ok limits"
  shows "parse_frame bs limits = Inr (Inr view) \<longleftrightarrow>
    bs = frame_bytes (fv_payload view) \<and> length bs \<le> unat (pl_maximum_frame_size limits) \<and>
    view = \<lparr>fv_header = header_for (of_nat (length bs)), fv_payload = fv_payload view\<rparr>"
    (is "?L \<longleftrightarrow> ?R")
proof
  assume ?L
  then obtain h where h: "decode_frame_header bs limits = Inr (Inr h)" "length bs = unat (fh_frame_size h)"
      "16 \<le> length bs" "view = \<lparr>fv_header = h, fv_payload = drop 16 bs\<rparr>"
    by (cases "decode_frame_header bs limits"; cases "projr (decode_frame_header bs limits)")
      (auto simp: parse_frame_def Let_def subspan_def split: if_split_asm)
  then obtain n rest where n: "bs = header_bytes n @ rest" "h = header_for n" "n \<le> pl_maximum_frame_size limits"
    using decode_frame_header_iff [OF assms] by blast
  have u: "unat n = length bs"
    using h(2) n(2) by (simp add: header_for_def)
  then have of: "of_nat (length bs) = n"
    by (simp flip: u)
  have rest: "drop 16 bs = rest" "16 + length rest = length bs"
    by (simp_all add: n(1))
  have "bs = frame_bytes rest"
    unfolding frame_bytes_def rest(2) of by (rule n(1))
  moreover have "length bs \<le> unat (pl_maximum_frame_size limits)"
    using n(3) u by (simp add: word_le_nat_alt)
  moreover have "view = \<lparr>fv_header = header_for (of_nat (length bs)), fv_payload = rest\<rparr>"
    by (simp only: h(4) n(2) rest(1) of)
  ultimately show ?R
    by (metis FrameView.select_convs(2))
next
  assume ?R
  then have bs: "bs = frame_bytes (fv_payload view)" and max: "length bs \<le> unat (pl_maximum_frame_size limits)"
      and view: "view = \<lparr>fv_header = header_for (of_nat (length bs)), fv_payload = fv_payload view\<rparr>"
    by blast+
  let ?n = "of_nat (length bs) :: u32"
  have "length bs < 2 ^ 32"
    using max unsigned_less [of "pl_maximum_frame_size limits", where ?'a = nat] by simp
  then have u: "unat ?n = length bs"
    by (simp add: unsigned_of_nat take_bit_nat_eq_self)
  have len: "16 + length (fv_payload view) = length bs"
    by (subst bs) (simp add: frame_bytes_def)
  have split: "bs = header_bytes ?n @ fv_payload view"
    using bs unfolding frame_bytes_def len .
  have "decode_frame_header bs limits = Inr (Inr (header_for ?n))"
    using split u len max by (subst decode_frame_header_iff [OF assms]) (auto simp: word_le_nat_alt)
  moreover have "subspan bs 16 = Inr (fv_payload view)"
    using len by (subst split) (simp add: subspan_def)
  ultimately show ?L
    using u view by (simp add: parse_frame_def header_for_def)
qed

text \<open>C32: The frame parser is memory safe and total: on every byte string it returns a value
  or one of its error codes, without reading outside the buffer, and it throws
  \<open>std::invalid_argument\<close> exactly when the configured maximum is smaller than a header.\<close>

theorem frame_parser_safe:
  "if limits_ok limits
   then (\<exists>r. decode_frame_header bs limits = Inr r) \<and> (\<exists>r. parse_frame bs limits = Inr r)
   else decode_frame_header bs limits = Inl Invalid_argument \<and> parse_frame bs limits = Inl Invalid_argument"
proof (cases "limits_ok limits")
  case True
  then show ?thesis by (simp add: decode_frame_header_eq parse_frame_eq)
next
  case False
  then show ?thesis by (simp add: decode_frame_header_invalid_limits parse_frame_def)
qed

text \<open>C31: The parser reports the first check that fails, in the documented order: length,
  magic, version, header size, frame size against both bounds, reserved flags, message
  type, and then the declared size against the bytes at hand; when no check fails it returns
  the header and exactly the bytes after it.\<close>

theorem frame_rejection_order:
  assumes "limits_ok limits"
  shows "parse_frame bs limits =
    Inr (case first_failure (frame_checks bs limits) of
           Some code \<Rightarrow> Inl code
         | None \<Rightarrow> Inr \<lparr>fv_header = header_for (be_value (take 4 (drop 8 bs))), fv_payload = drop 16 bs\<rparr>)"
  using assms by (rule parse_frame_eq)

definition demo_frame :: bytes where
  "demo_frame = frame_magic @ [0, 1, 0, 16, 0, 0, 0, 18, 0, 1, 0, 0, 7, 9]"

theorem frame_rejection_order_witness:
  "limits_ok default_protocol_limits \<and>
   parse_frame demo_frame default_protocol_limits =
     Inr (Inr \<lparr>fv_header = header_for 18, fv_payload = [7, 9]\<rparr>) \<and>
   parse_frame (demo_frame[5 := 2, 7 := 0]) default_protocol_limits =
     Inr (Inl Unsupported_protocol_version)"
proof -
  have "limits_ok default_protocol_limits" by code_simp
  moreover from frame_rejection_order [OF this, of demo_frame]
  have "parse_frame demo_frame default_protocol_limits =
     Inr (Inr \<lparr>fv_header = header_for 18, fv_payload = [7, 9]\<rparr>)" by code_simp
  moreover from frame_rejection_order [OF calculation(1), of "demo_frame[5 := 2, 7 := 0]"]
  have "parse_frame (demo_frame[5 := 2, 7 := 0]) default_protocol_limits =
     Inr (Inl Unsupported_protocol_version)" by code_simp
  ultimately show ?thesis by blast
qed

text \<open>C28: A frame is accepted exactly when it is the canonical framing of its payload and
  fits the configured maximum: every accepted frame has one encoding, and every payload that
  fits is accepted.\<close>

theorem parse_frame_canonical:
  assumes "limits_ok limits"
  shows "parse_frame bs limits = Inr (Inr view) \<longleftrightarrow>
    bs = frame_bytes (fv_payload view) \<and> length bs \<le> unat (pl_maximum_frame_size limits) \<and>
    view = \<lparr>fv_header = header_for (of_nat (length bs)), fv_payload = fv_payload view\<rparr>"
  using assms by (rule parse_frame_accepts)

theorem parse_frame_canonical_witness:
  "limits_ok default_protocol_limits \<and>
   parse_frame (frame_bytes [7, 9]) default_protocol_limits =
     Inr (Inr \<lparr>fv_header = header_for 18, fv_payload = [7, 9]\<rparr>)"
proof -
  have ok: "limits_ok default_protocol_limits" by code_simp
  have "length (frame_bytes [7, 9]) = 18"
    by (simp add: frame_bytes_def)
  then show ?thesis
    using ok parse_frame_canonical [OF ok, of "frame_bytes [7, 9]" "\<lparr>fv_header = header_for 18, fv_payload = [7, 9]\<rparr>"]
    by (simp add: default_protocol_limits_def)
qed

end
