(* ===== verification/Envelope_Codec.thy ===== *)
theory Envelope_Codec
  imports Frame Units
begin

text \<open>
  The command envelope of \<open>command/command_envelope.hpp\<close> and its wire format,
  \<open>protocol/command_envelope_codec.cpp\<close>: a payload of 60 bytes, and the frame of 76 bytes
  that carries it. The payload codec and the frame codec are interpretations of
  \<open>fixed_width_codec\<close>.
\<close>

section \<open>The envelope\<close>

abbreviation command_schema_version :: u16 where
  "command_schema_version \<equiv> 1"

text \<open>
  The enumeration has a fixed underlying type and the decoder casts any 16-bit value to it,
  so a command type is its code; \<open>Set_velocity\<close> is the one named value.
\<close>

datatype CommandType = CommandType (ct_code: u16)

definition Set_velocity :: CommandType where
  "Set_velocity = CommandType 1"

datatype ClientId = ClientId (cid_value: u64)

datatype SessionId = SessionId (sid_value: u64)

definition client_id_valid :: "ClientId \<Rightarrow> bool" where
  "client_id_valid c \<longleftrightarrow> cid_value c \<noteq> 0"

definition session_id_valid :: "SessionId \<Rightarrow> bool" where
  "session_id_valid s \<longleftrightarrow> sid_value s \<noteq> 0"

record SetVelocityPayload =
  sv_entity_id :: EntityId
  sv_velocity :: Velocity2

record CommandEnvelope =
  ce_schema_version :: u16
  ce_type :: CommandType
  ce_client_id :: ClientId
  ce_session_id :: SessionId
  ce_sequence :: u64
  ce_target_tick :: u64
  ce_payload :: SetVelocityPayload

section \<open>Encoding\<close>

abbreviation command_envelope_payload_size :: nat where
  "command_envelope_payload_size \<equiv> 60"

abbreviation command_frame_size :: nat where
  "command_frame_size \<equiv> frame_header_size + command_envelope_payload_size"

definition write_u16 :: "bytes \<Rightarrow> nat \<Rightarrow> u16 \<Rightarrow> bytes result" where
  "write_u16 bs offset value =
     bind_result (span_set bs offset (ucast (drop_bit 8 value))) (\<lambda>bs.
     span_set bs (offset + 1) (ucast value))"

definition write_u32 :: "bytes \<Rightarrow> nat \<Rightarrow> u32 \<Rightarrow> bytes result" where
  "write_u32 bs offset value =
     bind_result (span_set bs offset (ucast (drop_bit 24 value))) (\<lambda>bs.
     bind_result (span_set bs (offset + 1) (ucast (drop_bit 16 value))) (\<lambda>bs.
     bind_result (span_set bs (offset + 2) (ucast (drop_bit 8 value))) (\<lambda>bs.
     span_set bs (offset + 3) (ucast value))))"

definition write_u64 :: "bytes \<Rightarrow> nat \<Rightarrow> u64 \<Rightarrow> bytes result" where
  "write_u64 bs offset value =
     foldl (\<lambda>r index. bind_result r (\<lambda>bs.
       span_set bs (offset + index) (ucast (drop_bit ((7 - index) * 8) value)))) (Inr bs) [0..<8]"

definition codec_read_u16 :: "bytes \<Rightarrow> nat \<Rightarrow> u16 result" where
  "codec_read_u16 bs offset =
     bind_result (span_at bs offset) (\<lambda>b0.
     bind_result (span_at bs (offset + 1)) (\<lambda>b1.
     Inr (push_bit 8 (ucast b0) OR ucast b1)))"

definition codec_read_u64 :: "bytes \<Rightarrow> nat \<Rightarrow> u64 result" where
  "codec_read_u64 bs offset =
     foldl (\<lambda>r index. bind_result r (\<lambda>value. bind_result (span_at bs (offset + index)) (\<lambda>b.
       Inr (push_bit 8 value OR ucast b)))) (Inr 0) [0..<8]"

definition encode_payload :: "CommandEnvelope \<Rightarrow> bytes \<Rightarrow> bytes result" where
  "encode_payload envelope bs =
     bind_result (write_u16 bs 0 (ce_schema_version envelope)) (\<lambda>bs.
     bind_result (write_u16 bs 2 (ct_code (ce_type envelope))) (\<lambda>bs.
     bind_result (write_u64 bs 4 (cid_value (ce_client_id envelope))) (\<lambda>bs.
     bind_result (write_u64 bs 12 (sid_value (ce_session_id envelope))) (\<lambda>bs.
     bind_result (write_u64 bs 20 (ce_sequence envelope)) (\<lambda>bs.
     bind_result (write_u64 bs 28 (ce_target_tick envelope)) (\<lambda>bs.
     bind_result (write_u64 bs 36 (eid_value (sv_entity_id (ce_payload envelope)))) (\<lambda>bs.
     bind_result (write_u64 bs 44 (mmps_count (v_x (sv_velocity (ce_payload envelope))))) (\<lambda>bs.
     write_u64 bs 52 (mmps_count (v_y (sv_velocity (ce_payload envelope))))))))))))"

definition encode_command_envelope :: "CommandEnvelope \<Rightarrow> bytes result" where
  "encode_command_envelope envelope = encode_payload envelope (replicate command_envelope_payload_size 0)"

definition encode_command_frame :: "CommandEnvelope \<Rightarrow> bytes result" where
  "encode_command_frame envelope =
     bind_result (foldl (\<lambda>r index. bind_result r (\<lambda>output. span_set output index (frame_magic ! index)))
        (Inr (replicate command_frame_size 0)) [0..<length frame_magic]) (\<lambda>output.
     bind_result (write_u16 output 4 protocol_version) (\<lambda>output.
     bind_result (write_u16 output 6 (of_nat frame_header_size)) (\<lambda>output.
     bind_result (write_u32 output 8 (of_nat command_frame_size)) (\<lambda>output.
     bind_result (write_u16 output 12 (message_type_code Command_envelope)) (\<lambda>output.
     bind_result (write_u16 output 14 0) (\<lambda>output.
     bind_result (subspan output frame_header_size) (\<lambda>view.
     bind_result (encode_payload envelope view) (\<lambda>view.
     Inr (take frame_header_size output @ view)))))))))"

section \<open>Decoding\<close>

definition decode_command_envelope :: "bytes \<Rightarrow> (ParseErrorCode + CommandEnvelope) result" where
  "decode_command_envelope payload =
     (if length payload \<noteq> command_envelope_payload_size then Inr (Inl Payload_size_mismatch)
      else bind_result (codec_read_u64 payload 36) (\<lambda>entity_id.
      if entity_id = 0 then Inr (Inl Invalid_entity_id)
      else bind_result (codec_read_u16 payload 0) (\<lambda>schema_version.
      bind_result (codec_read_u16 payload 2) (\<lambda>type_code.
      bind_result (codec_read_u64 payload 4) (\<lambda>client_id.
      bind_result (codec_read_u64 payload 12) (\<lambda>session_id.
      bind_result (codec_read_u64 payload 20) (\<lambda>sequence.
      bind_result (codec_read_u64 payload 28) (\<lambda>target_tick.
      bind_result (make_entity_id entity_id) (\<lambda>entity_id.
      bind_result (codec_read_u64 payload 44) (\<lambda>x.
      bind_result (codec_read_u64 payload 52) (\<lambda>y.
      Inr (Inr \<lparr>ce_schema_version = schema_version, ce_type = CommandType type_code,
        ce_client_id = ClientId client_id, ce_session_id = SessionId session_id,
        ce_sequence = sequence, ce_target_tick = target_tick,
        ce_payload = \<lparr>sv_entity_id = entity_id,
          sv_velocity = \<lparr>v_x = MillimetersPerSecond x, v_y = MillimetersPerSecond y\<rparr>\<rparr>\<rparr>))))))))))))"

definition decode_command_frame ::
  "bytes \<Rightarrow> ProtocolLimits \<Rightarrow> (ParseErrorCode + CommandEnvelope) result"
where
  "decode_command_frame bs limits =
     bind_result (parse_frame bs limits) (\<lambda>frame_result. case frame_result of
       Inl code \<Rightarrow> Inr (Inl code)
     | Inr frame \<Rightarrow> decode_command_envelope (fv_payload frame))"

section \<open>The layout\<close>

definition envelope_bytes :: "CommandEnvelope \<Rightarrow> bytes" where
  "envelope_bytes e =
     be16 (ce_schema_version e) @ be16 (ct_code (ce_type e)) @
     be64 (cid_value (ce_client_id e)) @ be64 (sid_value (ce_session_id e)) @
     be64 (ce_sequence e) @ be64 (ce_target_tick e) @
     be64 (eid_value (sv_entity_id (ce_payload e))) @
     be64 (mmps_count (v_x (sv_velocity (ce_payload e)))) @
     be64 (mmps_count (v_y (sv_velocity (ce_payload e))))"

text \<open>The constructor of \<open>EntityId\<close> excludes zero.\<close>

definition envelope_ok :: "CommandEnvelope \<Rightarrow> bool" where
  "envelope_ok e \<longleftrightarrow> eid_value (sv_entity_id (ce_payload e)) \<noteq> 0"

lemma length_envelope_bytes [simp, width_simps]: "length (envelope_bytes e) = 60"
  by (simp add: envelope_bytes_def)

lemma write_u16_eq: "offset + 2 \<le> length bs \<Longrightarrow> write_u16 bs offset v = Inr (overwrite offset (be16 v) bs)"
  using overwrite_snoc [of offset "[]" bs "byte_at v 8"] overwrite_snoc [of offset "[byte_at v 8]" bs "byte_at v 0"]
  by (simp add: write_u16_def span_set_def be16_def byte_at_cast)

lemma write_u32_eq: "offset + 4 \<le> length bs \<Longrightarrow> write_u32 bs offset v = Inr (overwrite offset (be32 v) bs)"
  using overwrite_snoc [of offset "[]" bs "byte_at v 24"]
    overwrite_snoc [of offset "[byte_at v 24]" bs "byte_at v 16"]
    overwrite_snoc [of offset "[byte_at v 24, byte_at v 16]" bs "byte_at v 8"]
    overwrite_snoc [of offset "[byte_at v 24, byte_at v 16, byte_at v 8]" bs "byte_at v 0"]
  by (simp add: write_u32_def span_set_def be32_def byte_at_cast numeral_eq_Suc)

lemma write_u64_eq: "offset + 8 \<le> length bs \<Longrightarrow> write_u64 bs offset v = Inr (overwrite offset (be64 v) bs)"
proof -
  assume le: "offset + 8 \<le> length bs"
  have "map (\<lambda>i. ucast (drop_bit ((7 - i) * 8) v) :: u8) [0..<8] = be64 v"
    by (simp add: be64_def byte_at_cast upt_rec)
  then show ?thesis
    using write_loop [OF le, of "\<lambda>i. ucast (drop_bit ((7 - i) * 8) v)"] by (simp only: write_u64_def)
qed

lemma codec_read_u16_eq:
  "offset + 2 \<le> length bs \<Longrightarrow> codec_read_u16 bs offset = Inr (be_value (take 2 (drop offset bs)))"
  by (simp add: codec_read_u16_def span_at_def take_two_nth be_value_two)

lemma codec_read_u64_eq:
  "offset + 8 \<le> length bs \<Longrightarrow> codec_read_u64 bs offset = Inr (be_value (take 8 (drop offset bs)))"
  unfolding codec_read_u64_def by (rule read_loop)

lemmas field_writes = write_u16_eq write_u32_eq write_u64_eq
lemmas field_reads = codec_read_u16_eq codec_read_u64_eq

lemma encode_payload_eq:
  "length bs = 60 \<Longrightarrow> encode_payload e bs = Inr (envelope_bytes e)"
  by (simp add: encode_payload_def field_writes envelope_bytes_def) (simp add: overwrite_def)

lemma encode_command_envelope_eq: "encode_command_envelope e = Inr (envelope_bytes e)"
  by (simp add: encode_command_envelope_def encode_payload_eq)

lemma encode_command_frame_eq: "encode_command_frame e = Inr (frame_bytes (envelope_bytes e))"
proof -
  have "map (\<lambda>i. frame_magic ! i) [0..<4] = frame_magic"
    by (simp add: frame_magic_def upt_rec)
  then have magic: "foldl (\<lambda>r i. bind_result r (\<lambda>output. span_set output i (frame_magic ! i)))
      (Inr (replicate 76 0)) [0..<4] = Inr (overwrite 0 frame_magic (replicate 76 0))"
    using write_loop [of 0 4 "replicate 76 0" "\<lambda>i. frame_magic ! i"] by simp
  show ?thesis
    by (simp add: encode_command_frame_def magic field_writes subspan_def encode_payload_eq message_type_code_def)
      (simp add: overwrite_def frame_bytes_def header_bytes_def)
qed

section \<open>Round trips\<close>

lemma payload_split:
  assumes "length bs = 60"
  shows "bs = take 2 bs @ take 2 (drop 2 bs) @ take 8 (drop 4 bs) @ take 8 (drop 12 bs) @ take 8 (drop 20 bs) @
     take 8 (drop 28 bs) @ take 8 (drop 36 bs) @ take 8 (drop 44 bs) @ take 8 (drop 52 bs)"
  using take_add_drop [of 2 2 bs] take_add_drop [of 8 4 bs] take_add_drop [of 8 12 bs]
    take_add_drop [of 8 20 bs] take_add_drop [of 8 28 bs] take_add_drop [of 8 36 bs]
    take_add_drop [of 8 44 bs] take_add_drop [of 8 52 bs] assms by simp

text \<open>The envelope at given field positions, as the decoder assembles it.\<close>

definition envelope_at :: "bytes \<Rightarrow> CommandEnvelope" where
  "envelope_at bs =
     \<lparr>ce_schema_version = be_value (take 2 bs), ce_type = CommandType (be_value (take 2 (drop 2 bs))),
      ce_client_id = ClientId (be_value (take 8 (drop 4 bs))),
      ce_session_id = SessionId (be_value (take 8 (drop 12 bs))),
      ce_sequence = be_value (take 8 (drop 20 bs)), ce_target_tick = be_value (take 8 (drop 28 bs)),
      ce_payload = \<lparr>sv_entity_id = EntityId (be_value (take 8 (drop 36 bs))),
        sv_velocity = \<lparr>v_x = MillimetersPerSecond (be_value (take 8 (drop 44 bs))),
                       v_y = MillimetersPerSecond (be_value (take 8 (drop 52 bs)))\<rparr>\<rparr>\<rparr>"

lemma decode_command_envelope_eq:
  "decode_command_envelope bs =
     Inr (if length bs \<noteq> 60 then Inl Payload_size_mismatch
          else if be_value (take 8 (drop 36 bs)) = (0 :: u64) then Inl Invalid_entity_id
          else Inr (envelope_at bs))"
  by (simp add: decode_command_envelope_def field_reads make_entity_id_def envelope_at_def)

lemma envelope_at_bytes: "envelope_at (envelope_bytes e) = e"
  by (simp add: envelope_at_def envelope_bytes_def)

lemma envelope_bytes_at:
  assumes "length bs = 60"
  shows "envelope_bytes (envelope_at bs) = bs"
  using payload_split [OF assms] assms by (simp add: envelope_at_def envelope_bytes_def)

lemma decode_command_envelope_iff:
  "decode_command_envelope bs = Inr (Inr e) \<longleftrightarrow> envelope_ok e \<and> bs = envelope_bytes e"
proof -
  have ok: "envelope_ok (envelope_at bs) \<longleftrightarrow> be_value (take 8 (drop 36 bs)) \<noteq> (0 :: u64)"
    by (simp add: envelope_ok_def envelope_at_def)
  show ?thesis
  proof
    assume "decode_command_envelope bs = Inr (Inr e)"
    then show "envelope_ok e \<and> bs = envelope_bytes e"
      using ok envelope_bytes_at [of bs] by (auto simp: decode_command_envelope_eq split: if_splits)
  next
    assume "envelope_ok e \<and> bs = envelope_bytes e"
    then show "decode_command_envelope bs = Inr (Inr e)"
      using ok by (auto simp: decode_command_envelope_eq envelope_at_bytes)
  qed
qed

interpretation envelope_codec: fixed_width_codec encode_command_envelope decode_command_envelope envelope_ok
  command_envelope_payload_size
  by unfold_locales (auto simp: encode_command_envelope_eq decode_command_envelope_iff)

lemma decode_command_frame_iff:
  assumes "76 \<le> unat (pl_maximum_frame_size limits)"
  shows "decode_command_frame bs limits = Inr (Inr e) \<longleftrightarrow> envelope_ok e \<and> bs = frame_bytes (envelope_bytes e)"
proof -
  have ok: "limits_ok limits"
    using assms by (simp add: limits_ok_def)
  have len: "length (frame_bytes (envelope_bytes e)) = 76"
    by (simp add: frame_bytes_def)
  show ?thesis
  proof
    assume "decode_command_frame bs limits = Inr (Inr e)"
    then obtain view where "parse_frame bs limits = Inr (Inr view)"
        "decode_command_envelope (fv_payload view) = Inr (Inr e)"
      by (auto simp: decode_command_frame_def result_simps)
    then show "envelope_ok e \<and> bs = frame_bytes (envelope_bytes e)"
      by (simp add: parse_frame_accepts [OF ok] decode_command_envelope_iff)
  next
    assume R: "envelope_ok e \<and> bs = frame_bytes (envelope_bytes e)"
    then have "parse_frame bs limits = Inr (Inr \<lparr>fv_header = header_for (of_nat (length bs)), fv_payload = envelope_bytes e\<rparr>)"
      using assms len by (simp add: parse_frame_accepts [OF ok])
    then show "decode_command_frame bs limits = Inr (Inr e)"
      using R by (simp add: decode_command_frame_def decode_command_envelope_iff)
  qed
qed

lemma default_limits_hold: "76 \<le> unat (pl_maximum_frame_size default_protocol_limits)" "limits_ok default_protocol_limits"
  by (simp_all add: default_protocol_limits_def limits_ok_def)

interpretation frame_codec: fixed_width_codec encode_command_frame
  "\<lambda>bs. decode_command_frame bs default_protocol_limits" envelope_ok command_frame_size
  by unfold_locales
    (auto simp: encode_command_frame_eq decode_command_frame_iff default_limits_hold frame_bytes_def)

text \<open>Decoding a command frame never leaves defined behaviour: for valid limits every byte
  string yields an envelope or an error code, and an envelope it yields names a non-zero
  entity, whatever its other fields are.\<close>

lemma decode_command_frame_total:
  assumes "limits_ok limits"
  shows "\<exists>r. decode_command_frame bs limits = Inr r \<and>
    (case r of Inl code \<Rightarrow> code \<noteq> Parse_none | Inr e \<Rightarrow> envelope_ok e)"
proof (cases "first_failure (frame_checks bs limits)")
  case None
  have "\<exists>r. decode_command_envelope payload = Inr r \<and>
      (case r of Inl code \<Rightarrow> code \<noteq> Parse_none | Inr e \<Rightarrow> envelope_ok e)" for payload
    by (simp add: decode_command_envelope_eq envelope_ok_def envelope_at_def)
  with None show ?thesis
    by (simp add: decode_command_frame_def parse_frame_eq [OF assms])
next
  case (Some code)
  then have "code \<noteq> Parse_none"
    using first_failure_in [OF Some] by (auto simp: frame_checks_def header_checks_def)
  with Some show ?thesis
    by (simp add: decode_command_frame_def parse_frame_eq [OF assms])
qed

text \<open>C33: Command frames round-trip, and decoding is total and memory safe. Every envelope
  is encoded into 76 bytes that decode to it; under limits that admit a command frame, every
  byte string is decoded without an out-of-bounds access or an exception, to an error code or
  to an envelope with a non-zero entity; and it is decoded to an envelope exactly when it is
  what the encoder writes for that envelope.\<close>

theorem command_frame_roundtrip:
  assumes "76 \<le> unat (pl_maximum_frame_size limits)" and "envelope_ok e"
  shows "(\<exists>bs. encode_command_frame e = Inr bs \<and> length bs = command_frame_size \<and>
            decode_command_frame bs limits = Inr (Inr e)) \<and>
    (\<exists>r. decode_command_frame bs' limits = Inr r \<and>
       (case r of Inl code \<Rightarrow> code \<noteq> Parse_none | Inr e' \<Rightarrow> envelope_ok e')) \<and>
    (decode_command_frame bs' limits = Inr (Inr e) \<longleftrightarrow> encode_command_frame e = Inr bs')"
proof -
  have "limits_ok limits"
    using assms(1) by (simp add: limits_ok_def)
  note total = decode_command_frame_total [OF this, of bs']
  show ?thesis
    using assms by (intro conjI total) (auto simp: encode_command_frame_eq decode_command_frame_iff frame_bytes_def)
qed

definition demo_envelope :: CommandEnvelope where
  "demo_envelope = \<lparr>ce_schema_version = 1, ce_type = Set_velocity, ce_client_id = ClientId 5,
     ce_session_id = SessionId 9, ce_sequence = 1, ce_target_tick = 2,
     ce_payload = \<lparr>sv_entity_id = EntityId 7,
       sv_velocity = \<lparr>v_x = MillimetersPerSecond 1500, v_y = MillimetersPerSecond (- 250)\<rparr>\<rparr>\<rparr>"

theorem command_frame_roundtrip_witness:
  "76 \<le> unat (pl_maximum_frame_size default_protocol_limits) \<and> envelope_ok demo_envelope \<and>
   (\<exists>bs. encode_command_frame demo_envelope = Inr bs \<and> length bs = command_frame_size \<and>
      decode_command_frame bs default_protocol_limits = Inr (Inr demo_envelope)) \<and>
   (\<exists>r. decode_command_frame [1, 2, 3] default_protocol_limits = Inr r)"
proof -
  have "envelope_ok demo_envelope"
    by (simp add: envelope_ok_def demo_envelope_def)
  with command_frame_roundtrip [OF default_limits_hold(1) this, of "[1, 2, 3]"] default_limits_hold(1) show ?thesis
    by blast
qed

end
