(* ===== verification/Stream_Parser.thy ===== *)
theory Stream_Parser
  imports Envelope_Codec "HOL-Library.Sublist"
begin

text \<open>
  The incremental parser of \<open>protocol/stream_parser.cpp\<close>, which cuts a byte stream that
  arrives in arbitrary chunks into frames. The specification is a function of the whole
  stream, \<open>scan\<close>; the parser is proved to reach the state it determines whatever the chunks
  are, and to hand out its frames up to the chunk in which a header is unacceptable.
\<close>

section \<open>State and operations\<close>

record OwnedFrame =
  of_header :: FrameHeader
  of_payload :: bytes

record FrameStreamParser =
  sp_limits :: ProtocolLimits
  sp_buffer :: bytes
  sp_current_header :: "FrameHeader option"
  sp_failure :: "ParseErrorCode option"

definition make_stream_parser :: "ProtocolLimits \<Rightarrow> FrameStreamParser result" where
  "make_stream_parser limits =
     (if unat (pl_maximum_frame_size limits) < frame_header_size then Inl Invalid_argument
      else Inr \<lparr>sp_limits = limits, sp_buffer = [], sp_current_header = None, sp_failure = None\<rparr>)"

text \<open>Subtraction of \<open>std::size_t\<close> values wraps around.\<close>

definition size_sub :: "nat \<Rightarrow> nat \<Rightarrow> nat" where
  "size_sub a b = (if b \<le> a then a - b else u64_limit + a - b)"

text \<open>The two places that move input into the buffer, up to a target size.\<close>

definition fill_buffer ::
  "FrameStreamParser \<Rightarrow> bytes \<Rightarrow> nat \<Rightarrow> nat \<Rightarrow> (FrameStreamParser \<times> nat) result"
where
  "fill_buffer parser bs offset target =
     (let required = size_sub target (length (sp_buffer parser));
          available = size_sub (length bs) offset;
          n = min required available
      in bind_result (subspan_count bs offset n) (\<lambda>chunk.
         Inr (parser\<lparr>sp_buffer := sp_buffer parser @ chunk\<rparr>, offset + n)))"

text \<open>One iteration of the loop in \<open>push\<close> breaks, fails, or completes a frame.\<close>

datatype push_outcome =
    Push_break FrameStreamParser
  | Push_failed ParseErrorCode FrameStreamParser
  | Push_frame OwnedFrame FrameStreamParser nat

definition read_body :: "bytes \<Rightarrow> FrameStreamParser \<Rightarrow> FrameHeader \<Rightarrow> nat \<Rightarrow> push_outcome result" where
  "read_body bs parser header offset =
     (let expected_size = unat (fh_frame_size header) in
      bind_result (fill_buffer parser bs offset expected_size) (\<lambda>(parser, offset).
      if length (sp_buffer parser) < expected_size then Inr (Push_break parser)
      else bind_result (parse_frame (sp_buffer parser) (sp_limits parser)) (\<lambda>parsed. case parsed of
        Inl code \<Rightarrow> Inr (Push_failed code (parser\<lparr>sp_failure := Some code\<rparr>))
      | Inr view \<Rightarrow> Inr (Push_frame \<lparr>of_header = fv_header view, of_payload = fv_payload view\<rparr>
          (parser\<lparr>sp_buffer := [], sp_current_header := None\<rparr>) offset))))"

definition push_iteration :: "bytes \<Rightarrow> FrameStreamParser \<Rightarrow> nat \<Rightarrow> push_outcome result" where
  "push_iteration bs parser offset = (case sp_current_header parser of
     Some header \<Rightarrow> read_body bs parser header offset
   | None \<Rightarrow>
       bind_result (fill_buffer parser bs offset frame_header_size) (\<lambda>(parser, offset).
       if length (sp_buffer parser) < frame_header_size then Inr (Push_break parser)
       else bind_result (decode_frame_header (sp_buffer parser) (sp_limits parser)) (\<lambda>header_result.
         case header_result of
           Inl code \<Rightarrow> Inr (Push_failed code (parser\<lparr>sp_failure := Some code\<rparr>))
         | Inr header \<Rightarrow> read_body bs (parser\<lparr>sp_current_header := Some header\<rparr>) header offset)))"

lemma fill_bufferE:
  assumes "fill_buffer parser bs offset target = Inr (parser', offset')"
  obtains n where "n = min (size_sub target (length (sp_buffer parser))) (size_sub (length bs) offset)"
    "offset \<le> length bs" "n \<le> length bs - offset" "offset' = offset + n"
    "parser' = parser\<lparr>sp_buffer := sp_buffer parser @ take n (drop offset bs)\<rparr>"
  using assms by (auto simp: fill_buffer_def Let_def subspan_count_def split: if_splits)

lemma read_body_frame:
  assumes "read_body bs parser header offset = Inr (Push_frame frame parser' offset')"
  shows "sp_buffer parser' = []" "sp_current_header parser' = None" "offset \<le> offset'" "offset' \<le> length bs"
    "sp_limits parser' = sp_limits parser" "sp_failure parser' = sp_failure parser"
  using assms by (auto simp: read_body_def Let_def result_simps elim!: fill_bufferE split: if_splits)

lemma push_iteration_frame:
  assumes "push_iteration bs parser offset = Inr (Push_frame frame parser' offset')"
  shows "sp_buffer parser' = []" "sp_current_header parser' = None" "offset \<le> offset'" "offset' \<le> length bs"
    "sp_limits parser' = sp_limits parser" "sp_failure parser' = sp_failure parser"
  using assms by (auto simp: push_iteration_def result_simps split: option.split_asm if_split_asm
    elim!: fill_bufferE dest: read_body_frame)

text \<open>A frame consumes input or empties the buffer, so the loop ends.\<close>

definition parser_weight :: "FrameStreamParser \<Rightarrow> nat" where
  "parser_weight parser = (if sp_buffer parser = [] \<and> sp_current_header parser = None then 0 else 1)"

lemma push_iteration_progress:
  assumes "push_iteration bs parser offset = Inr (Push_frame frame parser' offset')"
    and "offset < length bs \<or> sp_current_header parser \<noteq> None"
  shows "2 * (length bs - offset') + parser_weight parser' < 2 * (length bs - offset) + parser_weight parser"
proof (cases "parser_weight parser = 0")
  case True
  then have empty: "sp_buffer parser = []" "sp_current_header parser = None" "offset < length bs"
    using assms(2) by (auto simp: parser_weight_def split: if_splits)
  then have "offset < offset'"
    using assms(1) by (auto simp: push_iteration_def result_simps size_sub_def split: if_split_asm
      elim!: fill_bufferE dest!: read_body_frame(3))
  then show ?thesis
    using push_iteration_frame [OF assms(1)] by (simp add: parser_weight_def)
next
  case False
  then show ?thesis
    using push_iteration_frame [OF assms(1)] by (simp add: parser_weight_def split: if_splits)
qed

function push_loop ::
  "bytes \<Rightarrow> FrameStreamParser \<Rightarrow> nat \<Rightarrow> OwnedFrame list \<Rightarrow>
   ((ParseErrorCode + OwnedFrame list) \<times> FrameStreamParser) result"
where
  "push_loop bs parser offset frames =
     (if offset < length bs \<or> sp_current_header parser \<noteq> None
      then case push_iteration bs parser offset of
          Inl e \<Rightarrow> Inl e
        | Inr (Push_break parser') \<Rightarrow> Inr (Inr frames, parser')
        | Inr (Push_failed code parser') \<Rightarrow> Inr (Inl code, parser')
        | Inr (Push_frame frame parser' offset') \<Rightarrow> push_loop bs parser' offset' (frames @ [frame])
      else Inr (Inr frames, parser))"
  by pat_completeness auto
termination
  by (relation "measure (\<lambda>(bs, parser, offset, frames). 2 * (length bs - offset) + parser_weight parser)")
    (auto dest: push_iteration_progress)

declare push_loop.simps [simp del]

definition push ::
  "FrameStreamParser \<Rightarrow> bytes \<Rightarrow> ((ParseErrorCode + OwnedFrame list) \<times> FrameStreamParser) result"
where
  "push parser bs = (case sp_failure parser of
     Some code \<Rightarrow> Inr (Inl code, parser)
   | None \<Rightarrow> push_loop bs parser 0 [])"

definition finish_with_error ::
  "FrameStreamParser \<Rightarrow> ParseErrorCode \<Rightarrow> (ParseErrorCode + unit) \<times> FrameStreamParser"
where
  "finish_with_error parser code = (Inl code, parser\<lparr>sp_failure := Some code\<rparr>)"

definition finish :: "FrameStreamParser \<Rightarrow> (ParseErrorCode + unit) \<times> FrameStreamParser" where
  "finish parser = (case sp_failure parser of
     Some code \<Rightarrow> (Inl code, parser)
   | None \<Rightarrow>
       if sp_buffer parser = [] then (Inr (), parser)
       else if length (sp_buffer parser) < frame_header_size
       then finish_with_error parser Truncated_header
       else finish_with_error parser Truncated_frame)"

definition reset :: "FrameStreamParser \<Rightarrow> FrameStreamParser" where
  "reset parser = parser\<lparr>sp_buffer := [], sp_current_header := None, sp_failure := None\<rparr>"

definition buffered_size :: "FrameStreamParser \<Rightarrow> nat" where
  "buffered_size parser = length (sp_buffer parser)"

definition failed :: "FrameStreamParser \<Rightarrow> bool" where
  "failed parser \<longleftrightarrow> sp_failure parser \<noteq> None"

definition failure :: "FrameStreamParser \<Rightarrow> ParseErrorCode option" where
  "failure parser = sp_failure parser"

section \<open>The specification\<close>

text \<open>
  What a stream has to say after its complete frames: an incomplete frame, or the sixteen
  bytes of a header that is rejected.
\<close>

datatype stream_rest = Waiting bytes | Rejected ParseErrorCode bytes

abbreviation declared_size :: "bytes \<Rightarrow> u32" where
  "declared_size bs \<equiv> be_value (take 4 (drop 8 bs))"

function scan :: "ProtocolLimits \<Rightarrow> bytes \<Rightarrow> OwnedFrame list \<times> stream_rest" where
  "scan limits bs =
     (if length bs < 16 then ([], Waiting bs)
      else case first_failure (header_checks bs limits) of
        Some code \<Rightarrow> ([], Rejected code (take 16 bs))
      | None \<Rightarrow>
          let n = unat (declared_size bs) in
          if length bs < n then ([], Waiting bs)
          else let (frames, rest) = scan limits (drop n bs)
            in (\<lparr>of_header = header_for (declared_size bs), of_payload = drop 16 (take n bs)\<rparr> # frames, rest))"
  by pat_completeness auto
termination
  by (relation "measure (length \<circ> snd)") (auto simp: header_checks_def split: if_splits)

declare scan.simps [simp del]

text \<open>The parser state after a stream.\<close>

definition parser_at :: "ProtocolLimits \<Rightarrow> stream_rest \<Rightarrow> FrameStreamParser" where
  "parser_at limits rest = (case rest of
     Waiting bs \<Rightarrow> \<lparr>sp_limits = limits, sp_buffer = bs,
       sp_current_header = (if length bs < 16 then None else Some (header_for (declared_size bs))),
       sp_failure = None\<rparr>
   | Rejected code bs \<Rightarrow> \<lparr>sp_limits = limits, sp_buffer = bs, sp_current_header = None,
       sp_failure = Some code\<rparr>)"

lemma sp_limits_at [simp]: "sp_limits (parser_at limits rest) = limits"
  by (simp add: parser_at_def split: stream_rest.split)

definition incomplete :: "ProtocolLimits \<Rightarrow> bytes \<Rightarrow> bool" where
  "incomplete limits bs \<longleftrightarrow> length bs < 16 \<or>
     (first_failure (header_checks bs limits) = None \<and> length bs < unat (declared_size bs))"

lemma header_checks_prefix: "16 \<le> length bs \<Longrightarrow> header_checks (bs @ xs) limits = header_checks bs limits"
  by (simp add: header_checks_def)

lemma header_checks_take: "16 \<le> n \<Longrightarrow> 16 \<le> length bs \<Longrightarrow> header_checks (take n bs) limits = header_checks bs limits"
  using header_checks_prefix [of "take n bs" "drop n bs"] by simp

lemma declared_size_take: "16 \<le> n \<Longrightarrow> 16 \<le> length bs \<Longrightarrow> declared_size (take n bs) = declared_size bs"
proof -
  assume "16 \<le> n" "16 \<le> length bs"
  then have "take 4 (drop 8 (take n bs @ drop n bs)) = take 4 (drop 8 (take n bs))"
    by (simp del: append_take_drop_id)
  then show ?thesis by simp
qed

lemma declared_size_bounds:
  assumes "first_failure (header_checks bs limits) = None"
  shows "16 \<le> unat (declared_size bs)" "declared_size bs \<le> pl_maximum_frame_size limits"
  using assms by (simp_all add: header_checks_def split: if_split_asm)

lemma fill_buffer_eq:
  assumes "length (sp_buffer parser) \<le> target" and "offset \<le> length bs"
  shows "fill_buffer parser bs offset target =
    Inr (parser\<lparr>sp_buffer := take target (sp_buffer parser @ drop offset bs)\<rparr>,
         offset + min (target - length (sp_buffer parser)) (length bs - offset))"
  using assms by (auto simp: fill_buffer_def size_sub_def subspan_count_def Let_def min_def)

lemma parse_complete:
  assumes "limits_ok limits" and "16 \<le> length bs" and "first_failure (header_checks bs limits) = None"
    and "unat (declared_size bs) \<le> length bs"
  shows "parse_frame (take (unat (declared_size bs)) bs) limits =
    Inr (Inr \<lparr>fv_header = header_for (declared_size bs), fv_payload = drop 16 (take (unat (declared_size bs)) bs)\<rparr>)"
proof -
  define v where "v = declared_size bs"
  define t where "t = take (unat v) bs"
  have "16 \<le> unat v"
    using declared_size_bounds [OF assms(3)] by (simp add: v_def)
  then have "declared_size t = v" "header_checks t limits = header_checks bs limits" "length t = unat v"
    using assms(2,4) declared_size_take header_checks_take by (simp_all add: t_def v_def)
  then have "parse_frame t limits = Inr (Inr \<lparr>fv_header = header_for v, fv_payload = drop 16 t\<rparr>)"
    using assms(1,3) by (simp add: parse_frame_eq frame_checks_def first_failure_append)
  then show ?thesis
    by (simp only: t_def v_def)
qed

lemma read_body_eq:
  assumes "limits_ok limits" and "16 \<le> length b" and "first_failure (header_checks b limits) = None"
    and "length b \<le> unat (declared_size b)" and "offset \<le> length bs"
  defines "s \<equiv> b @ drop offset bs" and "n \<equiv> unat (declared_size b)"
  shows "read_body bs (parser_at limits (Waiting b)) (header_for (declared_size b)) offset =
    (if length s < n then Inr (Push_break (parser_at limits (Waiting s)))
     else Inr (Push_frame \<lparr>of_header = header_for (declared_size b), of_payload = drop 16 (take n s)\<rparr>
       (parser_at limits (Waiting [])) (offset + (n - length b))))"
proof -
  have s: "declared_size s = declared_size b" "header_checks s limits = header_checks b limits" "16 \<le> length s"
    using assms(2) by (simp_all add: s_def header_checks_prefix)
  have fill: "fill_buffer (parser_at limits (Waiting b)) bs offset n =
      Inr ((parser_at limits (Waiting b))\<lparr>sp_buffer := take n s\<rparr>, offset + min (n - length b) (length bs - offset))"
    using assms by (subst fill_buffer_eq) (simp_all add: parser_at_def s_def n_def)
  have parse: "parse_frame (take n s) limits =
      Inr (Inr \<lparr>fv_header = header_for (declared_size b), fv_payload = drop 16 (take n s)\<rparr>)" if "n \<le> length s"
    using parse_complete [OF assms(1) s(3)] that assms(3) by (simp only: s n_def)
  have size: "unat (fh_frame_size (header_for (declared_size b))) = n"
    by (simp add: n_def header_for_def)
  show ?thesis
  proof (cases "length s < n")
    case True
    then show ?thesis
      using s assms(2) by (simp add: read_body_def Let_def size fill) (simp add: parser_at_def)
  next
    case False
    then have "n - length b \<le> length bs - offset"
      using assms(5) by (simp add: s_def)
    with False show ?thesis
      using parse by (simp add: read_body_def Let_def size fill) (simp add: parser_at_def min_def)
  qed
qed

section \<open>The parser implements the specification\<close>

text \<open>One iteration, as a function of the bytes that are buffered or still to come.\<close>

definition iteration_spec :: "ProtocolLimits \<Rightarrow> bytes \<Rightarrow> nat \<Rightarrow> push_outcome" where
  "iteration_spec limits s offset =
     (if length s < 16 then Push_break (parser_at limits (Waiting s))
      else case first_failure (header_checks s limits) of
        Some code \<Rightarrow> Push_failed code (parser_at limits (Rejected code (take 16 s)))
      | None \<Rightarrow>
          if length s < unat (declared_size s) then Push_break (parser_at limits (Waiting s))
          else Push_frame \<lparr>of_header = header_for (declared_size s),
                 of_payload = drop 16 (take (unat (declared_size s)) s)\<rparr> (parser_at limits (Waiting [])) offset)"

lemma push_iteration_header:
  assumes "limits_ok limits" and "length b < 16" and "offset \<le> length bs"
  defines "s \<equiv> b @ drop offset bs"
  shows "push_iteration bs (parser_at limits (Waiting b)) offset =
    Inr (iteration_spec limits s (offset + (unat (declared_size s) - length b)))"
proof -
  have fill: "fill_buffer (parser_at limits (Waiting b)) bs offset 16 =
      Inr ((parser_at limits (Waiting b))\<lparr>sp_buffer := take 16 s\<rparr>, offset + min (16 - length b) (length bs - offset))"
    using assms by (subst fill_buffer_eq) (simp_all add: parser_at_def s_def)
  have head: "sp_current_header (parser_at limits (Waiting b)) = None"
    using assms(2) by (simp add: parser_at_def)
  show ?thesis
  proof (cases "length s < 16")
    case True
    then show ?thesis
      using assms(2) by (simp add: push_iteration_def head fill iteration_spec_def) (simp add: parser_at_def)
  next
    case False
    define h where "h = take 16 s"
    define off where "off = offset + (16 - length b)"
    have h: "length h = 16" "header_checks h limits = header_checks s limits" "declared_size h = declared_size s"
      using False header_checks_take declared_size_take by (simp_all add: h_def)
    have off: "offset + min (16 - length b) (length bs - offset) = off" "off \<le> length bs"
      using False assms(2,3) by (simp_all add: s_def off_def)
    have rest: "h @ drop off bs = s"
      using assms(2) append_take_drop_id [of 16 s] by (simp add: h_def off_def s_def add.commute)
    have decode: "decode_frame_header h limits = Inr (case first_failure (header_checks s limits) of
        Some code \<Rightarrow> Inl code | None \<Rightarrow> Inr (header_for (declared_size s)))"
      by (simp add: decode_frame_header_eq [OF assms(1)] h split: option.split)
    have p: "(parser_at limits (Waiting b))\<lparr>sp_buffer := h, sp_current_header := Some (header_for (declared_size s))\<rparr> =
        parser_at limits (Waiting h)"
      using h by (simp add: parser_at_def)
    show ?thesis
    proof (cases "first_failure (header_checks s limits)")
      case None
      then have n: "16 \<le> unat (declared_size s)"
        by (rule declared_size_bounds)
      have "read_body bs (parser_at limits (Waiting h)) (header_for (declared_size s)) off =
          Inr (iteration_spec limits s (off + (unat (declared_size s) - 16)))"
        using read_body_eq [OF assms(1), of h off bs] h off(2) None n False
        by (simp add: rest iteration_spec_def)
      moreover have "off + (unat (declared_size s) - 16) = offset + (unat (declared_size s) - length b)"
        using n assms(2) by (simp add: off_def)
      ultimately show ?thesis
        using h(1) by (simp add: push_iteration_def head fill off(1) decode None p flip: h_def)
    next
      case (Some code)
      then show ?thesis
        using h(1) assms(2) False
        by (simp add: push_iteration_def head fill decode iteration_spec_def flip: h_def)
          (simp add: parser_at_def)
    qed
  qed
qed

lemma push_iteration_eq:
  assumes "limits_ok limits" and "incomplete limits b" and "offset \<le> length bs"
  defines "s \<equiv> b @ drop offset bs"
  shows "push_iteration bs (parser_at limits (Waiting b)) offset =
    Inr (iteration_spec limits s (offset + (unat (declared_size s) - length b)))"
proof (cases "length b < 16")
  case True
  then show ?thesis
    unfolding s_def using assms by (intro push_iteration_header)
next
  case False
  then have b: "16 \<le> length b" "first_failure (header_checks b limits) = None" "length b \<le> unat (declared_size b)"
    using assms(2) by (auto simp: incomplete_def)
  then have s: "declared_size s = declared_size b" "first_failure (header_checks s limits) = None" "16 \<le> length s"
    by (simp_all add: s_def header_checks_prefix)
  have "sp_current_header (parser_at limits (Waiting b)) = Some (header_for (declared_size b))"
    using b(1) by (simp add: parser_at_def)
  then show ?thesis
    using read_body_eq [OF assms(1) b assms(3)] s(2,3)
    by (simp add: push_iteration_def iteration_spec_def s(1) flip: s_def)
qed

lemma scan_cases:
  "scan limits s = (case iteration_spec limits s offset of
     Push_break parser \<Rightarrow> ([], Waiting s)
   | Push_failed code parser \<Rightarrow> ([], Rejected code (take 16 s))
   | Push_frame frame parser off \<Rightarrow>
       let (frames, rest) = scan limits (drop (unat (declared_size s)) s) in (frame # frames, rest))"
  by (subst scan.simps) (simp add: iteration_spec_def Let_def split: option.split)

lemma scan_incomplete: "incomplete limits b \<Longrightarrow> scan limits b = ([], Waiting b)"
  by (subst scan.simps) (auto simp: incomplete_def Let_def)

lemma incomplete_Nil [simp]: "incomplete limits []"
  by (simp add: incomplete_def)

definition push_result ::
  "ProtocolLimits \<Rightarrow> OwnedFrame list \<Rightarrow> OwnedFrame list \<times> stream_rest \<Rightarrow>
   (ParseErrorCode + OwnedFrame list) \<times> FrameStreamParser"
where
  "push_result limits frames scanned = (case scanned of
     (fs, Waiting bs) \<Rightarrow> (Inr (frames @ fs), parser_at limits (Waiting bs))
   | (fs, Rejected code bs) \<Rightarrow> (Inl code, parser_at limits (Rejected code bs)))"

lemma push_result_Cons:
  "push_result limits frames (case x of (fs, rest) \<Rightarrow> (frame # fs, rest)) = push_result limits (frames @ [frame]) x"
  by (cases x) (simp add: push_result_def split: stream_rest.split)

lemma input_consumed:
  assumes "length b < n" and "n \<le> length (b @ drop offset bs)" and "offset \<le> length bs"
  shows "offset < offset + (n - length b) \<and> offset + (n - length b) \<le> length bs \<and>
    drop n (b @ drop offset bs) = drop (offset + (n - length b)) bs"
  using assms by (auto simp: add.commute)

lemma push_loop_eq:
  assumes "limits_ok limits" and "incomplete limits b" and "offset \<le> length bs"
  shows "push_loop bs (parser_at limits (Waiting b)) offset frames =
    Inr (push_result limits frames (scan limits (b @ drop offset bs)))"
  using assms(2,3)
proof (induction "length bs - offset" arbitrary: b offset frames rule: less_induct)
  case less
  let ?p = "parser_at limits (Waiting b)" and ?s = "b @ drop offset bs"
  show ?case
  proof (cases "offset < length bs \<or> sp_current_header ?p \<noteq> None")
    case False
    then have "drop offset bs = []" and "scan limits b = ([], Waiting b)"
      using less.prems by (simp_all add: scan_incomplete)
    with False show ?thesis
      by (subst push_loop.simps) (simp add: push_result_def)
  next
    case True
    let ?n = "unat (declared_size ?s)"
    let ?off = "offset + (?n - length b)"
    note it = push_iteration_eq [OF assms(1) less.prems]
    show ?thesis
    proof (cases "iteration_spec limits ?s ?off")
      case (Push_break p)
      then have "p = parser_at limits (Waiting ?s)"
        by (auto simp: iteration_spec_def split: if_split_asm option.split_asm)
      with Push_break True show ?thesis
        by (subst push_loop.simps) (simp add: it scan_cases [of limits ?s ?off] push_result_def)
    next
      case (Push_failed code p)
      then have "p = parser_at limits (Rejected code (take 16 ?s))"
        by (auto simp: iteration_spec_def split: if_split_asm option.split_asm)
      with Push_failed True show ?thesis
        by (subst push_loop.simps) (simp add: it scan_cases [of limits ?s ?off] push_result_def)
    next
      case (Push_frame frame p off)
      then have p: "p = parser_at limits (Waiting [])" "off = ?off" "?n \<le> length ?s"
          "first_failure (header_checks ?s limits) = None"
        by (auto simp: iteration_spec_def split: if_split_asm option.split_asm)
      have "length b < ?n"
      proof (cases "length b < 16")
        case True
        then show ?thesis using declared_size_bounds(1) [OF p(4)] by linarith
      next
        case False
        then show ?thesis using less.prems(1) by (simp add: incomplete_def)
      qed
      have off: "offset < off" "off \<le> length bs" "drop ?n ?s = drop off bs"
        using input_consumed [OF \<open>length b < ?n\<close> p(3) less.prems(2)] unfolding p(2) by blast+
      then have "push_loop bs p off (frames @ [frame]) =
          Inr (push_result limits (frames @ [frame]) (scan limits (drop off bs)))"
        using less.hyps [of off "[]" "frames @ [frame]"] by (simp add: p(1))
      then show ?thesis
        using True Push_frame off(3)
        by (subst push_loop.simps) (simp add: it scan_cases [of limits ?s ?off] push_result_Cons)
    qed
  qed
qed

lemma push_eq:
  assumes "limits_ok limits" and "incomplete limits b"
  shows "push (parser_at limits (Waiting b)) bs = Inr (push_result limits [] (scan limits (b @ bs)))"
  using push_loop_eq [OF assms, of 0 bs "[]"] by (simp add: push_def parser_at_def)

lemma push_rejected: "push (parser_at limits (Rejected code bs)) xs = Inr (Inl code, parser_at limits (Rejected code bs))"
  by (simp add: push_def parser_at_def)

section \<open>Streams\<close>

lemma incomplete_scan: "scan limits bs = (frames, Waiting b) \<Longrightarrow> incomplete limits b"
proof (induction limits bs arbitrary: frames rule: scan.induct)
  case (1 limits bs)
  then show ?case
    by (subst (asm) (2) scan.simps)
      (auto simp: Let_def incomplete_def split: if_split_asm option.split_asm prod.split_asm)
qed

lemma scan_append_waiting:
  "scan limits bs = (frames, Waiting b) \<Longrightarrow>
   scan limits (bs @ xs) = (frames @ fst (scan limits (b @ xs)), snd (scan limits (b @ xs)))"
proof (induction limits bs arbitrary: frames rule: scan.induct)
  case (1 limits bs)
  show ?case
  proof (cases "incomplete limits bs")
    case True
    with 1(2) show ?thesis by (simp add: scan_incomplete)
  next
    case False
    then have long: "16 \<le> length bs"
      by (simp add: incomplete_def)
    let ?n = "unat (declared_size bs)"
    have ok: "first_failure (header_checks bs limits) = None" and n: "?n \<le> length bs"
      using 1(2) long False by (subst (asm) scan.simps, auto simp: incomplete_def split: option.split_asm)+
    obtain fs where fs: "scan limits (drop ?n bs) = (fs, Waiting b)"
        "frames = \<lparr>of_header = header_for (declared_size bs), of_payload = drop 16 (take ?n bs)\<rparr> # fs"
      using 1(2) long ok n by (subst (asm) scan.simps) (auto simp: Let_def split: prod.split_asm)
    have "scan limits (drop ?n bs @ xs) = (fs @ fst (scan limits (b @ xs)), snd (scan limits (b @ xs)))"
      using 1(1) [OF _ ok refl _ fs(1)] long n by simp
    moreover have "declared_size (bs @ xs) = declared_size bs"
      using long by simp
    ultimately show ?thesis
      using long ok n fs(2) by (subst scan.simps) (simp add: header_checks_prefix Let_def)
  qed
qed

lemma scan_append_rejected:
  "scan limits bs = (frames, Rejected code h) \<Longrightarrow> scan limits (bs @ xs) = (frames, Rejected code h)"
proof (induction limits bs arbitrary: frames rule: scan.induct)
  case (1 limits bs)
  then have long: "16 \<le> length bs"
    by (subst (asm) (2) scan.simps) (auto split: if_split_asm)
  let ?n = "unat (declared_size bs)"
  have same: "declared_size (bs @ xs) = declared_size bs" "header_checks (bs @ xs) limits = header_checks bs limits"
    using long by (simp_all add: header_checks_prefix)
  show ?case
  proof (cases "first_failure (header_checks bs limits)")
    case None
    have n: "?n \<le> length bs"
      using 1(2) long None by (subst (asm) scan.simps) (auto simp: Let_def split: if_split_asm)
    obtain fs where fs: "scan limits (drop ?n bs) = (fs, Rejected code h)"
        "frames = \<lparr>of_header = header_for (declared_size bs), of_payload = drop 16 (take ?n bs)\<rparr> # fs"
      using 1(2) long None n by (subst (asm) scan.simps) (auto simp: Let_def split: prod.split_asm)
    have "scan limits (drop ?n bs @ xs) = (fs, Rejected code h)"
      using 1(1) [OF _ None refl _ fs(1)] long n by simp
    then show ?thesis
      using long None n fs(2) same by (subst scan.simps) (simp add: Let_def)
  next
    case (Some c)
    then show ?thesis
      using 1(2) long same by (subst (asm) scan.simps, subst scan.simps) simp
  qed
qed

text \<open>A client that pushes chunks until the parser fails, and what it was given until then.\<close>

fun push_all ::
  "FrameStreamParser \<Rightarrow> bytes list \<Rightarrow> (OwnedFrame list \<times> ParseErrorCode option \<times> FrameStreamParser) result"
where
  "push_all parser [] = Inr ([], None, parser)"
| "push_all parser (chunk # chunks) =
     bind_result (push parser chunk) (\<lambda>(pushed, parser). case pushed of
       Inl code \<Rightarrow> Inr ([], Some code, parser)
     | Inr frames \<Rightarrow> bind_result (push_all parser chunks) (\<lambda>(more, error, parser).
         Inr (frames @ more, error, parser)))"

text \<open>
  \<open>push\<close> hands out the frames of a chunk only when no header in that chunk is unacceptable
  (the list it has collected is dropped with the error). So the frames a client is given are
  those of the chunks before the first one that makes the stream so far unacceptable.
\<close>

primrec clean_chunks :: "ProtocolLimits \<Rightarrow> bytes \<Rightarrow> bytes list \<Rightarrow> bytes list" where
  "clean_chunks limits received [] = []"
| "clean_chunks limits received (chunk # chunks) = (case snd (scan limits (received @ chunk)) of
     Waiting _ \<Rightarrow> chunk # clean_chunks limits (received @ chunk) chunks
   | Rejected _ _ \<Rightarrow> [])"

definition stream_error :: "stream_rest \<Rightarrow> ParseErrorCode option" where
  "stream_error rest = (case rest of Waiting _ \<Rightarrow> None | Rejected code _ \<Rightarrow> Some code)"

lemma push_all_eq:
  assumes "limits_ok limits" and "scan limits received = (fs, Waiting b)"
  shows "\<exists>frames. push_all (parser_at limits (Waiting b)) chunks =
      Inr (frames, stream_error (snd (scan limits (received @ concat chunks))),
        parser_at limits (snd (scan limits (received @ concat chunks)))) \<and>
    fst (scan limits (received @ concat (clean_chunks limits received chunks))) = fs @ frames"
  using assms(2)
proof (induction chunks arbitrary: received fs b)
  case Nil
  then show ?case
    by (simp add: stream_error_def)
next
  case (Cons chunk chunks)
  have inc: "incomplete limits b"
    using Cons.prems by (simp add: incomplete_scan)
  obtain frames rest where sc: "scan limits (b @ chunk) = (frames, rest)"
    by (cases "scan limits (b @ chunk)")
  then have sr: "scan limits (received @ chunk) = (fs @ frames, rest)"
    using scan_append_waiting [OF Cons.prems, of chunk] by simp
  note push = push_eq [OF assms(1) inc, of chunk]
  show ?case
  proof (cases rest)
    case (Waiting b')
    then show ?thesis
      using Cons.IH [of "received @ chunk" "fs @ frames" b'] sr sc push
      by (auto simp: push_result_def)
  next
    case (Rejected code h)
    then have "scan limits (received @ concat (chunk # chunks)) = (fs @ frames, Rejected code h)"
      using scan_append_rejected [of limits "received @ chunk" _ code h "concat chunks"] sr by simp
    then show ?thesis
      using push sc sr Rejected Cons.prems by (simp add: push_result_def stream_error_def)
  qed
qed

lemma clean_chunks_all:
  "stream_error (snd (scan limits (received @ concat chunks))) = None \<Longrightarrow>
   clean_chunks limits received chunks = chunks"
proof (induction chunks arbitrary: received)
  case (Cons chunk chunks)
  show ?case
  proof (cases "scan limits (received @ chunk)")
    case (Pair fs rest)
    then show ?thesis
      using Cons scan_append_rejected [of limits "received @ chunk" fs _ _ "concat chunks"]
      by (cases rest) (auto simp: stream_error_def)
  qed
qed simp

lemma clean_chunks_prefix: "prefix (concat (clean_chunks limits received chunks)) (concat chunks)"
  by (induction chunks arbitrary: received) (simp_all split: stream_rest.split)

lemma scan_prefix: "fst (scan limits xs) = frames \<Longrightarrow> prefix frames (fst (scan limits (xs @ ys)))"
proof (cases "scan limits xs")
  case (Pair fs rest)
  then show "fst (scan limits xs) = frames \<Longrightarrow> ?thesis"
    using scan_append_waiting [of limits xs fs _ ys] scan_append_rejected [of limits xs fs _ _ ys]
    by (cases rest) auto
qed

lemma make_stream_parser_eq:
  "make_stream_parser limits = Inr parser \<longleftrightarrow> limits_ok limits \<and> parser = parser_at limits (Waiting [])"
  by (auto simp: make_stream_parser_def limits_ok_def parser_at_def)

text \<open>C6: The stream parser refines the specification \<open>scan\<close> of the whole stream. A fresh
  parser fed with chunks one after the other returns normally, ends in the state that the
  concatenated stream determines, however it is cut, and reports an error exactly when the
  concatenated stream has an unacceptable header, with the code of the first one. It hands
  out exactly the frames of the chunks before the one in which that header is completed,
  always a prefix of the frames of the stream; so when every header is acceptable it hands
  out exactly the frames of the concatenated stream, in order.\<close>

theorem stream_parser_refines_scan:
  assumes "make_stream_parser limits = Inr parser"
  shows "push_all parser chunks =
      Inr (fst (scan limits (concat (clean_chunks limits [] chunks))),
           stream_error (snd (scan limits (concat chunks))),
           parser_at limits (snd (scan limits (concat chunks)))) \<and>
    prefix (fst (scan limits (concat (clean_chunks limits [] chunks)))) (fst (scan limits (concat chunks))) \<and>
    (stream_error (snd (scan limits (concat chunks))) = None \<longrightarrow>
      push_all parser chunks = Inr (fst (scan limits (concat chunks)), None,
        parser_at limits (snd (scan limits (concat chunks)))))"
proof -
  have p: "limits_ok limits" "parser = parser_at limits (Waiting [])"
    using assms by (simp_all add: make_stream_parser_eq)
  have eq: "push_all parser chunks =
      Inr (fst (scan limits (concat (clean_chunks limits [] chunks))),
           stream_error (snd (scan limits (concat chunks))),
           parser_at limits (snd (scan limits (concat chunks))))"
    using push_all_eq [OF p(1), of "[]" "[]" "[]" chunks] p(2) by (auto simp: scan_incomplete)
  obtain rest where "concat chunks = concat (clean_chunks limits [] chunks) @ rest"
    using clean_chunks_prefix [of limits "[]" chunks] by (auto simp: prefix_def)
  then have "prefix (fst (scan limits (concat (clean_chunks limits [] chunks)))) (fst (scan limits (concat chunks)))"
    by (simp add: scan_prefix)
  then show ?thesis
    using eq clean_chunks_all [of limits "[]" chunks] by simp
qed

lemma demo_parser: "make_stream_parser default_protocol_limits = Inr (parser_at default_protocol_limits (Waiting []))"
  by (simp add: make_stream_parser_eq default_limits_hold)

theorem stream_parser_refines_scan_witness:
  "push_all (parser_at default_protocol_limits (Waiting []))
      [take 5 demo_frame, drop 5 demo_frame @ take 3 demo_frame] =
    Inr ([\<lparr>of_header = header_for 18, of_payload = [7, 9]\<rparr>], None,
      parser_at default_protocol_limits (Waiting (take 3 demo_frame))) \<and>
   push_all (parser_at default_protocol_limits (Waiting [])) [demo_frame, demo_frame @ replicate 16 0] =
    Inr ([\<lparr>of_header = header_for 18, of_payload = [7, 9]\<rparr>], Some Invalid_magic,
      parser_at default_protocol_limits (Rejected Invalid_magic (replicate 16 0)))"
proof -
  have "scan default_protocol_limits (concat [take 5 demo_frame, drop 5 demo_frame @ take 3 demo_frame]) =
      ([\<lparr>of_header = header_for 18, of_payload = [7, 9]\<rparr>], Waiting (take 3 demo_frame))"
    by code_simp
  moreover have "scan default_protocol_limits (concat [demo_frame, demo_frame @ replicate 16 0]) =
      ([\<lparr>of_header = header_for 18, of_payload = [7, 9]\<rparr>, \<lparr>of_header = header_for 18, of_payload = [7, 9]\<rparr>],
       Rejected Invalid_magic (replicate 16 0))"
    by code_simp
  moreover have "scan default_protocol_limits
      (concat (clean_chunks default_protocol_limits [] [demo_frame, demo_frame @ replicate 16 0])) =
      ([\<lparr>of_header = header_for 18, of_payload = [7, 9]\<rparr>], Waiting [])"
    by code_simp
  ultimately show ?thesis
    using stream_parser_refines_scan [OF demo_parser, of "[take 5 demo_frame, drop 5 demo_frame @ take 3 demo_frame]",
        THEN conjunct2, THEN conjunct2]
      stream_parser_refines_scan [OF demo_parser, of "[demo_frame, demo_frame @ replicate 16 0]"]
    by (simp add: stream_error_def del: concat.simps clean_chunks.simps push_all.simps)
qed

section \<open>Runs of the parser\<close>

definition stream_init :: "FrameStreamParser \<Rightarrow> bool" where
  "stream_init parser \<longleftrightarrow> make_stream_parser (sp_limits parser) = Inr parser"

inductive stream_step :: "FrameStreamParser \<Rightarrow> FrameStreamParser \<Rightarrow> bool" where
  step_push: "push parser bs = Inr (r, parser') \<Longrightarrow> stream_step parser parser'"
| step_finish: "finish parser = (r, parser') \<Longrightarrow> stream_step parser parser'"
| step_reset: "stream_step parser (reset parser)"

definition parser_ok :: "FrameStreamParser \<Rightarrow> bool" where
  "parser_ok parser \<longleftrightarrow> limits_ok (sp_limits parser) \<and>
     (if sp_failure parser = None
      then incomplete (sp_limits parser) (sp_buffer parser) \<and>
           parser = parser_at (sp_limits parser) (Waiting (sp_buffer parser))
      else length (sp_buffer parser) \<le> unat (pl_maximum_frame_size (sp_limits parser)))"

lemma incomplete_bound:
  "limits_ok limits \<Longrightarrow> incomplete limits b \<Longrightarrow> length b \<le> unat (pl_maximum_frame_size limits)"
  using declared_size_bounds(2) [of b limits]
  by (auto simp: incomplete_def limits_ok_def word_le_nat_alt)

lemma parser_ok_waiting:
  "limits_ok limits \<Longrightarrow> incomplete limits b \<Longrightarrow> parser_ok (parser_at limits (Waiting b))"
  by (simp add: parser_ok_def) (simp add: parser_at_def)

lemma scan_rejected_length: "scan limits bs = (frames, Rejected code h) \<Longrightarrow> length h = 16"
proof (induction limits bs arbitrary: frames rule: scan.induct)
  case (1 limits bs)
  then show ?case
    by (subst (asm) (2) scan.simps) (auto simp: Let_def split: if_split_asm option.split_asm prod.split_asm)
qed

lemma parser_ok_result:
  assumes "limits_ok limits"
  shows "parser_ok (snd (push_result limits frames (scan limits bs)))"
proof (cases "scan limits bs")
  case (Pair fs rest)
  show ?thesis
  proof (cases rest)
    case (Waiting b)
    with Pair assms show ?thesis
      by (simp add: push_result_def parser_ok_waiting incomplete_scan)
  next
    case (Rejected code h)
    with Pair assms scan_rejected_length [of limits bs fs code h] show ?thesis
      by (simp add: push_result_def parser_ok_def) (simp add: parser_at_def limits_ok_def)
  qed
qed

lemma push_total:
  assumes "parser_ok parser"
  shows "\<exists>r parser'. push parser bs = Inr (r, parser') \<and> parser_ok parser' \<and> sp_limits parser' = sp_limits parser"
proof (cases "sp_failure parser")
  case None
  then have p: "limits_ok (sp_limits parser)" "incomplete (sp_limits parser) (sp_buffer parser)"
      "parser = parser_at (sp_limits parser) (Waiting (sp_buffer parser))"
    using assms by (simp_all add: parser_ok_def)
  then have "push parser bs = Inr (push_result (sp_limits parser) [] (scan (sp_limits parser) (sp_buffer parser @ bs)))"
    by (metis push_eq)
  then show ?thesis
    using parser_ok_result [OF p(1), of "[]" "sp_buffer parser @ bs"]
    by (cases "scan (sp_limits parser) (sp_buffer parser @ bs)")
      (auto simp: push_result_def split: stream_rest.splits)
next
  case (Some code)
  with assms show ?thesis by (simp add: push_def)
qed

lemma finish_ok: "parser_ok parser \<Longrightarrow> parser_ok (snd (finish parser))"
  using incomplete_bound [of "sp_limits parser" "sp_buffer parser"]
  by (auto simp: finish_def finish_with_error_def parser_ok_def split: option.split)

lemma reset_eq: "reset parser = parser_at (sp_limits parser) (Waiting [])"
  by (simp add: reset_def parser_at_def)

interpretation stream_runs: system_invariant stream_init stream_step parser_ok
proof
  show "parser_ok s" if "stream_init s" for s
    using that parser_ok_waiting [of "sp_limits s" "[]"] by (simp add: stream_init_def make_stream_parser_eq)
  show "parser_ok t" if "parser_ok s" "stream_step s t" for s t
    using that(2)
  proof cases
    case (step_push bs r)
    then show ?thesis using push_total [OF that(1), of bs] by auto
  next
    case (step_finish r)
    then show ?thesis using finish_ok [OF that(1)] by simp
  next
    case step_reset
    then show ?thesis
      using that(1) parser_ok_waiting [of "sp_limits s" "[]"] by (simp add: reset_eq parser_ok_def)
  qed
qed

text \<open>C34: In every state a stream parser can reach by pushing arbitrary bytes, finishing and
  resetting, it buffers no more than the configured maximum frame size, a further push of
  any bytes returns normally (no wrapped size, no access outside the input, no exception),
  and resetting gives a fresh parser with the same limits.\<close>

theorem stream_parser_bounded:
  assumes "reachable stream_init stream_step parser"
  shows "buffered_size parser \<le> unat (pl_maximum_frame_size (sp_limits parser)) \<and>
    (\<exists>r. push parser bs = Inr r) \<and> make_stream_parser (sp_limits parser) = Inr (reset parser)"
proof -
  have ok: "parser_ok parser"
    using assms by (rule stream_runs.inv_reachable)
  then show ?thesis
    using push_total [OF ok, of bs] incomplete_bound [of "sp_limits parser" "sp_buffer parser"]
    by (auto simp: buffered_size_def parser_ok_def reset_eq make_stream_parser_eq split: if_splits)
qed

lemma demo_parser_reachable:
  "reachable stream_init stream_step (parser_at default_protocol_limits (Waiting []))"
  by (rule reachable_init) (simp add: stream_init_def demo_parser)

theorem stream_parser_bounded_witness:
  "reachable stream_init stream_step (parser_at default_protocol_limits (Waiting [])) \<and>
   buffered_size (parser_at default_protocol_limits (Waiting [])) \<le>
     unat (pl_maximum_frame_size (sp_limits (parser_at default_protocol_limits (Waiting [])))) \<and>
   (\<exists>r. push (parser_at default_protocol_limits (Waiting [])) [1, 2, 3] = Inr r)"
  using stream_parser_bounded [OF demo_parser_reachable, of "[1, 2, 3]"] demo_parser_reachable by blast

text \<open>C35: The stream parser fails closed. After a push or a finish that reported an error,
  every later push and finish reports the same error and leaves the parser unchanged, so no
  bytes after a malformed header are ever interpreted; a finish succeeds exactly when
  nothing is buffered and no error was reported.\<close>

theorem stream_parser_fails_closed:
  assumes "push parser bs = Inr (Inl code, parser') \<or> finish parser = (Inl code, parser')"
    and "parser_ok parser"
  shows "push parser' later = Inr (Inl code, parser') \<and> finish parser' = (Inl code, parser') \<and> failed parser' \<and>
    (fst (finish parser) = Inr () \<longleftrightarrow> buffered_size parser = 0 \<and> \<not> failed parser)"
proof -
  have "sp_failure parser' = Some code"
    using assms(1)
  proof
    assume push: "push parser bs = Inr (Inl code, parser')"
    show ?thesis
    proof (cases "sp_failure parser")
      case None
      then have p: "limits_ok (sp_limits parser)" "incomplete (sp_limits parser) (sp_buffer parser)"
          "parser = parser_at (sp_limits parser) (Waiting (sp_buffer parser))"
        using assms(2) by (simp_all add: parser_ok_def)
      then have "push_result (sp_limits parser) [] (scan (sp_limits parser) (sp_buffer parser @ bs)) = (Inl code, parser')"
        using push by (metis push_eq sum.inject(2))
      then show ?thesis
        by (auto simp: push_result_def parser_at_def split: prod.split_asm stream_rest.split_asm)
    qed (use push in \<open>simp add: push_def\<close>)
  qed (auto simp: finish_def finish_with_error_def split: option.split_asm if_split_asm)
  then show ?thesis
    by (auto simp: push_def finish_def finish_with_error_def failed_def buffered_size_def split: option.split)
qed

theorem stream_parser_fails_closed_witness:
  "\<exists>parser'. push (parser_at default_protocol_limits (Waiting [])) (replicate 16 0) = Inr (Inl Invalid_magic, parser') \<and>
     push parser' demo_frame = Inr (Inl Invalid_magic, parser')"
proof -
  have ok: "parser_ok (parser_at default_protocol_limits (Waiting []))"
    by (simp add: parser_ok_waiting default_limits_hold)
  have "scan default_protocol_limits (replicate 16 0) = ([], Rejected Invalid_magic (replicate 16 0))"
    by code_simp
  then have push: "push (parser_at default_protocol_limits (Waiting [])) (replicate 16 0) =
      Inr (Inl Invalid_magic, parser_at default_protocol_limits (Rejected Invalid_magic (replicate 16 0)))"
    using push_eq [of default_protocol_limits "[]" "replicate 16 0"] by (simp add: push_result_def default_limits_hold)
  from stream_parser_fails_closed [OF disjI1 [OF push] ok, of demo_frame] push show ?thesis
    by blast
qed

section \<open>Streams of commands\<close>

lemma scan_frame:
  assumes "16 + length payload \<le> unat (pl_maximum_frame_size limits)"
  shows "scan limits (frame_bytes payload @ xs) =
    (\<lparr>of_header = header_for (of_nat (16 + length payload)), of_payload = payload\<rparr> # fst (scan limits xs),
     snd (scan limits xs))"
proof -
  let ?n = "of_nat (16 + length payload) :: u32"
  have "16 + length payload < 2 ^ 32"
    using assms unsigned_less [of "pl_maximum_frame_size limits", where ?'a = nat] by simp
  then have n: "unat ?n = 16 + length payload"
    by (simp add: unsigned_of_nat take_bit_nat_eq_self del: of_nat_add)
  define v where "v = ?n"
  have v: "unat v = 16 + length payload" "v \<le> pl_maximum_frame_size limits"
    using assms n by (simp_all add: v_def word_le_nat_alt)
  have fields: "declared_size (header_bytes v) = v" "declared_size (header_bytes v @ payload @ xs) = v"
      "first_failure (header_checks (header_bytes v @ payload @ xs) limits) = None"
    using v by (simp_all add: header_checks_def header_bytes_def)
  have "scan limits (header_bytes v @ payload @ xs) =
    (\<lparr>of_header = header_for v, of_payload = payload\<rparr> # fst (scan limits xs), snd (scan limits xs))"
    by (subst scan.simps) (simp add: fields v(1) Let_def split_def)
  then show ?thesis
    by (simp add: frame_bytes_def v_def)
qed

lemma scan_commands:
  assumes "76 \<le> unat (pl_maximum_frame_size limits)"
  shows "scan limits (concat (map (\<lambda>e. frame_bytes (envelope_bytes e)) es)) =
    (map (\<lambda>e. \<lparr>of_header = header_for 76, of_payload = envelope_bytes e\<rparr>) es, Waiting [])"
proof (induction es)
  case Nil
  show ?case by (simp add: scan_incomplete)
next
  case (Cons e es)
  then show ?case
    using scan_frame [of "envelope_bytes e" limits] assms by simp
qed

text \<open>C16: Commands survive the wire. Encode any list of envelopes, concatenate the frames,
  cut the result into chunks in any way and push them: the parser hands out one frame per
  envelope, in order, whose payloads decode to exactly these envelopes, and the stream
  finishes without an error.\<close>

theorem command_stream_roundtrip:
  assumes "make_stream_parser limits = Inr parser" and "76 \<le> unat (pl_maximum_frame_size limits)"
    and "list_all envelope_ok es" and "map encode_command_frame es = map Inr wire"
    and "concat chunks = concat wire"
  shows "\<exists>delivered parser'. push_all parser chunks = Inr (delivered, None, parser') \<and>
    map (\<lambda>f. decode_command_envelope (of_payload f)) delivered = map (\<lambda>e. Inr (Inr e)) es \<and>
    fst (finish parser') = Inr ()"
proof -
  have "map Inr (map (\<lambda>e. frame_bytes (envelope_bytes e)) es) = (map Inr wire :: bytes result list)"
    using assms(4) by (simp add: comp_def flip: encode_command_frame_eq)
  then have "map (\<lambda>e. frame_bytes (envelope_bytes e)) es = wire"
    by (simp only: inj_map_eq_map [OF inj_Inr])
  then have scan: "scan limits (concat chunks) =
      (map (\<lambda>e. \<lparr>of_header = header_for 76, of_payload = envelope_bytes e\<rparr>) es, Waiting [])"
    using scan_commands [OF assms(2), of es] assms(5) by simp
  have p: "limits_ok limits" "parser = parser_at limits (Waiting [])"
    using assms(1) by (simp_all add: make_stream_parser_eq)
  have "push_all parser chunks =
      Inr (map (\<lambda>e. \<lparr>of_header = header_for 76, of_payload = envelope_bytes e\<rparr>) es, None, parser_at limits (Waiting []))"
    using push_all_eq [OF p(1), of "[]" "[]" "[]" chunks] clean_chunks_all [of limits "[]" chunks] p(2) scan
    by (auto simp: scan_incomplete stream_error_def)
  moreover have "fst (finish (parser_at limits (Waiting []))) = Inr ()"
    by (simp add: finish_def parser_at_def)
  moreover have "map (\<lambda>e. decode_command_envelope (envelope_bytes e)) es = map (\<lambda>e. Inr (Inr e)) es"
    using assms(3) by (simp add: list_all_iff decode_command_envelope_iff)
  ultimately show ?thesis
    by (simp add: comp_def)
qed

theorem command_stream_roundtrip_witness:
  "\<exists>bs. encode_command_frame demo_envelope = Inr bs \<and>
     (\<exists>delivered parser'. push_all (parser_at default_protocol_limits (Waiting []))
          [take 20 (bs @ bs), drop 20 (bs @ bs)] = Inr (delivered, None, parser') \<and>
        map (\<lambda>f. decode_command_envelope (of_payload f)) delivered =
          [Inr (Inr demo_envelope), Inr (Inr demo_envelope)])"
proof -
  obtain bs where bs: "encode_command_frame demo_envelope = Inr bs"
    by (simp add: encode_command_frame_eq)
  have "list_all envelope_ok [demo_envelope, demo_envelope]"
    by (simp add: envelope_ok_def demo_envelope_def)
  from command_stream_roundtrip [OF demo_parser default_limits_hold(1) this, of "[bs, bs]"
      "[take 20 (bs @ bs), drop 20 (bs @ bs)]"] bs
  show ?thesis
    by (auto simp del: take_append drop_append)
qed

end
