(* ===== verification/Command_Session.thy ===== *)
theory Command_Session
  imports Envelope_Codec World_Runs
begin

text \<open>
  Validation of a command envelope (\<open>command/command_validator.cpp\<close>) and the session that
  admits it (\<open>command/command_session.cpp\<close>). The session holds the identity the transport
  authenticated and the highest accepted sequence number.
\<close>

section \<open>Validation\<close>

datatype CommandRejectionCode =
    Reject_none
  | Unsupported_schema_version
  | Unsupported_command_type
  | Invalid_client_id
  | Invalid_session_id
  | Client_identity_mismatch
  | Session_identity_mismatch
  | Sequence_zero
  | Stale_target_tick
  | Target_tick_too_far_future
  | Velocity_out_of_range
  | Duplicate_sequence
  | Sequence_regression
  | Unknown_entity
  | Entity_sequence_not_increasing
  | Target_tick_regression
  | Simulation_rejection_unknown

definition command_rejection_code_name :: "CommandRejectionCode \<Rightarrow> string" where
  "command_rejection_code_name code = (case code of
     Reject_none \<Rightarrow> ''none''
   | Unsupported_schema_version \<Rightarrow> ''unsupported_schema_version''
   | Unsupported_command_type \<Rightarrow> ''unsupported_command_type''
   | Invalid_client_id \<Rightarrow> ''invalid_client_id''
   | Invalid_session_id \<Rightarrow> ''invalid_session_id''
   | Client_identity_mismatch \<Rightarrow> ''client_identity_mismatch''
   | Session_identity_mismatch \<Rightarrow> ''session_identity_mismatch''
   | Sequence_zero \<Rightarrow> ''sequence_zero''
   | Stale_target_tick \<Rightarrow> ''stale_target_tick''
   | Target_tick_too_far_future \<Rightarrow> ''target_tick_too_far_future''
   | Velocity_out_of_range \<Rightarrow> ''velocity_out_of_range''
   | Duplicate_sequence \<Rightarrow> ''duplicate_sequence''
   | Sequence_regression \<Rightarrow> ''sequence_regression''
   | Unknown_entity \<Rightarrow> ''unknown_entity''
   | Entity_sequence_not_increasing \<Rightarrow> ''entity_sequence_not_increasing''
   | Target_tick_regression \<Rightarrow> ''target_tick_regression''
   | Simulation_rejection_unknown \<Rightarrow> ''simulation_rejection_unknown'')"

record CommandValidationPolicy =
  vp_maximum_future_ticks :: u64
  vp_max_abs_velocity :: MillimetersPerSecond

definition default_policy :: CommandValidationPolicy where
  "default_policy = \<lparr>vp_maximum_future_ticks = 8, vp_max_abs_velocity = MillimetersPerSecond 1000000\<rparr>"

record CommandValidationContext =
  vx_authenticated_client_id :: ClientId
  vx_active_session_id :: SessionId
  vx_current_tick :: u64

record CommandValidationResult =
  vr_code :: CommandRejectionCode

definition validation_accepted :: "CommandValidationResult \<Rightarrow> bool" where
  "validation_accepted r \<longleftrightarrow> vr_code r = Reject_none"

record CommandValidator =
  cv_policy :: CommandValidationPolicy

definition make_validator :: "CommandValidationPolicy \<Rightarrow> CommandValidator result" where
  "make_validator policy =
     (if vp_maximum_future_ticks policy = 0 then Inl Invalid_argument
      else if sint (mmps_count (vp_max_abs_velocity policy)) \<le> 0 then Inl Invalid_argument
      else Inr \<lparr>cv_policy = policy\<rparr>)"

definition validator_velocity_is_valid :: "CommandValidator \<Rightarrow> Velocity2 \<Rightarrow> bool result" where
  "validator_velocity_is_valid v velocity =
     both_within (mmps_count (v_x velocity)) (mmps_count (v_y velocity))
       (mmps_count (vp_max_abs_velocity (cv_policy v)))"

definition validate ::
  "CommandValidator \<Rightarrow> CommandEnvelope \<Rightarrow> CommandValidationContext \<Rightarrow> CommandValidationResult result"
where
  "validate v command context =
     (if \<not> client_id_valid (vx_authenticated_client_id context) then Inl Invalid_argument
      else if \<not> session_id_valid (vx_active_session_id context) then Inl Invalid_argument
      else if ce_schema_version command \<noteq> command_schema_version
      then Inr \<lparr>vr_code = Unsupported_schema_version\<rparr>
      else if ce_type command \<noteq> Set_velocity then Inr \<lparr>vr_code = Unsupported_command_type\<rparr>
      else if \<not> client_id_valid (ce_client_id command) then Inr \<lparr>vr_code = Invalid_client_id\<rparr>
      else if \<not> session_id_valid (ce_session_id command) then Inr \<lparr>vr_code = Invalid_session_id\<rparr>
      else if ce_client_id command \<noteq> vx_authenticated_client_id context
      then Inr \<lparr>vr_code = Client_identity_mismatch\<rparr>
      else if ce_session_id command \<noteq> vx_active_session_id context
      then Inr \<lparr>vr_code = Session_identity_mismatch\<rparr>
      else if ce_sequence command = 0 then Inr \<lparr>vr_code = Sequence_zero\<rparr>
      else if ce_target_tick command \<le> vx_current_tick context
      then Inr \<lparr>vr_code = Stale_target_tick\<rparr>
      else
        let future_distance = ce_target_tick command - vx_current_tick context in
        if future_distance > vp_maximum_future_ticks (cv_policy v)
        then Inr \<lparr>vr_code = Target_tick_too_far_future\<rparr>
        else bind_result (validator_velocity_is_valid v (sv_velocity (ce_payload command))) (\<lambda>ok.
          if \<not> ok then Inr \<lparr>vr_code = Velocity_out_of_range\<rparr>
          else Inr \<lparr>vr_code = Reject_none\<rparr>))"

section \<open>Admission\<close>

record CommandAdmissionResult =
  ar_code :: CommandRejectionCode
  ar_command :: "VelocityCommand option"

definition make_admission_result ::
  "CommandRejectionCode \<Rightarrow> VelocityCommand option \<Rightarrow> CommandAdmissionResult result"
where
  "make_admission_result code command =
     (if (code = Reject_none) \<noteq> (command \<noteq> None) then Inl Invalid_argument
      else Inr \<lparr>ar_code = code, ar_command = command\<rparr>)"

definition admission_accept :: "VelocityCommand \<Rightarrow> CommandAdmissionResult result" where
  "admission_accept command = make_admission_result Reject_none (Some command)"

definition admission_reject :: "CommandRejectionCode \<Rightarrow> CommandAdmissionResult result" where
  "admission_reject code =
     (if code = Reject_none then Inl Invalid_argument else make_admission_result code None)"

definition admission_accepted :: "CommandAdmissionResult \<Rightarrow> bool" where
  "admission_accepted r \<longleftrightarrow> ar_code r = Reject_none"

record CommandSession =
  cs_client_id :: ClientId
  cs_session_id :: SessionId
  cs_validator :: CommandValidator
  cs_highest_accepted_sequence :: u64

definition make_session ::
  "ClientId \<Rightarrow> SessionId \<Rightarrow> CommandValidationPolicy \<Rightarrow> CommandSession result"
where
  "make_session client_id session_id policy =
     bind_result (make_validator policy) (\<lambda>validator.
     if \<not> client_id_valid client_id then Inl Invalid_argument
     else if \<not> session_id_valid session_id then Inl Invalid_argument
     else Inr \<lparr>cs_client_id = client_id, cs_session_id = session_id, cs_validator = validator,
               cs_highest_accepted_sequence = 0\<rparr>)"

definition translate :: "CommandEnvelope \<Rightarrow> VelocityCommand" where
  "translate command =
     \<lparr>vc_target_tick = ce_target_tick command, vc_entity_id = sv_entity_id (ce_payload command),
      vc_sequence = ce_sequence command, vc_velocity = sv_velocity (ce_payload command)\<rparr>"

definition commit_accepted_sequence :: "u64 \<Rightarrow> CommandSession \<Rightarrow> CommandSession" where
  "commit_accepted_sequence sequence session = session\<lparr>cs_highest_accepted_sequence := sequence\<rparr>"

definition evaluate :: "CommandSession \<Rightarrow> CommandEnvelope \<Rightarrow> u64 \<Rightarrow> CommandAdmissionResult result" where
  "evaluate session command current =
     bind_result (validate (cs_validator session) command
        \<lparr>vx_authenticated_client_id = cs_client_id session,
         vx_active_session_id = cs_session_id session, vx_current_tick = current\<rparr>) (\<lambda>validation.
     if \<not> validation_accepted validation then admission_reject (vr_code validation)
     else if ce_sequence command = cs_highest_accepted_sequence session
     then admission_reject Duplicate_sequence
     else if ce_sequence command < cs_highest_accepted_sequence session
     then admission_reject Sequence_regression
     else admission_accept (translate command))"

section \<open>The decision\<close>

definition session_ok :: "CommandSession \<Rightarrow> bool" where
  "session_ok s \<longleftrightarrow> client_id_valid (cs_client_id s) \<and> session_id_valid (cs_session_id s) \<and>
     vp_maximum_future_ticks (cv_policy (cs_validator s)) \<noteq> 0 \<and>
     0 < sint (mmps_count (vp_max_abs_velocity (cv_policy (cs_validator s))))"

definition admission_checks ::
  "CommandSession \<Rightarrow> CommandEnvelope \<Rightarrow> u64 \<Rightarrow> (bool \<times> CommandRejectionCode) list"
where
  "admission_checks s command current =
     (let limit = sint (mmps_count (vp_max_abs_velocity (cv_policy (cs_validator s))));
          velocity = sv_velocity (ce_payload command)
      in [(ce_schema_version command \<noteq> 1, Unsupported_schema_version),
          (ce_type command \<noteq> Set_velocity, Unsupported_command_type),
          (cid_value (ce_client_id command) = 0, Invalid_client_id),
          (sid_value (ce_session_id command) = 0, Invalid_session_id),
          (ce_client_id command \<noteq> cs_client_id s, Client_identity_mismatch),
          (ce_session_id command \<noteq> cs_session_id s, Session_identity_mismatch),
          (ce_sequence command = 0, Sequence_zero),
          (ce_target_tick command \<le> current, Stale_target_tick),
          (unat (ce_target_tick command) >
             unat current + unat (vp_maximum_future_ticks (cv_policy (cs_validator s))),
           Target_tick_too_far_future),
          (\<bar>sint (mmps_count (v_x velocity))\<bar> > limit \<or> \<bar>sint (mmps_count (v_y velocity))\<bar> > limit,
           Velocity_out_of_range),
          (ce_sequence command = cs_highest_accepted_sequence s, Duplicate_sequence),
          (ce_sequence command < cs_highest_accepted_sequence s, Sequence_regression)])"

lemma make_session_ok: "make_session client_id session_id policy = Inr s \<Longrightarrow> session_ok s"
  by (auto simp: make_session_def make_validator_def session_ok_def result_simps split: if_splits)

lemma session_ok_commit [simp]: "session_ok (commit_accepted_sequence n s) = session_ok s"
  by (simp add: session_ok_def commit_accepted_sequence_def)

lemma future_distance:
  "current < target \<Longrightarrow> limit < target - current \<longleftrightarrow> unat current + unat limit < unat (target :: u64)"
  by (auto simp: word_less_nat_alt unat_sub word_le_nat_alt)

lemma validate_eq:
  assumes "session_ok s"
  shows "validate (cs_validator s) command \<lparr>vx_authenticated_client_id = cs_client_id s,
      vx_active_session_id = cs_session_id s, vx_current_tick = current\<rparr> =
    Inr \<lparr>vr_code = (case first_failure (take 10 (admission_checks s command current)) of
           Some code \<Rightarrow> code | None \<Rightarrow> Reject_none)\<rparr>"
  using assms future_distance
  by (auto simp: validate_def validator_velocity_is_valid_def session_ok_def client_id_valid_def session_id_valid_def
    admission_checks_def Let_def not_le)

lemma evaluate_eq:
  assumes "session_ok s"
  shows "evaluate s command current =
    Inr (case first_failure (admission_checks s command current) of
           Some code \<Rightarrow> \<lparr>ar_code = code, ar_command = None\<rparr>
         | None \<Rightarrow> \<lparr>ar_code = Reject_none, ar_command = Some (translate command)\<rparr>)"
proof -
  let ?checks = "admission_checks s command current"
  have tail: "drop 10 ?checks = [(ce_sequence command = cs_highest_accepted_sequence s, Duplicate_sequence),
      (ce_sequence command < cs_highest_accepted_sequence s, Sequence_regression)]"
    and codes: "Reject_none \<notin> snd ` set (take 10 ?checks)"
    by (auto simp: admission_checks_def Let_def)
  have split: "first_failure ?checks = (case first_failure (take 10 ?checks) of
      None \<Rightarrow> first_failure (drop 10 ?checks) | Some e \<Rightarrow> Some e)"
    using first_failure_append [of "take 10 ?checks" "drop 10 ?checks"] by simp
  show ?thesis
  proof (cases "first_failure (take 10 ?checks)")
    case None
    then show ?thesis
      by (simp add: evaluate_def validate_eq [OF assms] split tail validation_accepted_def admission_reject_def
        admission_accept_def make_admission_result_def)
  next
    case (Some code)
    then have "code \<noteq> Reject_none"
      using first_failure_in [OF Some] codes by metis
    with Some show ?thesis
      by (simp add: evaluate_def validate_eq [OF assms] split validation_accepted_def admission_reject_def
        make_admission_result_def)
  qed
qed

text \<open>C17: A session admits a command exactly when all twelve checks pass and otherwise
  rejects it with the code of the first failing one, in the order of the sources: schema,
  type, identifiers, identities, sequence, tick window, velocity, replay. The tick window is
  the mathematical one, the unsigned subtraction never wraps; no exception is thrown.\<close>

theorem admission_decision:
  assumes "make_session client_id session_id policy = Inr s0"
    and "s = s0\<lparr>cs_highest_accepted_sequence := highest\<rparr>"
  shows "evaluate s command current =
    Inr (case first_failure (admission_checks s command current) of
           Some code \<Rightarrow> \<lparr>ar_code = code, ar_command = None\<rparr>
         | None \<Rightarrow> \<lparr>ar_code = Reject_none, ar_command = Some (translate command)\<rparr>)"
proof -
  have "session_ok s"
    using make_session_ok [OF assms(1)] session_ok_commit [of highest s0] assms(2)
    by (simp add: commit_accepted_sequence_def)
  then show ?thesis
    by (rule evaluate_eq)
qed

definition demo_session :: CommandSession where
  "demo_session = \<lparr>cs_client_id = ClientId 5, cs_session_id = SessionId 9,
     cs_validator = \<lparr>cv_policy = default_policy\<rparr>, cs_highest_accepted_sequence = 0\<rparr>"

lemma make_demo_session: "make_session (ClientId 5) (SessionId 9) default_policy = Inr demo_session"
  by code_simp

theorem admission_decision_witness:
  "make_session (ClientId 5) (SessionId 9) default_policy = Inr demo_session \<and>
   evaluate (demo_session\<lparr>cs_highest_accepted_sequence := 1\<rparr>) demo_envelope 0 =
     Inr \<lparr>ar_code = Duplicate_sequence, ar_command = None\<rparr> \<and>
   evaluate (demo_session\<lparr>cs_highest_accepted_sequence := 0\<rparr>) demo_envelope 0 =
     Inr \<lparr>ar_code = Reject_none, ar_command = Some (translate demo_envelope)\<rparr>"
proof -
  note d = admission_decision [OF make_demo_session refl, of _ demo_envelope 0]
  have "first_failure (admission_checks (demo_session\<lparr>cs_highest_accepted_sequence := 1\<rparr>) demo_envelope 0) =
      Some Duplicate_sequence"
    and "first_failure (admission_checks (demo_session\<lparr>cs_highest_accepted_sequence := 0\<rparr>) demo_envelope 0) = None"
    by code_simp+
  then show ?thesis
    using d [of 1] d [of 0] make_demo_session by simp
qed

end
