(* ===== verification/Hash_Chain.thy ===== *)
theory Hash_Chain
  imports Tickline_Prelude
begin

text \<open>
  Chains in which every element carries the digest of its predecessor. \<open>hash_chain\<close> states
  what a chain needs of its elements, an injective encoding that is hashed; it follows that
  two chains with the same head are equal unless their elements exhibit a collision of the
  hash function or a preimage of the initial digest. The exhibited collision is between
  elements of the two chains: that some collision exists would follow from counting.
\<close>

fun links :: "('r \<Rightarrow> 'd) \<Rightarrow> ('r \<Rightarrow> 'd) \<Rightarrow> 'd \<Rightarrow> 'r list \<Rightarrow> 'd \<Rightarrow> bool" where
  "links digest previous d [] h \<longleftrightarrow> d = h"
| "links digest previous d (r # rs) h \<longleftrightarrow> previous r = d \<and> links digest previous (digest r) rs h"

lemma links_snoc:
  "links digest previous d (rs @ [r]) h \<longleftrightarrow> links digest previous d rs (previous r) \<and> digest r = h"
  by (induction rs arbitrary: d) auto

locale hash_chain =
  fixes encode :: "'r \<Rightarrow> 'b"
    and hash :: "'b \<Rightarrow> 'd"
    and previous :: "'r \<Rightarrow> 'd"
    and genesis :: 'd
    and valid :: "'r \<Rightarrow> bool"
  assumes encode_inj: "valid a \<Longrightarrow> valid b \<Longrightarrow> encode a = encode b \<Longrightarrow> a = b"
begin

abbreviation digest :: "'r \<Rightarrow> 'd" where
  "digest r \<equiv> hash (encode r)"

lemma same_head:
  "links digest previous genesis rs h \<Longrightarrow> links digest previous genesis rs' h \<Longrightarrow>
   list_all valid rs \<Longrightarrow> list_all valid rs' \<Longrightarrow>
   rs = rs' \<or> (\<exists>a \<in> set rs. \<exists>b \<in> set rs'. encode a \<noteq> encode b \<and> digest a = digest b) \<or>
   (\<exists>a \<in> set rs \<union> set rs'. digest a = genesis)"
proof (induction rs arbitrary: rs' h rule: rev_induct)
  case Nil
  then show ?case
    by (cases rs' rule: rev_cases) (auto simp: links_snoc)
next
  case (snoc r rs)
  show ?case
  proof (cases rs' rule: rev_cases)
    case Nil
    then show ?thesis using snoc.prems by (auto simp: links_snoc)
  next
    case (snoc rs'' r')
    then have heads: "digest r = digest r'" "valid r" "valid r'"
      using snoc.prems by (auto simp: links_snoc)
    show ?thesis
    proof (cases "encode r = encode r'")
      case True
      then have "r = r'"
        using heads encode_inj by simp
      then show ?thesis
        using snoc.IH [of "previous r" rs''] snoc.prems snoc by (auto simp: links_snoc)
    next
      case False
      then show ?thesis using heads snoc by auto
    qed
  qed
qed

text \<open>A chain cannot be cut or extended under the same head without a collision either.\<close>

lemma proper_prefix:
  "links digest previous genesis rs h \<Longrightarrow> links digest previous genesis (rs @ more) h \<Longrightarrow>
   more \<noteq> [] \<Longrightarrow> list_all valid (rs @ more) \<Longrightarrow>
   (\<exists>a \<in> set rs. \<exists>b \<in> set (rs @ more). encode a \<noteq> encode b \<and> digest a = digest b) \<or>
   (\<exists>a \<in> set (rs @ more). digest a = genesis)"
  using same_head [of rs h "rs @ more"] by auto

end

end
