(* ===== verification/Evidence.thy ===== *)
theory Evidence
  imports Command_Session Sha256 Canonical_State Hash_Chain
begin

text \<open>
  The evidence of \<open>command/command_evidence.cpp\<close>: one record per submitted command, its
  canonical encoding of 160 bytes, the strict decoder, and the log in which every record
  carries the digest of its predecessor.
\<close>

section \<open>Records\<close>

abbreviation command_evidence_schema_version :: u16 where
  "command_evidence_schema_version \<equiv> 2"

abbreviation command_evidence_encoded_size :: nat where
  "command_evidence_encoded_size \<equiv> 160"

datatype CommandQueueOutcome =
    Outcome_not_attempted
  | Outcome_accepted
  | Outcome_stale_tick
  | Outcome_unknown_entity
  | Outcome_sequence_not_increasing
  | Outcome_target_tick_regression
  | Outcome_velocity_out_of_range
  | Outcome_unknown

definition command_queue_outcome :: "QueueCommandResult \<Rightarrow> CommandQueueOutcome" where
  "command_queue_outcome r = (case r of
     Queue_accepted \<Rightarrow> Outcome_accepted
   | Queue_stale_tick \<Rightarrow> Outcome_stale_tick
   | Queue_unknown_entity \<Rightarrow> Outcome_unknown_entity
   | Queue_sequence_not_increasing \<Rightarrow> Outcome_sequence_not_increasing
   | Queue_target_tick_regression \<Rightarrow> Outcome_target_tick_regression
   | Queue_velocity_out_of_range \<Rightarrow> Outcome_velocity_out_of_range)"

definition command_queue_outcome_name :: "CommandQueueOutcome \<Rightarrow> string" where
  "command_queue_outcome_name outcome = (case outcome of
     Outcome_not_attempted \<Rightarrow> ''not_attempted''
   | Outcome_accepted \<Rightarrow> ''accepted''
   | Outcome_stale_tick \<Rightarrow> ''stale_tick''
   | Outcome_unknown_entity \<Rightarrow> ''unknown_entity''
   | Outcome_sequence_not_increasing \<Rightarrow> ''sequence_not_increasing''
   | Outcome_target_tick_regression \<Rightarrow> ''target_tick_regression''
   | Outcome_velocity_out_of_range \<Rightarrow> ''velocity_out_of_range''
   | Outcome_unknown \<Rightarrow> ''unknown'')"

definition queue_outcome_value :: "CommandQueueOutcome \<Rightarrow> u16" where
  "queue_outcome_value x = (case x of
     Outcome_not_attempted \<Rightarrow> 0
   | Outcome_accepted \<Rightarrow> 1
   | Outcome_stale_tick \<Rightarrow> 2
   | Outcome_unknown_entity \<Rightarrow> 3
   | Outcome_sequence_not_increasing \<Rightarrow> 4
   | Outcome_target_tick_regression \<Rightarrow> 5
   | Outcome_velocity_out_of_range \<Rightarrow> 6
   | Outcome_unknown \<Rightarrow> 65535)"

definition rejection_code_value :: "CommandRejectionCode \<Rightarrow> u16" where
  "rejection_code_value x = (case x of
     Reject_none \<Rightarrow> 0
   | Unsupported_schema_version \<Rightarrow> 1
   | Unsupported_command_type \<Rightarrow> 2
   | Invalid_client_id \<Rightarrow> 3
   | Invalid_session_id \<Rightarrow> 4
   | Client_identity_mismatch \<Rightarrow> 5
   | Session_identity_mismatch \<Rightarrow> 6
   | Sequence_zero \<Rightarrow> 7
   | Stale_target_tick \<Rightarrow> 8
   | Target_tick_too_far_future \<Rightarrow> 9
   | Velocity_out_of_range \<Rightarrow> 10
   | Duplicate_sequence \<Rightarrow> 11
   | Sequence_regression \<Rightarrow> 12
   | Unknown_entity \<Rightarrow> 13
   | Entity_sequence_not_increasing \<Rightarrow> 14
   | Target_tick_regression \<Rightarrow> 15
   | Simulation_rejection_unknown \<Rightarrow> 16)"

record CommandEvidenceEntry =
  en_world_fingerprint_before :: StateFingerprint
  en_observed_tick :: u64
  en_envelope :: CommandEnvelope
  en_session_sequence_before :: u64
  en_session_sequence_after :: u64
  en_pending_commands_before :: u64
  en_pending_commands_after :: u64
  en_rejection_code :: CommandRejectionCode
  en_queue_outcome :: CommandQueueOutcome

record CommandEvidenceRecord =
  er_ordinal :: u64
  er_previous_record_digest :: Sha256Digest
  er_entry :: CommandEvidenceEntry

datatype CommandEvidenceDecodeErrorCode =
    Decode_invalid_size
  | Decode_invalid_magic
  | Decode_unsupported_schema_version
  | Decode_nonzero_reserved_field
  | Decode_invalid_entity_id
  | Decode_unknown_rejection_code
  | Decode_unknown_queue_outcome
  | Decode_inconsistent_outcome
  | Decode_inconsistent_state_transition

section \<open>The writer\<close>

record EvidenceWriter =
  wr_output :: bytes
  wr_offset :: nat

definition append_byte :: "u8 \<Rightarrow> EvidenceWriter \<Rightarrow> EvidenceWriter result" where
  "append_byte value w =
     (if \<not> wr_offset w < length (wr_output w) then Inl Assertion_failure
      else Inr (w\<lparr>wr_output := (wr_output w)[wr_offset w := value], wr_offset := wr_offset w + 1\<rparr>))"

fun append_bytes :: "bytes \<Rightarrow> EvidenceWriter \<Rightarrow> EvidenceWriter result" where
  "append_bytes [] w = Inr w"
| "append_bytes (b # bs) w = bind_result (append_byte b w) (append_bytes bs)"

definition writer_append_u16 :: "u16 \<Rightarrow> EvidenceWriter \<Rightarrow> EvidenceWriter result" where
  "writer_append_u16 value w =
     bind_result (append_byte (ucast (drop_bit 8 value AND 0xff)) w) (\<lambda>w.
     append_byte (ucast (value AND 0xff)) w)"

definition writer_append_u64 :: "u64 \<Rightarrow> EvidenceWriter \<Rightarrow> EvidenceWriter result" where
  "writer_append_u64 value w =
     append_bytes (map (\<lambda>shift. ucast (drop_bit shift value AND 0xff)) [56, 48, 40, 32, 24, 16, 8, 0]) w"

definition writer_append_i64 :: "i64 \<Rightarrow> EvidenceWriter \<Rightarrow> EvidenceWriter result" where
  "writer_append_i64 value w = writer_append_u64 value w"

definition append_digest :: "Sha256Digest \<Rightarrow> EvidenceWriter \<Rightarrow> EvidenceWriter result" where
  "append_digest digest w = append_bytes (digest_bytes digest) w"

definition evidence_magic :: bytes where
  "evidence_magic = [0x54, 0x4c, 0x43, 0x45]"

definition encode_command_evidence :: "CommandEvidenceRecord \<Rightarrow> bytes result" where
  "encode_command_evidence r =
     (let entry = er_entry r; envelope = en_envelope entry;
          w = \<lparr>wr_output = replicate command_evidence_encoded_size 0, wr_offset = 0\<rparr>
      in bind_result (append_bytes evidence_magic w) (\<lambda>w.
      bind_result (writer_append_u16 command_evidence_schema_version w) (\<lambda>w.
      bind_result (writer_append_u16 0 w) (\<lambda>w.
      bind_result (writer_append_u64 (er_ordinal r) w) (\<lambda>w.
      bind_result (append_digest (er_previous_record_digest r) w) (\<lambda>w.
      bind_result (writer_append_u64 (fp_value (en_world_fingerprint_before entry)) w) (\<lambda>w.
      bind_result (writer_append_u64 (en_observed_tick entry) w) (\<lambda>w.
      bind_result (writer_append_u16 (ce_schema_version envelope) w) (\<lambda>w.
      bind_result (writer_append_u16 (ct_code (ce_type envelope)) w) (\<lambda>w.
      bind_result (writer_append_u64 (cid_value (ce_client_id envelope)) w) (\<lambda>w.
      bind_result (writer_append_u64 (sid_value (ce_session_id envelope)) w) (\<lambda>w.
      bind_result (writer_append_u64 (ce_sequence envelope) w) (\<lambda>w.
      bind_result (writer_append_u64 (ce_target_tick envelope) w) (\<lambda>w.
      bind_result (writer_append_u64 (eid_value (sv_entity_id (ce_payload envelope))) w) (\<lambda>w.
      bind_result (writer_append_i64 (mmps_count (v_x (sv_velocity (ce_payload envelope)))) w) (\<lambda>w.
      bind_result (writer_append_i64 (mmps_count (v_y (sv_velocity (ce_payload envelope)))) w) (\<lambda>w.
      bind_result (writer_append_u64 (en_session_sequence_before entry) w) (\<lambda>w.
      bind_result (writer_append_u64 (en_session_sequence_after entry) w) (\<lambda>w.
      bind_result (writer_append_u64 (en_pending_commands_before entry) w) (\<lambda>w.
      bind_result (writer_append_u64 (en_pending_commands_after entry) w) (\<lambda>w.
      bind_result (writer_append_u16 (rejection_code_value (en_rejection_code entry)) w) (\<lambda>w.
      bind_result (writer_append_u16 (queue_outcome_value (en_queue_outcome entry)) w) (\<lambda>w.
      if wr_offset w \<noteq> length (wr_output w) then Inl Assertion_failure
      else Inr (wr_output w))))))))))))))))))))))))"

section \<open>The reader\<close>

record EvidenceReader =
  rd_input :: bytes
  rd_offset :: nat

definition read_byte :: "EvidenceReader \<Rightarrow> (u8 \<times> EvidenceReader) result" where
  "read_byte r =
     (if \<not> rd_offset r < length (rd_input r) then Inl Assertion_failure
      else Inr (rd_input r ! rd_offset r, r\<lparr>rd_offset := rd_offset r + 1\<rparr>))"

definition reader_read_u16 :: "EvidenceReader \<Rightarrow> (u16 \<times> EvidenceReader) result" where
  "reader_read_u16 r = read_pair read_byte r"

definition reader_read_u64 :: "EvidenceReader \<Rightarrow> (u64 \<times> EvidenceReader) result" where
  "reader_read_u64 r = read_value read_byte 8 r"

definition reader_read_i64 :: "EvidenceReader \<Rightarrow> (i64 \<times> EvidenceReader) result" where
  "reader_read_i64 r = reader_read_u64 r"

definition read_digest :: "EvidenceReader \<Rightarrow> (Sha256Digest \<times> EvidenceReader) result" where
  "read_digest r = bind_result (read_many read_byte 32 r) (\<lambda>(bs, r). Inr (Sha256Digest bs, r))"

text \<open>
  The decoder casts a 16-bit value to the enumeration and then tests it against the named
  values; the pair of steps is a partial inverse of the enumeration's values.
\<close>

definition known_rejection_codes :: "CommandRejectionCode list" where
  "known_rejection_codes =
     [Reject_none, Unsupported_schema_version, Unsupported_command_type, Invalid_client_id,
      Invalid_session_id, Client_identity_mismatch, Session_identity_mismatch, Sequence_zero,
      Stale_target_tick, Target_tick_too_far_future, Velocity_out_of_range, Duplicate_sequence,
      Sequence_regression, Unknown_entity, Entity_sequence_not_increasing,
      Target_tick_regression, Simulation_rejection_unknown]"

definition known_rejection_code :: "u16 \<Rightarrow> CommandRejectionCode option" where
  "known_rejection_code v = find (\<lambda>c. rejection_code_value c = v) known_rejection_codes"

definition known_queue_outcomes :: "CommandQueueOutcome list" where
  "known_queue_outcomes =
     [Outcome_not_attempted, Outcome_accepted, Outcome_stale_tick, Outcome_unknown_entity,
      Outcome_sequence_not_increasing, Outcome_target_tick_regression,
      Outcome_velocity_out_of_range, Outcome_unknown]"

definition known_queue_outcome :: "u16 \<Rightarrow> CommandQueueOutcome option" where
  "known_queue_outcome v = find (\<lambda>x. queue_outcome_value x = v) known_queue_outcomes"

definition expected_rejection_code :: "CommandQueueOutcome \<Rightarrow> CommandRejectionCode option" where
  "expected_rejection_code x = (case x of
     Outcome_not_attempted \<Rightarrow> None
   | Outcome_accepted \<Rightarrow> Some Reject_none
   | Outcome_stale_tick \<Rightarrow> Some Stale_target_tick
   | Outcome_unknown_entity \<Rightarrow> Some Unknown_entity
   | Outcome_sequence_not_increasing \<Rightarrow> Some Entity_sequence_not_increasing
   | Outcome_target_tick_regression \<Rightarrow> Some Target_tick_regression
   | Outcome_velocity_out_of_range \<Rightarrow> Some Velocity_out_of_range
   | Outcome_unknown \<Rightarrow> Some Simulation_rejection_unknown)"

definition validate_record_invariants ::
  "CommandEvidenceRecord \<Rightarrow> CommandEvidenceDecodeErrorCode + unit"
where
  "validate_record_invariants r =
     (let e = er_entry r;
          accepted = (en_rejection_code e = Reject_none);
          expected = expected_rejection_code (en_queue_outcome e)
      in if accepted \<noteq> (en_queue_outcome e = Outcome_accepted) then Inl Decode_inconsistent_outcome
      else if expected \<noteq> None \<and> the expected \<noteq> en_rejection_code e
      then Inl Decode_inconsistent_outcome
      else if accepted then
        (if en_session_sequence_after e \<noteq> ce_sequence (en_envelope e) \<or>
            en_session_sequence_after e \<le> en_session_sequence_before e
         then Inl Decode_inconsistent_state_transition
         else if en_pending_commands_before e = - 1 then Inl Decode_inconsistent_state_transition
         else if en_pending_commands_after e \<noteq> en_pending_commands_before e + 1
         then Inl Decode_inconsistent_state_transition
         else Inr ())
      else if en_session_sequence_after e \<noteq> en_session_sequence_before e \<or>
              en_pending_commands_after e \<noteq> en_pending_commands_before e
      then Inl Decode_inconsistent_state_transition
      else Inr ())"

definition decode_command_evidence ::
  "bytes \<Rightarrow> (CommandEvidenceDecodeErrorCode + CommandEvidenceRecord) result"
where
  "decode_command_evidence encoded =
     (if length encoded \<noteq> command_evidence_encoded_size then Inr (Inl Decode_invalid_size)
      else bind_result (read_expected read_byte evidence_magic \<lparr>rd_input = encoded, rd_offset = 0\<rparr>) (\<lambda>(magic_ok, r).
      if \<not> magic_ok then Inr (Inl Decode_invalid_magic)
      else bind_result (reader_read_u16 r) (\<lambda>(schema_version, r).
      if schema_version \<noteq> command_evidence_schema_version
      then Inr (Inl Decode_unsupported_schema_version)
      else bind_result (reader_read_u16 r) (\<lambda>(reserved, r).
      if reserved \<noteq> 0 then Inr (Inl Decode_nonzero_reserved_field)
      else bind_result (reader_read_u64 r) (\<lambda>(ordinal, r).
      bind_result (read_digest r) (\<lambda>(previous_digest, r).
      bind_result (reader_read_u64 r) (\<lambda>(world_fingerprint, r).
      bind_result (reader_read_u64 r) (\<lambda>(observed_tick, r).
      bind_result (reader_read_u16 r) (\<lambda>(envelope_schema, r).
      bind_result (reader_read_u16 r) (\<lambda>(command_type, r).
      bind_result (reader_read_u64 r) (\<lambda>(client_id, r).
      bind_result (reader_read_u64 r) (\<lambda>(session_id, r).
      bind_result (reader_read_u64 r) (\<lambda>(sequence, r).
      bind_result (reader_read_u64 r) (\<lambda>(target_tick, r).
      bind_result (reader_read_u64 r) (\<lambda>(entity_id_value, r).
      bind_result (reader_read_i64 r) (\<lambda>(velocity_x, r).
      bind_result (reader_read_i64 r) (\<lambda>(velocity_y, r).
      bind_result (reader_read_u64 r) (\<lambda>(session_sequence_before, r).
      bind_result (reader_read_u64 r) (\<lambda>(session_sequence_after, r).
      bind_result (reader_read_u64 r) (\<lambda>(pending_commands_before, r).
      bind_result (reader_read_u64 r) (\<lambda>(pending_commands_after, r).
      bind_result (reader_read_u16 r) (\<lambda>(rejection_value, r).
      case known_rejection_code rejection_value of
        None \<Rightarrow> Inr (Inl Decode_unknown_rejection_code)
      | Some rejection_code \<Rightarrow>
      bind_result (reader_read_u16 r) (\<lambda>(outcome_value, r).
      case known_queue_outcome outcome_value of
        None \<Rightarrow> Inr (Inl Decode_unknown_queue_outcome)
      | Some queue_outcome \<Rightarrow>
      if rd_offset r \<noteq> length encoded then Inl Assertion_failure
      else case make_entity_id entity_id_value of
        Inl _ \<Rightarrow> Inr (Inl Decode_invalid_entity_id)
      | Inr entity_id \<Rightarrow>
        let rec = \<lparr>er_ordinal = ordinal, er_previous_record_digest = previous_digest,
          er_entry = \<lparr>en_world_fingerprint_before = StateFingerprint world_fingerprint,
            en_observed_tick = observed_tick,
            en_envelope = \<lparr>ce_schema_version = envelope_schema, ce_type = CommandType command_type,
              ce_client_id = ClientId client_id, ce_session_id = SessionId session_id,
              ce_sequence = sequence, ce_target_tick = target_tick,
              ce_payload = \<lparr>sv_entity_id = entity_id,
                sv_velocity = \<lparr>v_x = MillimetersPerSecond velocity_x,
                               v_y = MillimetersPerSecond velocity_y\<rparr>\<rparr>\<rparr>,
            en_session_sequence_before = session_sequence_before,
            en_session_sequence_after = session_sequence_after,
            en_pending_commands_before = pending_commands_before,
            en_pending_commands_after = pending_commands_after,
            en_rejection_code = rejection_code, en_queue_outcome = queue_outcome\<rparr>\<rparr>
        in case validate_record_invariants rec of
            Inl code \<Rightarrow> Inr (Inl code)
          | Inr _ \<Rightarrow> Inr (Inr rec))))))))))))))))))))))))"

section \<open>The chain and the log\<close>

definition digest_command_evidence :: "CommandEvidenceRecord \<Rightarrow> Sha256Digest result" where
  "digest_command_evidence r =
     bind_result (encode_command_evidence r) (\<lambda>encoded. Inr (sha256 encoded))"

fun verify_from :: "nat \<Rightarrow> Sha256Digest \<Rightarrow> CommandEvidenceRecord list \<Rightarrow> Sha256Digest \<Rightarrow> bool result" where
  "verify_from index previous [] expected_head = Inr (previous = expected_head)"
| "verify_from index previous (r # records) expected_head =
     (if \<not> index < u64_limit then Inr False
      else if er_ordinal r \<noteq> of_nat index then Inr False
      else if er_previous_record_digest r \<noteq> previous then Inr False
      else bind_result (digest_command_evidence r) (\<lambda>previous.
        verify_from (index + 1) previous records expected_head))"

definition verify_command_evidence_chain ::
  "CommandEvidenceRecord list \<Rightarrow> Sha256Digest \<Rightarrow> bool result"
where
  "verify_command_evidence_chain records expected_head =
     verify_from 0 Sha256Digest_zero records expected_head"

text \<open>
  The vector of records, with the capacity \<open>reserve\<close> establishes and \<open>append\<close> asserts. The
  largest vector the standard library supports, \<open>max_size()\<close>, is the parameter \<open>max_records\<close>.
\<close>

record CommandEvidenceLog =
  cl_records :: "CommandEvidenceRecord list"
  cl_capacity :: nat
  cl_head_digest :: Sha256Digest

definition empty_log :: CommandEvidenceLog where
  "empty_log = \<lparr>cl_records = [], cl_capacity = 0, cl_head_digest = Sha256Digest_zero\<rparr>"

definition log_verify :: "CommandEvidenceLog \<Rightarrow> bool result" where
  "log_verify log = verify_command_evidence_chain (cl_records log) (cl_head_digest log)"

definition prepare_append :: "nat \<Rightarrow> CommandEvidenceLog \<Rightarrow> CommandEvidenceLog result" where
  "prepare_append max_records log =
     (if \<not> length (cl_records log) < u64_limit then Inl Overflow_error
      else if length (cl_records log) = max_records then Inl Length_error
      else Inr (log\<lparr>cl_capacity := max (cl_capacity log) (length (cl_records log) + 1)\<rparr>))"

definition log_append :: "CommandEvidenceEntry \<Rightarrow> CommandEvidenceLog \<Rightarrow> CommandEvidenceLog result" where
  "log_append entry log =
     (if \<not> length (cl_records log) < cl_capacity log then Inl Assertion_failure
      else if \<not> length (cl_records log) < u64_limit then Inl Assertion_failure
      else
        let r = \<lparr>er_ordinal = of_nat (length (cl_records log)),
                 er_previous_record_digest = cl_head_digest log, er_entry = entry\<rparr>
        in bind_result (digest_command_evidence r) (\<lambda>next_head.
           Inr (log\<lparr>cl_records := cl_records log @ [r], cl_head_digest := next_head\<rparr>)))"

section \<open>The layout of a record\<close>

definition evidence_bytes :: "CommandEvidenceRecord \<Rightarrow> bytes" where
  "evidence_bytes r = (let e = er_entry r in
     evidence_magic @ be16 2 @ be16 0 @ be64 (er_ordinal r) @
     digest_bytes (er_previous_record_digest r) @
     be64 (fp_value (en_world_fingerprint_before e)) @ be64 (en_observed_tick e) @
     envelope_bytes (en_envelope e) @
     be64 (en_session_sequence_before e) @ be64 (en_session_sequence_after e) @
     be64 (en_pending_commands_before e) @ be64 (en_pending_commands_after e) @
     be16 (rejection_code_value (en_rejection_code e)) @
     be16 (queue_outcome_value (en_queue_outcome e)))"

lemma length_evidence_magic [simp, width_simps]: "length evidence_magic = 4"
  by (simp add: evidence_magic_def)

lemma length_evidence_bytes:
  "digest_ok (er_previous_record_digest r) \<Longrightarrow> length (evidence_bytes r) = 160"
  by (simp add: evidence_bytes_def digest_ok_def Let_def)

definition writer_at :: "bytes \<Rightarrow> EvidenceWriter" where
  "writer_at written = \<lparr>wr_output = written @ replicate (160 - length written) 0, wr_offset = length written\<rparr>"

lemma append_byte_at: "length written < 160 \<Longrightarrow> append_byte b (writer_at written) = Inr (writer_at (written @ [b]))"
proof -
  assume "length written < 160"
  then have "replicate (160 - length written) (0 :: u8) = 0 # replicate (160 - length (written @ [b])) 0"
    by (simp add: Suc_diff_Suc flip: replicate_Suc)
  then show ?thesis
    using \<open>length written < 160\<close> by (simp add: append_byte_def writer_at_def list_update_append)
qed

lemma append_bytes_at:
  "length written + length bs \<le> 160 \<Longrightarrow> append_bytes bs (writer_at written) = Inr (writer_at (written @ bs))"
  by (induction bs arbitrary: written) (simp_all add: append_byte_at)

lemma writer_append_at:
  "length written + 2 \<le> 160 \<Longrightarrow> writer_append_u16 a (writer_at written) = Inr (writer_at (written @ be16 a))"
  "length written + 8 \<le> 160 \<Longrightarrow> writer_append_u64 b (writer_at written) = Inr (writer_at (written @ be64 b))"
  "length written + length (digest_bytes d) \<le> 160 \<Longrightarrow>
   append_digest d (writer_at written) = Inr (writer_at (written @ digest_bytes d))"
proof -
  show "length written + 2 \<le> 160 \<Longrightarrow> writer_append_u16 a (writer_at written) = Inr (writer_at (written @ be16 a))"
    by (simp add: writer_append_u16_def append_byte_at be16_def byte_at_def)
  show "length written + 8 \<le> 160 \<Longrightarrow> writer_append_u64 b (writer_at written) = Inr (writer_at (written @ be64 b))"
    by (simp add: writer_append_u64_def be64_def byte_at_def append_bytes_at del: append_bytes.simps)
  show "length written + length (digest_bytes d) \<le> 160 \<Longrightarrow>
      append_digest d (writer_at written) = Inr (writer_at (written @ digest_bytes d))"
    by (simp add: append_digest_def append_bytes_at)
qed

lemma encode_command_evidence_eq:
  assumes "digest_ok (er_previous_record_digest r)"
  shows "encode_command_evidence r = Inr (evidence_bytes r)"
proof -
  have start: "\<lparr>wr_output = replicate 160 0, wr_offset = 0\<rparr> = writer_at []"
    by (simp add: writer_at_def)
  have len: "length (digest_bytes (er_previous_record_digest r)) = 32"
    using assms by (simp add: digest_ok_def)
  show ?thesis
    by (simp add: encode_command_evidence_def Let_def start append_bytes_at writer_append_at writer_append_i64_def len)
      (simp add: writer_at_def evidence_bytes_def Let_def envelope_bytes_def len)
qed

interpretation evidence_reader: byte_reader read_byte "\<lambda>bs k. \<lparr>rd_input = bs, rd_offset = k\<rparr>"
  by unfold_locales (simp add: read_byte_def)

lemmas reader_at = evidence_reader.read_pair_at evidence_reader.read_value_at evidence_reader.read_many_at

text \<open>The record at the field positions, as the decoder assembles it.\<close>

definition record_at :: "bytes \<Rightarrow> CommandRejectionCode \<Rightarrow> CommandQueueOutcome \<Rightarrow> CommandEvidenceRecord" where
  "record_at bs rejection_code queue_outcome =
     \<lparr>er_ordinal = be_value (take 8 (drop 8 bs)), er_previous_record_digest = Sha256Digest (take 32 (drop 16 bs)),
      er_entry = \<lparr>en_world_fingerprint_before = StateFingerprint (be_value (take 8 (drop 48 bs))),
        en_observed_tick = be_value (take 8 (drop 56 bs)),
        en_envelope = envelope_at (take 60 (drop 64 bs)),
        en_session_sequence_before = be_value (take 8 (drop 124 bs)),
        en_session_sequence_after = be_value (take 8 (drop 132 bs)),
        en_pending_commands_before = be_value (take 8 (drop 140 bs)),
        en_pending_commands_after = be_value (take 8 (drop 148 bs)),
        en_rejection_code = rejection_code, en_queue_outcome = queue_outcome\<rparr>\<rparr>"

lemma decode_command_evidence_eq:
  assumes "length bs = 160"
  shows "decode_command_evidence bs =
    Inr (if take 4 bs \<noteq> evidence_magic then Inl Decode_invalid_magic
     else if be_value (take 2 (drop 4 bs)) \<noteq> (2 :: u16) then Inl Decode_unsupported_schema_version
     else if be_value (take 2 (drop 6 bs)) \<noteq> (0 :: u16) then Inl Decode_nonzero_reserved_field
     else case known_rejection_code (be_value (take 2 (drop 156 bs))) of
       None \<Rightarrow> Inl Decode_unknown_rejection_code
     | Some rejection_code \<Rightarrow> (case known_queue_outcome (be_value (take 2 (drop 158 bs))) of
         None \<Rightarrow> Inl Decode_unknown_queue_outcome
       | Some queue_outcome \<Rightarrow>
           if be_value (take 8 (drop 100 bs)) = (0 :: u64) then Inl Decode_invalid_entity_id
           else case validate_record_invariants (record_at bs rejection_code queue_outcome) of
             Inl code \<Rightarrow> Inl code | Inr _ \<Rightarrow> Inr (record_at bs rejection_code queue_outcome)))"
proof -
  obtain r where magic: "read_expected read_byte evidence_magic \<lparr>rd_input = bs, rd_offset = 0\<rparr> = Inr (take 4 bs = evidence_magic, r)"
      "take 4 bs = evidence_magic \<Longrightarrow> r = \<lparr>rd_input = bs, rd_offset = 4\<rparr>"
    using evidence_reader.read_expected_at [of 0 evidence_magic bs] assms by auto
  show ?thesis
  proof (cases "take 4 bs = evidence_magic")
    case True
    then show ?thesis
      using assms magic
      by (simp add: decode_command_evidence_def reader_at read_digest_def reader_read_i64_def reader_read_u64_def
        reader_read_u16_def make_entity_id_def
        record_at_def envelope_at_def drop_take split: option.split sum.split)
  next
    case False
    then show ?thesis
      using assms magic by (simp add: decode_command_evidence_def)
  qed
qed

section \<open>The codec is strict\<close>

text \<open>
  The documented invariants of an entry, stated without the validation the decoder runs. The
  queue of the world answers a command it is given, and each answer has one rejection code; a
  command that never reached the queue was rejected with some other code. An accepted command
  moves the session sequence forward to its own sequence and adds one pending command; a
  rejected one changes neither.
\<close>

definition answer_code :: "(CommandQueueOutcome \<times> CommandRejectionCode) list" where
  "answer_code =
     [(Outcome_accepted, Reject_none),
      (Outcome_stale_tick, Stale_target_tick),
      (Outcome_unknown_entity, Unknown_entity),
      (Outcome_sequence_not_increasing, Entity_sequence_not_increasing),
      (Outcome_target_tick_regression, Target_tick_regression),
      (Outcome_velocity_out_of_range, Velocity_out_of_range),
      (Outcome_unknown, Simulation_rejection_unknown)]"

definition entry_invariants :: "CommandEvidenceEntry \<Rightarrow> bool" where
  "entry_invariants e \<longleftrightarrow>
     (if en_queue_outcome e = Outcome_not_attempted then en_rejection_code e \<noteq> Reject_none
      else (en_queue_outcome e, en_rejection_code e) \<in> set answer_code) \<and>
     (if en_rejection_code e = Reject_none
      then en_session_sequence_before e < en_session_sequence_after e \<and>
           en_session_sequence_after e = ce_sequence (en_envelope e) \<and>
           unat (en_pending_commands_after e) = unat (en_pending_commands_before e) + 1
      else en_session_sequence_after e = en_session_sequence_before e \<and>
           en_pending_commands_after e = en_pending_commands_before e)"

definition record_ok :: "CommandEvidenceRecord \<Rightarrow> bool" where
  "record_ok r \<longleftrightarrow> digest_ok (er_previous_record_digest r) \<and> envelope_ok (en_envelope (er_entry r)) \<and>
     entry_invariants (er_entry r)"

lemma unat_eq_plus_1: "unat a = unat b + 1 \<longleftrightarrow> b \<noteq> - 1 \<and> a = b + (1 :: u64)"
proof (cases "b = - 1")
  case True
  then show ?thesis
    using unsigned_less [of a, where ?'a = nat] by (auto simp: unsigned_minus_1_eq_mask mask_eq_exp_minus_1)
next
  case False
  then have "1 + b \<noteq> 0"
    by (metis add.commute add_eq_0_iff2 minus_equation_iff)
  then have "unat (b + 1) = unat b + 1"
    using unatSuc [of b] by (simp add: add.commute)
  with False show ?thesis
    by (metis word_unat_eq_iff)
qed

lemma validate_record_invariants_iff:
  "validate_record_invariants r = Inr () \<longleftrightarrow> entry_invariants (er_entry r)"
  unfolding validate_record_invariants_def entry_invariants_def unat_eq_plus_1
  by (cases "en_queue_outcome (er_entry r)"; cases "en_rejection_code (er_entry r)")
    (auto simp: answer_code_def expected_rejection_code_def Let_def not_le)

lemma known_rejection_code_value: "known_rejection_code (rejection_code_value c) = Some c"
  by (cases c) (simp_all add: known_rejection_code_def known_rejection_codes_def rejection_code_value_def)

lemma known_queue_outcome_value: "known_queue_outcome (queue_outcome_value x) = Some x"
  by (cases x) (simp_all add: known_queue_outcome_def known_queue_outcomes_def queue_outcome_value_def)

lemma known_codes:
  "known_rejection_code v = Some c \<Longrightarrow> rejection_code_value c = v"
  "known_queue_outcome v = Some x \<Longrightarrow> queue_outcome_value x = v"
  by (auto simp: known_rejection_code_def known_queue_outcome_def find_Some_iff)

lemma evidence_split:
  assumes "length bs = 160"
  shows "bs = take 4 bs @ take 2 (drop 4 bs) @ take 2 (drop 6 bs) @ take 8 (drop 8 bs) @ take 32 (drop 16 bs) @
     take 8 (drop 48 bs) @ take 8 (drop 56 bs) @ take 60 (drop 64 bs) @ take 8 (drop 124 bs) @
     take 8 (drop 132 bs) @ take 8 (drop 140 bs) @ take 8 (drop 148 bs) @ take 2 (drop 156 bs) @ take 2 (drop 158 bs)"
  using take_add_drop [of 2 4 bs] take_add_drop [of 2 6 bs] take_add_drop [of 8 8 bs] take_add_drop [of 32 16 bs]
    take_add_drop [of 8 48 bs] take_add_drop [of 8 56 bs] take_add_drop [of 60 64 bs] take_add_drop [of 8 124 bs]
    take_add_drop [of 8 132 bs] take_add_drop [of 8 140 bs] take_add_drop [of 8 148 bs] take_add_drop [of 2 156 bs]
    assms by simp

lemma evidence_bytes_at:
  assumes "length bs = 160" and "take 4 bs = evidence_magic"
    and "be_value (take 2 (drop 4 bs)) = (2 :: u16)" and "be_value (take 2 (drop 6 bs)) = (0 :: u16)"
    and "rejection_code_value c = be_value (take 2 (drop 156 bs))"
    and "queue_outcome_value x = be_value (take 2 (drop 158 bs))"
  shows "evidence_bytes (record_at bs c x) = bs"
proof -
  have "be16 2 = take 2 (drop 4 bs)" "be16 0 = take 2 (drop 6 bs)"
    using assms(1,3,4) be_be_value(1) [of "take 2 (drop 4 bs)"] be_be_value(1) [of "take 2 (drop 6 bs)"] by simp_all
  then show ?thesis
    using assms evidence_split [OF assms(1)]
    by (simp add: evidence_bytes_def record_at_def envelope_bytes_at Let_def)
qed

lemma record_at_bytes:
  assumes "digest_ok (er_previous_record_digest r)"
  shows "record_at (evidence_bytes r) (en_rejection_code (er_entry r)) (en_queue_outcome (er_entry r)) = r"
  using assms by (simp add: record_at_def evidence_bytes_def Let_def digest_ok_def envelope_at_bytes)

lemma decode_command_evidence_iff:
  "decode_command_evidence bs = Inr (Inr r) \<longleftrightarrow> record_ok r \<and> bs = evidence_bytes r"
proof
  assume L: "decode_command_evidence bs = Inr (Inr r)"
  then have len: "length bs = 160"
    by (simp add: decode_command_evidence_def split: if_split_asm)
  from L obtain c x where f: "take 4 bs = evidence_magic" "be_value (take 2 (drop 4 bs)) = (2 :: u16)"
      "be_value (take 2 (drop 6 bs)) = (0 :: u16)" "known_rejection_code (be_value (take 2 (drop 156 bs))) = Some c"
      "known_queue_outcome (be_value (take 2 (drop 158 bs))) = Some x" "be_value (take 8 (drop 100 bs)) \<noteq> (0 :: u64)"
      "validate_record_invariants (record_at bs c x) = Inr ()" "r = record_at bs c x"
    by (auto simp: decode_command_evidence_eq [OF len] split: if_split_asm option.split_asm sum.split_asm)
  then have "evidence_bytes r = bs"
    using evidence_bytes_at [OF len] known_codes by simp
  moreover have "record_ok r"
    using f len by (simp add: record_ok_def flip: validate_record_invariants_iff) (simp add: record_at_def digest_ok_def envelope_ok_def envelope_at_def drop_take)
  ultimately show "record_ok r \<and> bs = evidence_bytes r" by simp
next
  assume R: "record_ok r \<and> bs = evidence_bytes r"
  then have ok: "digest_ok (er_previous_record_digest r)"
    by (simp add: record_ok_def)
  have fields: "take 4 (evidence_bytes r) = evidence_magic"
      "be_value (take 2 (drop 4 (evidence_bytes r))) = (2 :: u16)"
      "be_value (take 2 (drop 6 (evidence_bytes r))) = (0 :: u16)"
      "be_value (take 2 (drop 156 (evidence_bytes r))) = rejection_code_value (en_rejection_code (er_entry r))"
      "be_value (take 2 (drop 158 (evidence_bytes r))) = queue_outcome_value (en_queue_outcome (er_entry r))"
      "be_value (take 8 (drop 100 (evidence_bytes r))) = eid_value (sv_entity_id (ce_payload (en_envelope (er_entry r))))"
    using ok by (simp_all add: evidence_bytes_def Let_def digest_ok_def envelope_bytes_def)
  show "decode_command_evidence bs = Inr (Inr r)"
    using R fields length_evidence_bytes [OF ok] validate_record_invariants_iff [of r]
    by (simp add: decode_command_evidence_eq known_rejection_code_value known_queue_outcome_value
      record_at_bytes [OF ok] record_ok_def envelope_ok_def)
qed

lemma decode_command_evidence_total: "\<exists>r. decode_command_evidence bs = Inr r"
proof (cases "length bs = 160")
  case True
  then show ?thesis by (simp add: decode_command_evidence_eq)
next
  case False
  then show ?thesis by (simp add: decode_command_evidence_def)
qed

interpretation evidence_codec: fixed_width_codec encode_command_evidence decode_command_evidence record_ok
  command_evidence_encoded_size
  by unfold_locales
    (auto simp: encode_command_evidence_eq decode_command_evidence_iff record_ok_def length_evidence_bytes)

text \<open>C20: Evidence records round-trip and the decoder is strict. Every byte string is decoded
  or refused with a code, without a failed assertion; it is decoded to a record exactly when
  the record satisfies the documented invariants (outcome and rejection code agree, an accepted
  command moved the session sequence to its own and added one pending command, a rejected one
  changed neither) and the byte string is its encoding, so a record has one encoding and an
  encoding one meaning.\<close>

theorem evidence_roundtrip:
  "(\<exists>r. decode_command_evidence bs = Inr r) \<and>
   (decode_command_evidence bs = Inr (Inr r) \<longleftrightarrow> record_ok r \<and> encode_command_evidence r = Inr bs)"
  using decode_command_evidence_total evidence_codec.decode_iff by blast

section \<open>The chain is tamper evident\<close>

definition record_digest :: "CommandEvidenceRecord \<Rightarrow> Sha256Digest" where
  "record_digest r = sha256 (evidence_bytes r)"

lemma digest_command_evidence_eq:
  "digest_ok (er_previous_record_digest r) \<Longrightarrow> digest_command_evidence r = Inr (record_digest r)"
  by (simp add: digest_command_evidence_def encode_command_evidence_eq record_digest_def)

lemma digest_ok_record_digest [simp]: "digest_ok (record_digest r)" "digest_ok Sha256Digest_zero"
  by (simp_all add: record_digest_def) (simp add: digest_ok_def Sha256Digest_zero_def)

definition numbered :: "nat \<Rightarrow> CommandEvidenceRecord list \<Rightarrow> bool" where
  "numbered i rs \<longleftrightarrow> (\<forall>k < length rs. i + k < u64_limit \<and> er_ordinal (rs ! k) = of_nat (i + k))"

lemma numbered_Cons:
  "numbered i (r # rs) \<longleftrightarrow> i < u64_limit \<and> er_ordinal r = of_nat i \<and> numbered (i + 1) rs"
  by (auto simp: numbered_def nth_Cons less_Suc_eq_0_disj split: nat.splits)

lemma numbered_snoc:
  "numbered i (rs @ [r]) \<longleftrightarrow> numbered i rs \<and> i + length rs < u64_limit \<and> er_ordinal r = of_nat (i + length rs)"
  by (auto simp: numbered_def nth_append less_Suc_eq)

lemma verify_from_eq:
  "digest_ok d \<Longrightarrow> verify_from i d rs h =
   Inr (numbered i rs \<and> links record_digest er_previous_record_digest d rs h)"
  by (induction rs arbitrary: i d) (auto simp: numbered_Cons digest_command_evidence_eq numbered_def [of _ "[]"])

lemma verify_chain_eq:
  "verify_command_evidence_chain rs h =
   Inr (numbered 0 rs \<and> links record_digest er_previous_record_digest Sha256Digest_zero rs h)"
  by (simp add: verify_command_evidence_chain_def verify_from_eq)

lemma links_digests_ok:
  "links record_digest er_previous_record_digest d rs h \<Longrightarrow> digest_ok d \<Longrightarrow>
   list_all (\<lambda>r. digest_ok (er_previous_record_digest r)) rs \<and> digest_ok h"
  by (induction rs arbitrary: d) auto

lemma evidence_bytes_inj:
  assumes "digest_ok (er_previous_record_digest a)" and "digest_ok (er_previous_record_digest b)"
    and "evidence_bytes a = evidence_bytes b"
  shows "a = b"
proof -
  have codes: "be_value (take 2 (drop 156 (evidence_bytes r))) = rejection_code_value (en_rejection_code (er_entry r))"
      "be_value (take 2 (drop 158 (evidence_bytes r))) = queue_outcome_value (en_queue_outcome (er_entry r))"
    if "digest_ok (er_previous_record_digest r)" for r
    using that by (simp_all add: evidence_bytes_def Let_def digest_ok_def)
  have "en_rejection_code (er_entry a) = en_rejection_code (er_entry b)"
      "en_queue_outcome (er_entry a) = en_queue_outcome (er_entry b)"
    using codes [OF assms(1)] codes [OF assms(2)] assms(3)
      known_rejection_code_value known_queue_outcome_value by (metis option.inject)+
  then show ?thesis
    using record_at_bytes [OF assms(1)] record_at_bytes [OF assms(2)] assms(3) by metis
qed

interpretation evidence_chain: hash_chain evidence_bytes sha256 er_previous_record_digest Sha256Digest_zero
  "\<lambda>r. digest_ok (er_previous_record_digest r)"
  by unfold_locales (rule evidence_bytes_inj)

lemma evidence_chain_links:
  "links (\<lambda>r. sha256 (evidence_bytes r)) er_previous_record_digest = links record_digest er_previous_record_digest"
  by (simp add: record_digest_def [abs_def])

text \<open>C13: The evidence chain is tamper evident. Two sequences of records that verify against
  the same head are the same sequence, unless two of their records have different encodings
  with the same SHA-256 digest, or one of their records hashes to the all-zero digest: to
  alter, drop, insert or reorder evidence under a trusted head one has to break SHA-256 on
  the very records of the two chains.\<close>

theorem evidence_tamper_evident:
  assumes "verify_command_evidence_chain rs h = Inr True" and "verify_command_evidence_chain rs' h = Inr True"
  shows "rs = rs' \<or>
    (\<exists>a \<in> set rs. \<exists>b \<in> set rs'. evidence_bytes a \<noteq> evidence_bytes b \<and>
       digest_command_evidence a = digest_command_evidence b) \<or>
    (\<exists>a \<in> set rs \<union> set rs'. digest_command_evidence a = Inr Sha256Digest_zero)"
proof -
  have l: "links record_digest er_previous_record_digest Sha256Digest_zero rs h"
      "links record_digest er_previous_record_digest Sha256Digest_zero rs' h"
    using assms by (simp_all add: verify_chain_eq)
  have ok: "list_all (\<lambda>r. digest_ok (er_previous_record_digest r)) rs"
      "list_all (\<lambda>r. digest_ok (er_previous_record_digest r)) rs'"
    using links_digests_ok [OF l(1)] links_digests_ok [OF l(2)] by simp_all
  then have dig: "digest_command_evidence a = Inr (sha256 (evidence_bytes a))" if "a \<in> set rs \<union> set rs'" for a
    using that by (auto simp: list_all_iff digest_command_evidence_eq record_digest_def)
  have "rs = rs' \<or> (\<exists>a \<in> set rs. \<exists>b \<in> set rs'. evidence_bytes a \<noteq> evidence_bytes b \<and>
      sha256 (evidence_bytes a) = sha256 (evidence_bytes b)) \<or>
      (\<exists>a \<in> set rs \<union> set rs'. sha256 (evidence_bytes a) = Sha256Digest_zero)"
    using evidence_chain.same_head [of rs h rs'] l ok unfolding evidence_chain_links by simp
  then show ?thesis
    using dig by (metis Un_iff)
qed

definition demo_record :: CommandEvidenceRecord where
  "demo_record = \<lparr>er_ordinal = 0, er_previous_record_digest = Sha256Digest_zero,
     er_entry = \<lparr>en_world_fingerprint_before = StateFingerprint 1, en_observed_tick = 0,
       en_envelope = demo_envelope, en_session_sequence_before = 0, en_session_sequence_after = 1,
       en_pending_commands_before = 0, en_pending_commands_after = 1,
       en_rejection_code = Reject_none, en_queue_outcome = Outcome_accepted\<rparr>\<rparr>"

lemma demo_chain: "verify_command_evidence_chain [demo_record] (record_digest demo_record) = Inr True"
  by (simp add: verify_chain_eq numbered_Cons numbered_def demo_record_def)

theorem evidence_tamper_evident_witness:
  "verify_command_evidence_chain [demo_record] (record_digest demo_record) = Inr True \<and>
   ([demo_record] = [demo_record] \<or>
    (\<exists>a \<in> set [demo_record]. \<exists>b \<in> set [demo_record]. evidence_bytes a \<noteq> evidence_bytes b \<and>
       digest_command_evidence a = digest_command_evidence b) \<or>
    (\<exists>a \<in> set [demo_record] \<union> set [demo_record]. digest_command_evidence a = Inr Sha256Digest_zero))"
  using evidence_tamper_evident [OF demo_chain demo_chain] demo_chain by blast

section \<open>The log\<close>

definition entry_ok :: "CommandEvidenceEntry \<Rightarrow> bool" where
  "entry_ok e \<longleftrightarrow> envelope_ok (en_envelope e) \<and> entry_invariants e"

lemma record_ok_entry:
  "record_ok r \<longleftrightarrow> digest_ok (er_previous_record_digest r) \<and> entry_ok (er_entry r)"
  by (simp add: record_ok_def entry_ok_def)

lemma entry_ok_validate:
  "entry_ok e \<longleftrightarrow> envelope_ok (en_envelope e) \<and>
     validate_record_invariants \<lparr>er_ordinal = 0, er_previous_record_digest = Sha256Digest_zero, er_entry = e\<rparr> = Inr ()"
  by (simp add: entry_ok_def validate_record_invariants_iff)

definition log_ok :: "CommandEvidenceLog \<Rightarrow> bool" where
  "log_ok log \<longleftrightarrow> log_verify log = Inr True \<and> list_all record_ok (cl_records log)"

lemma log_ok_empty [simp]: "log_ok empty_log"
  by (simp add: log_ok_def log_verify_def empty_log_def verify_chain_eq numbered_def)

lemma log_ok_parts:
  assumes "log_ok log"
  shows "numbered 0 (cl_records log)"
    "links record_digest er_previous_record_digest Sha256Digest_zero (cl_records log) (cl_head_digest log)"
    "digest_ok (cl_head_digest log)" "list_all record_ok (cl_records log)"
proof -
  show "numbered 0 (cl_records log)" "list_all record_ok (cl_records log)" and
    l: "links record_digest er_previous_record_digest Sha256Digest_zero (cl_records log) (cl_head_digest log)"
    using assms by (simp_all add: log_ok_def log_verify_def verify_chain_eq)
  show "digest_ok (cl_head_digest log)"
    using links_digests_ok [OF l] by simp
qed

text \<open>The record an entry becomes, and the log it leads to.\<close>

definition next_record :: "CommandEvidenceLog \<Rightarrow> CommandEvidenceEntry \<Rightarrow> CommandEvidenceRecord" where
  "next_record log e = \<lparr>er_ordinal = of_nat (length (cl_records log)),
     er_previous_record_digest = cl_head_digest log, er_entry = e\<rparr>"

definition room_in :: "nat \<Rightarrow> CommandEvidenceLog \<Rightarrow> bool" where
  "room_in max_records log \<longleftrightarrow> length (cl_records log) < u64_limit \<and> length (cl_records log) \<noteq> max_records"

lemma prepare_append_Inr:
  "prepare_append max_records log = Inr log' \<longleftrightarrow> room_in max_records log \<and>
     log' = log\<lparr>cl_capacity := max (cl_capacity log) (length (cl_records log) + 1)\<rparr>"
  by (auto simp: prepare_append_def room_in_def)

lemma prepare_append_fails:
  "\<not> room_in max_records log \<Longrightarrow> \<exists>e. prepare_append max_records log = Inl e \<and> \<not> undefined_behaviour e"
  by (auto simp: prepare_append_def room_in_def undefined_behaviour_def)

lemma log_append_prepared:
  assumes "digest_ok (cl_head_digest log)" and "prepare_append max_records log = Inr log1"
  shows "log_append e log1 = Inr (log1\<lparr>cl_records := cl_records log @ [next_record log e],
    cl_head_digest := record_digest (next_record log e)\<rparr>)"
  using assms by (auto simp: log_append_def prepare_append_Inr room_in_def digest_command_evidence_eq next_record_def Let_def)

lemma log_ok_append:
  assumes "log_ok log" and "prepare_append max_records log = Inr log1" and "entry_ok e"
  shows "log_ok (log1\<lparr>cl_records := cl_records log @ [next_record log e],
    cl_head_digest := record_digest (next_record log e)\<rparr>)"
  using assms log_ok_parts [OF assms(1)]
  by (auto simp: log_ok_def log_verify_def verify_chain_eq numbered_snoc links_snoc next_record_def prepare_append_Inr
    room_in_def record_ok_entry)

end
