(* ===== verification/Pipeline.thy ===== *)
theory Pipeline
  imports Evidence
begin

text \<open>
  The authoritative pipeline of \<open>command/authoritative_command_pipeline.cpp\<close>: a submission
  evaluates the command in its session, queues it in the world when it is admitted, and
  records what happened. Its state is the log, the session and the world.
\<close>

section \<open>Submission\<close>

definition checked_count :: "nat \<Rightarrow> u64 result" where
  "checked_count value = (if \<not> value < u64_limit then Inl Overflow_error else Inr (of_nat value))"

definition command_rejection_from_queue_result :: "QueueCommandResult \<Rightarrow> CommandRejectionCode" where
  "command_rejection_from_queue_result r = (case r of
     Queue_accepted \<Rightarrow> Reject_none
   | Queue_stale_tick \<Rightarrow> Stale_target_tick
   | Queue_unknown_entity \<Rightarrow> Unknown_entity
   | Queue_sequence_not_increasing \<Rightarrow> Entity_sequence_not_increasing
   | Queue_target_tick_regression \<Rightarrow> Target_tick_regression
   | Queue_velocity_out_of_range \<Rightarrow> Velocity_out_of_range)"

record CommandSubmissionResult =
  sr_code :: CommandRejectionCode
  sr_queue_result :: "QueueCommandResult option"

definition make_submission_result ::
  "CommandRejectionCode \<Rightarrow> QueueCommandResult option \<Rightarrow> CommandSubmissionResult result"
where
  "make_submission_result code queue_result = (case queue_result of
     None \<Rightarrow>
       if code = Reject_none then Inl Invalid_argument
       else Inr \<lparr>sr_code = code, sr_queue_result = None\<rparr>
   | Some q \<Rightarrow>
       if command_rejection_from_queue_result q \<noteq> code then Inl Invalid_argument
       else Inr \<lparr>sr_code = code, sr_queue_result = Some q\<rparr>)"

definition submission_reject :: "CommandRejectionCode \<Rightarrow> CommandSubmissionResult result" where
  "submission_reject code =
     (if code = Reject_none then Inl Invalid_argument else make_submission_result code None)"

definition from_queue_result :: "QueueCommandResult \<Rightarrow> CommandSubmissionResult result" where
  "from_queue_result q = make_submission_result (command_rejection_from_queue_result q) (Some q)"

definition submission_accepted :: "CommandSubmissionResult \<Rightarrow> bool" where
  "submission_accepted r \<longleftrightarrow> sr_code r = Reject_none"

text \<open>
  The pipeline owns the log; the session and the world are passed by reference, so a call
  returns all three. \<open>max_records\<close> is the largest size of the vector of records.
\<close>

definition submit ::
  "nat \<Rightarrow> CommandEvidenceLog \<Rightarrow> CommandSession \<Rightarrow> World \<Rightarrow> CommandEnvelope \<Rightarrow>
   (CommandSubmissionResult \<times> CommandEvidenceLog \<times> CommandSession \<times> World) result"
where
  "submit max_records evidence session world command =
     bind_result (prepare_append max_records evidence) (\<lambda>evidence.
     let observed_tick = tick_index (current_tick world) in
     bind_result (fingerprint_world_state world) (\<lambda>world_fingerprint_before.
     let session_sequence_before = cs_highest_accepted_sequence session in
     bind_result (checked_count (pending_command_count world)) (\<lambda>pending_commands_before.
     bind_result (evaluate session command observed_tick) (\<lambda>admission.
     if \<not> admission_accepted admission then
       bind_result (submission_reject (ar_code admission)) (\<lambda>r.
       bind_result (checked_count (pending_command_count world)) (\<lambda>pending_commands_after.
       bind_result (log_append
         \<lparr>en_world_fingerprint_before = world_fingerprint_before, en_observed_tick = observed_tick,
          en_envelope = command, en_session_sequence_before = session_sequence_before,
          en_session_sequence_after = cs_highest_accepted_sequence session,
          en_pending_commands_before = pending_commands_before,
          en_pending_commands_after = pending_commands_after,
          en_rejection_code = sr_code r, en_queue_outcome = Outcome_not_attempted\<rparr> evidence) (\<lambda>evidence.
       Inr (r, evidence, session, world))))
     else case ar_command admission of
       None \<Rightarrow> Inl Logic_error
     | Some velocity_command \<Rightarrow>
       bind_result (queue_velocity world velocity_command) (\<lambda>(queue_result, world).
       bind_result (from_queue_result queue_result) (\<lambda>r.
       let session = (if submission_accepted r then commit_accepted_sequence (ce_sequence command) session
                      else session) in
       bind_result (checked_count (pending_command_count world)) (\<lambda>pending_commands_after.
       bind_result (log_append
         \<lparr>en_world_fingerprint_before = world_fingerprint_before, en_observed_tick = observed_tick,
          en_envelope = command, en_session_sequence_before = session_sequence_before,
          en_session_sequence_after = cs_highest_accepted_sequence session,
          en_pending_commands_before = pending_commands_before,
          en_pending_commands_after = pending_commands_after,
          en_rejection_code = sr_code r, en_queue_outcome = command_queue_outcome queue_result\<rparr> evidence)
         (\<lambda>evidence.
       Inr (r, evidence, session, world)))))))))"

section \<open>What a submission does\<close>

text \<open>
  The decision as a pure function: the rejection code, the queue outcome and the next
  session and world.
\<close>

definition decide ::
  "CommandSession \<Rightarrow> World \<Rightarrow> CommandEnvelope \<Rightarrow>
   CommandRejectionCode \<times> QueueCommandResult option \<times> CommandSession \<times> World"
where
  "decide session world command =
     (case first_failure (admission_checks session command (clk_tick_index (w_clock world))) of
        Some code \<Rightarrow> (code, None, session, world)
      | None \<Rightarrow> (case queue_velocity world (translate command) of
          Inl _ \<Rightarrow> (Reject_none, None, session, world)
        | Inr (q, world') \<Rightarrow>
            (command_rejection_from_queue_result q, Some q,
             if q = Queue_accepted then commit_accepted_sequence (ce_sequence command) session else session,
             world')))"

definition outcome_of :: "QueueCommandResult option \<Rightarrow> CommandQueueOutcome" where
  "outcome_of q = (case q of None \<Rightarrow> Outcome_not_attempted | Some q \<Rightarrow> command_queue_outcome q)"

definition submission_entry :: "CommandSession \<Rightarrow> World \<Rightarrow> CommandEnvelope \<Rightarrow> CommandEvidenceEntry" where
  "submission_entry session world command =
     (let (code, q, session', world') = decide session world command
      in \<lparr>en_world_fingerprint_before = projr (fingerprint_world_state world),
          en_observed_tick = clk_tick_index (w_clock world), en_envelope = command,
          en_session_sequence_before = cs_highest_accepted_sequence session,
          en_session_sequence_after = cs_highest_accepted_sequence session',
          en_pending_commands_before = of_nat (pending_command_count world),
          en_pending_commands_after = of_nat (pending_command_count world'),
          en_rejection_code = code, en_queue_outcome = outcome_of q\<rparr>)"

text \<open>Both counts of the canonical encoding, and the next count of pending commands, fit in 64 bits.\<close>

definition counts_fit :: "CommandSession \<Rightarrow> World \<Rightarrow> CommandEnvelope \<Rightarrow> bool" where
  "counts_fit session w command \<longleftrightarrow> entity_count w < u64_limit \<and> pending_command_count w < u64_limit \<and>
     pending_command_count (snd (snd (snd (decide session w command)))) < u64_limit"

lemma command_rejection_none [simp]: "command_rejection_from_queue_result q = Reject_none \<longleftrightarrow> q = Queue_accepted"
  by (cases q) (simp_all add: command_rejection_from_queue_result_def)

lemma from_queue_result_eq:
  "from_queue_result q = Inr \<lparr>sr_code = command_rejection_from_queue_result q, sr_queue_result = Some q\<rparr>"
  by (simp add: from_queue_result_def make_submission_result_def)

lemma submission_reject_eq:
  "code \<noteq> Reject_none \<Longrightarrow> submission_reject code = Inr \<lparr>sr_code = code, sr_queue_result = None\<rparr>"
  by (simp add: submission_reject_def make_submission_result_def)

lemma fingerprint_cases:
  assumes "world_ok w"
  obtains (fits) f where "fingerprint_world_state w = Inr f" "entity_count w < u64_limit" "pending_command_count w < u64_limit"
  | (overflow) "fingerprint_world_state w = Inl Overflow_error"
      "\<not> (entity_count w < u64_limit \<and> pending_command_count w < u64_limit)"
  using assms by (cases "entity_count w < u64_limit \<and> pending_command_count w < u64_limit")
    (auto simp: fingerprint_world_state_def encode_world_state_eq)

lemma pending_after_queue:
  assumes "world_ok w" and "queue_velocity w c = Inr (q, w')"
  shows "pending_command_count w' = pending_command_count w + (if q = Queue_accepted then 1 else 0)"
proof (cases "q = Queue_accepted")
  case True
  with assms show ?thesis
    by (auto elim!: queue_velocity_acceptedE [OF assms(1)] simp: pending_command_count_def sort_commands_def)
next
  case False
  with assms show ?thesis by (auto dest: queue_velocity_rejected)
qed

lemma rejection_codes: "first_failure (admission_checks s c t) = Some code \<Longrightarrow> code \<noteq> Reject_none"
  using first_failure_in [of "admission_checks s c t" code] by (auto simp: admission_checks_def Let_def)

text \<open>The whole behaviour of a submission in a well-formed state.\<close>

definition logged :: "CommandEvidenceLog \<Rightarrow> CommandEvidenceEntry \<Rightarrow> CommandEvidenceLog" where
  "logged log e = \<lparr>cl_records = cl_records log @ [next_record log e],
     cl_capacity = max (cl_capacity log) (length (cl_records log) + 1),
     cl_head_digest = record_digest (next_record log e)\<rparr>"

lemma log_append_logged:
  assumes "digest_ok (cl_head_digest log)" and "room_in max_records log"
  shows "log_append e (log\<lparr>cl_capacity := max (cl_capacity log) (Suc (length (cl_records log)))\<rparr>) = Inr (logged log e)"
  using log_append_prepared [of log max_records "log\<lparr>cl_capacity := max (cl_capacity log) (length (cl_records log) + 1)\<rparr>" e] assms
  by (simp add: prepare_append_Inr logged_def)

lemma submit_eq:
  assumes "log_ok log" and "session_ok session" and "world_ok world"
  shows "submit max_records log session world command =
    (if \<not> length (cl_records log) < u64_limit then Inl Overflow_error
     else if length (cl_records log) = max_records then Inl Length_error
     else if \<not> counts_fit session world command then Inl Overflow_error
     else let (code, q, session', world') = decide session world command
       in Inr (\<lparr>sr_code = code, sr_queue_result = q\<rparr>, logged log (submission_entry session world command),
          session', world'))"
proof (cases "room_in max_records log")
  case False
  then show ?thesis
    by (auto simp: submit_def prepare_append_def room_in_def)
next
  case room: True
  have prep: "prepare_append max_records log =
      Inr (log\<lparr>cl_capacity := max (cl_capacity log) (Suc (length (cl_records log)))\<rparr>)"
    using room by (simp add: prepare_append_Inr)
  have dig: "digest_ok (cl_head_digest log)"
    using log_ok_parts(3) [OF assms(1)] .
  have tick: "tick_index (current_tick world) = clk_tick_index (w_clock world)"
    by (simp add: current_tick_def clock_current_tick_def)
  note eval = evaluate_eq [OF assms(2), of command "clk_tick_index (w_clock world)"]
  from assms(3) show ?thesis
  proof (cases rule: fingerprint_cases)
    case overflow
    then show ?thesis
      using room by (auto simp: submit_def prep room_in_def counts_fit_def)
  next
    case (fits f)
    show ?thesis
    proof (cases "first_failure (admission_checks session command (clk_tick_index (w_clock world)))")
      case (Some code)
      then show ?thesis
        using rejection_codes [OF Some] fits room
        by (simp add: submit_def prep tick eval checked_count_def admission_accepted_def submission_reject_eq
          log_append_logged [OF dig room] decide_def submission_entry_def outcome_of_def counts_fit_def room_in_def Let_def)
    next
      case None
      obtain q world' where q: "queue_velocity world (translate command) = Inr (q, world')"
        using queue_velocity_total [OF assms(3)] by blast
      show ?thesis
        using None fits room
        by (simp add: submit_def prep tick eval checked_count_def admission_accepted_def q from_queue_result_eq
          submission_accepted_def log_append_logged [OF dig room] decide_def submission_entry_def outcome_of_def
          counts_fit_def room_in_def Let_def)
    qed
  qed
qed

section \<open>The evidence of a submission\<close>

lemma decide_cases:
  assumes "world_ok world"
  obtains (rejected) code where "decide session world command = (code, None, session, world)" "code \<noteq> Reject_none"
  | (refused) q where "decide session world command = (command_rejection_from_queue_result q, Some q, session, world)"
      "q \<noteq> Queue_accepted"
  | (accepted) world' where
      "decide session world command =
         (Reject_none, Some Queue_accepted, commit_accepted_sequence (ce_sequence command) session, world')"
      "queue_velocity world (translate command) = Inr (Queue_accepted, world')"
      "cs_highest_accepted_sequence session < ce_sequence command"
      "pending_command_count world' = pending_command_count world + 1"
proof (cases "first_failure (admission_checks session command (clk_tick_index (w_clock world)))")
  case (Some code)
  then show thesis
    using rejected rejection_codes [OF Some] by (simp add: decide_def)
next
  case None
  then have seq: "cs_highest_accepted_sequence session < ce_sequence command"
    by (auto simp: admission_checks_def Let_def split: if_split_asm)
  obtain q world' where q: "queue_velocity world (translate command) = Inr (q, world')"
    using queue_velocity_total [OF assms] by blast
  show thesis
  proof (cases "q = Queue_accepted")
    case True
    then show thesis
      using accepted None q seq pending_after_queue [OF assms q] by (simp add: decide_def command_rejection_from_queue_result_def)
  next
    case False
    then show thesis
      using refused None q queue_velocity_rejected [OF assms q] by (simp add: decide_def)
  qed
qed

lemma queue_outcome_codes:
  "expected_rejection_code (command_queue_outcome q) = Some (command_rejection_from_queue_result q)"
  "command_queue_outcome q = Outcome_accepted \<longleftrightarrow> q = Queue_accepted"
  by (cases q; simp add: expected_rejection_code_def command_queue_outcome_def command_rejection_from_queue_result_def)+

lemma of_nat_not_max: "n + 1 < u64_limit \<Longrightarrow> (of_nat n :: u64) \<noteq> - 1"
proof
  assume n: "n + 1 < u64_limit" and "(of_nat n :: u64) = - 1"
  then have "unat (of_nat n :: u64) = unat (- 1 :: u64)" by simp
  then show False
    using n by (simp add: unsigned_of_nat take_bit_nat_eq_self unsigned_minus_1_eq_mask mask_eq_exp_minus_1)
qed

text \<open>Every record the pipeline writes satisfies the invariants its decoder demands.\<close>

lemma submission_entry_ok:
  assumes "world_ok world" and "counts_fit session world command" and "envelope_ok command"
  shows "entry_ok (submission_entry session world command)"
  using assms(1)
proof (cases rule: decide_cases [where session = session and command = command])
  case (rejected code)
  then show ?thesis
    using assms(3) by (simp add: entry_ok_validate submission_entry_def validate_record_invariants_def outcome_of_def
      expected_rejection_code_def Let_def)
next
  case (refused q)
  then show ?thesis
    using assms(3) by (simp add: entry_ok_validate submission_entry_def validate_record_invariants_def outcome_of_def
      queue_outcome_codes Let_def)
next
  case (accepted world')
  then show ?thesis
    using assms(2,3) of_nat_not_max [of "pending_command_count world"]
    by (simp add: entry_ok_validate submission_entry_def validate_record_invariants_def outcome_of_def
      queue_outcome_codes Let_def counts_fit_def commit_accepted_sequence_def)
qed

section \<open>The authority\<close>

text \<open>
  The running system of one session: its log, session and world. A step is a submission that
  returned, a tick, or a new entity. Only envelopes with a non-zero entity exist, which the
  constructor of \<open>EntityId\<close> guarantees.
\<close>

record Authority =
  au_log :: CommandEvidenceLog
  au_session :: CommandSession
  au_world :: World

definition authority_init :: "Authority \<Rightarrow> bool" where
  "authority_init a \<longleftrightarrow> au_log a = empty_log \<and> world_init (au_world a) \<and>
     (\<exists>client_id session_id policy. make_session client_id session_id policy = Inr (au_session a))"

inductive authority_step :: "nat \<Rightarrow> Authority \<Rightarrow> Authority \<Rightarrow> bool" for max_records where
  step_submit: "submit max_records (au_log a) (au_session a) (au_world a) command = Inr (r, log', session', world') \<Longrightarrow>
    envelope_ok command \<Longrightarrow>
    authority_step max_records a \<lparr>au_log = log', au_session = session', au_world = world'\<rparr>"
| step_tick: "advance (au_world a) = Inr (t, world') \<Longrightarrow> authority_step max_records a (a\<lparr>au_world := world'\<rparr>)"
| step_entity: "add_entity (au_world a) e = Inr (r, world') \<Longrightarrow> authority_step max_records a (a\<lparr>au_world := world'\<rparr>)"

definition accepted_sequences :: "CommandEvidenceLog \<Rightarrow> u64 list" where
  "accepted_sequences log = map (\<lambda>r. ce_sequence (en_envelope (er_entry r)))
     (filter (\<lambda>r. en_rejection_code (er_entry r) = Reject_none) (cl_records log))"

definition authority_ok :: "Authority \<Rightarrow> bool" where
  "authority_ok a \<longleftrightarrow> log_ok (au_log a) \<and> session_ok (au_session a) \<and> world_ok (au_world a) \<and>
     sorted_wrt (<) (0 # accepted_sequences (au_log a)) \<and>
     cs_highest_accepted_sequence (au_session a) = last (0 # accepted_sequences (au_log a))"

lemma make_session_fresh:
  "make_session client_id session_id policy = Inr session \<Longrightarrow> cs_highest_accepted_sequence session = 0"
  by (auto simp: make_session_def result_simps split: if_splits)

lemma decide_ok:
  assumes "session_ok session" and "world_ok world" and "decide session world command = (code, q, session', world')"
  shows "session_ok session'" "world_ok world'"
  using assms(2)
  by (cases rule: decide_cases [where session = session and command = command];
      use assms in \<open>auto dest: queue_velocity_ok\<close>)+

lemma submit_InrE:
  assumes "log_ok log" and "session_ok session" and "world_ok world"
    and "submit max_records log session world command = Inr (r, log', session', world')"
  obtains code q where "decide session world command = (code, q, session', world')"
    "r = \<lparr>sr_code = code, sr_queue_result = q\<rparr>" "log' = logged log (submission_entry session world command)"
    "counts_fit session world command" "room_in max_records log"
  using assms(4) that
  by (cases "decide session world command") (auto simp: submit_eq [OF assms(1-3)] room_in_def split: if_split_asm)

lemma log_ok_logged:
  assumes "log_ok log" and "room_in max_records log" and "entry_ok e"
  shows "log_ok (logged log e)"
  using log_ok_append [OF assms(1) _ assms(3), of max_records] assms(2)
  by (cases log) (simp add: prepare_append_Inr logged_def)

lemma accepted_sequences_logged:
  "accepted_sequences (logged log e) = accepted_sequences log @
     (if en_rejection_code e = Reject_none then [ce_sequence (en_envelope e)] else [])"
  by (simp add: accepted_sequences_def logged_def next_record_def)

lemma sorted_wrt_snoc_last:
  "sorted_wrt (<) (xs :: u64 list) \<Longrightarrow> xs \<noteq> [] \<Longrightarrow> last xs < y \<Longrightarrow> sorted_wrt (<) (xs @ [y])"
  by (induction xs) (auto simp: sorted_wrt_append split: if_splits, meson last_in_set less_trans)

lemma authority_submit_ok:
  assumes "authority_ok a" and "envelope_ok command"
    and "submit max_records (au_log a) (au_session a) (au_world a) command = Inr (r, log', session', world')"
  shows "authority_ok \<lparr>au_log = log', au_session = session', au_world = world'\<rparr>"
proof -
  have ok: "log_ok (au_log a)" "session_ok (au_session a)" "world_ok (au_world a)"
    using assms(1) by (simp_all add: authority_ok_def)
  obtain code q where d: "decide (au_session a) (au_world a) command = (code, q, session', world')"
      "log' = logged (au_log a) (submission_entry (au_session a) (au_world a) command)"
      "counts_fit (au_session a) (au_world a) command" "room_in max_records (au_log a)"
    using submit_InrE [OF ok assms(3)] by metis
  have "log_ok log'"
    unfolding d(2) using ok(1) d(4) submission_entry_ok [OF ok(3) d(3) assms(2)] by (rule log_ok_logged)
  moreover have "accepted_sequences log' = accepted_sequences (au_log a) @ (if code = Reject_none then [ce_sequence command] else [])"
    by (simp add: d(1,2) accepted_sequences_logged submission_entry_def)
  moreover from ok(3) have "code \<noteq> Reject_none \<and> session' = au_session a \<or>
      code = Reject_none \<and> session' = commit_accepted_sequence (ce_sequence command) (au_session a) \<and>
      cs_highest_accepted_sequence (au_session a) < ce_sequence command"
    by (cases rule: decide_cases [where session = "au_session a" and command = command]) (use d(1) in auto)
  ultimately show ?thesis
    using assms(1) decide_ok [OF ok(2,3) d(1)] sorted_wrt_snoc_last [of "0 # accepted_sequences (au_log a)" "ce_sequence command"]
    by (auto simp: authority_ok_def commit_accepted_sequence_def)
qed

interpretation authority: system_invariant authority_init "authority_step max_records" authority_ok
proof
  show "authority_ok s" if init: "authority_init s" for s
  proof -
    obtain client_id session_id policy where m: "make_session client_id session_id policy = Inr (au_session s)"
      using init by (auto simp: authority_init_def)
    then have "cs_highest_accepted_sequence (au_session s) = 0"
      by (rule make_session_fresh)
    then show ?thesis
      using init make_session_ok [OF m] simulation.inv_init
      by (simp add: authority_init_def authority_ok_def accepted_sequences_def) (simp add: empty_log_def)
  qed
  show "authority_ok t" if "authority_ok s" "authority_step max_records s t" for s t
    using that(2)
  proof cases
    case (step_submit command r log' session' world')
    then show ?thesis using authority_submit_ok [OF that(1)] by simp
  next
    case (step_tick tick world')
    then show ?thesis using that(1) by (auto simp: authority_ok_def dest: advance_ok)
  next
    case (step_entity e r world')
    then show ?thesis using that(1) by (auto simp: authority_ok_def dest: add_entity_ok)
  qed
qed

text \<open>C12: What a submission does, completely. In every reachable state it throws only when the
  log is full or a count does not fit in 64 bits; otherwise it decides by the admission
  checks and the guards of the world, appends exactly one record of that decision to the
  log, and returns the decided session and world.\<close>

theorem submission_effect:
  assumes "reachable authority_init (authority_step max_records) a"
  shows "submit max_records (au_log a) (au_session a) (au_world a) command =
    (if \<not> length (cl_records (au_log a)) < u64_limit then Inl Overflow_error
     else if length (cl_records (au_log a)) = max_records then Inl Length_error
     else if \<not> counts_fit (au_session a) (au_world a) command then Inl Overflow_error
     else let (code, q, session', world') = decide (au_session a) (au_world a) command
       in Inr (\<lparr>sr_code = code, sr_queue_result = q\<rparr>,
          logged (au_log a) (submission_entry (au_session a) (au_world a) command), session', world'))"
  using authority.inv_reachable [OF assms] by (intro submit_eq) (simp_all add: authority_ok_def)

text \<open>C36: A rejected command changes nothing but the log, and an accepted one is exactly an
  accepted \<open>queue_velocity\<close> call with a sequence number above every earlier accepted one,
  which becomes the new watermark of the session.\<close>

theorem submission_accepts_iff_queued:
  assumes "reachable authority_init (authority_step max_records) a"
    and "submit max_records (au_log a) (au_session a) (au_world a) command = Inr (r, log', session', world')"
  shows "if submission_accepted r
    then sr_queue_result r = Some Queue_accepted \<and>
      queue_velocity (au_world a) (translate command) = Inr (Queue_accepted, world') \<and>
      cs_highest_accepted_sequence (au_session a) < ce_sequence command \<and>
      session' = commit_accepted_sequence (ce_sequence command) (au_session a)
    else session' = au_session a \<and> world' = au_world a"
proof -
  have ok: "log_ok (au_log a)" "session_ok (au_session a)" "world_ok (au_world a)"
    using authority.inv_reachable [OF assms(1)] by (simp_all add: authority_ok_def)
  obtain code q where d: "decide (au_session a) (au_world a) command = (code, q, session', world')"
      "r = \<lparr>sr_code = code, sr_queue_result = q\<rparr>"
    using submit_InrE [OF ok assms(2)] by metis
  from ok(3) show ?thesis
    by (cases rule: decide_cases [where session = "au_session a" and command = command])
      (use d in \<open>auto simp: submission_accepted_def\<close>)
qed

text \<open>C5: Replay protection and complete evidence. In every reachable state of a session's
  authority the log verifies against its head, every record in it is one the strict decoder
  accepts, the sequence numbers of the accepted records are strictly increasing and
  positive, so no accepted command is ever accepted again, and the watermark of the session
  is the last of them.\<close>

theorem authority_evidence:
  assumes "reachable authority_init (authority_step max_records) a"
  shows "log_verify (au_log a) = Inr True \<and>
    list_all (\<lambda>r. \<exists>bs. encode_command_evidence r = Inr bs \<and> decode_command_evidence bs = Inr (Inr r))
      (cl_records (au_log a)) \<and>
    sorted_wrt (<) (0 # accepted_sequences (au_log a)) \<and>
    cs_highest_accepted_sequence (au_session a) = last (0 # accepted_sequences (au_log a))"
proof -
  have ok: "authority_ok a"
    using assms by (rule authority.inv_reachable)
  then have "list_all record_ok (cl_records (au_log a))" "log_verify (au_log a) = Inr True"
    by (simp_all add: authority_ok_def log_ok_def)
  then show ?thesis
    using ok evidence_codec.encode_valid by (auto simp: authority_ok_def list_all_iff)
qed

definition demo_authority :: Authority where
  "demo_authority = \<lparr>au_log = empty_log, au_session = demo_session, au_world = demo_world\<rparr>"

lemma demo_authority_reachable: "reachable authority_init (authority_step m) demo_authority"
proof -
  let ?a = "\<lparr>au_log = empty_log, au_session = demo_session, au_world = demo_empty\<rparr>"
  have "authority_init ?a"
    using make_demo_session demo_empty_made by (auto simp: authority_init_def world_init_def)
  then have "reachable authority_init (authority_step m) ?a"
    by (rule reachable_init)
  moreover have "authority_step m ?a (?a\<lparr>au_world := demo_world\<rparr>)"
    by (rule step_entity [where e = demo_entity and r = Add_added]) (simp add: demo_world_added)
  ultimately show ?thesis
    by (auto simp: demo_authority_def intro: reachable_step)
qed

lemma demo_decision:
  "decide demo_session demo_world demo_envelope =
     (Reject_none, Some Queue_accepted, demo_session\<lparr>cs_highest_accepted_sequence := 1\<rparr>,
      demo_world\<lparr>w_highest_sequence := [(EntityId 7, 1)], w_latest_target_tick := [(EntityId 7, 2)],
        w_pending_commands := [translate demo_envelope]\<rparr>)"
  by code_simp

lemma demo_counts: "counts_fit demo_session demo_world demo_envelope"
  unfolding counts_fit_def demo_decision by (simp add: entity_count_def pending_command_count_def demo_defs)

theorem submission_effect_witness:
  "reachable authority_init (authority_step 100) demo_authority \<and>
   (\<exists>log'. submit 100 (au_log demo_authority) (au_session demo_authority) (au_world demo_authority) demo_envelope =
      Inr (\<lparr>sr_code = Reject_none, sr_queue_result = Some Queue_accepted\<rparr>, log',
        demo_session\<lparr>cs_highest_accepted_sequence := 1\<rparr>,
        demo_world\<lparr>w_highest_sequence := [(EntityId 7, 1)], w_latest_target_tick := [(EntityId 7, 2)],
          w_pending_commands := [translate demo_envelope]\<rparr>))"
  using submission_effect [OF demo_authority_reachable, of 100 demo_envelope] demo_authority_reachable
  by (simp add: demo_authority_def demo_decision demo_counts empty_log_def)

lemma demo_submitted:
  "\<exists>r log' session' world'. submit 100 (au_log demo_authority) (au_session demo_authority) (au_world demo_authority)
     demo_envelope = Inr (r, log', session', world') \<and> submission_accepted r"
proof -
  have "log_ok (au_log demo_authority)" "session_ok (au_session demo_authority)" "world_ok (au_world demo_authority)"
    using authority.inv_reachable [OF demo_authority_reachable] by (simp_all add: authority_ok_def)
  then show ?thesis
    by (simp add: submit_eq demo_authority_def demo_decision demo_counts submission_accepted_def) (simp add: empty_log_def)
qed

theorem submission_accepts_iff_queued_witness:
  "\<exists>r log' session' world'. submit 100 (au_log demo_authority) (au_session demo_authority) (au_world demo_authority)
     demo_envelope = Inr (r, log', session', world') \<and> submission_accepted r \<and>
     queue_velocity (au_world demo_authority) (translate demo_envelope) = Inr (Queue_accepted, world') \<and>
     cs_highest_accepted_sequence (au_session demo_authority) < ce_sequence demo_envelope"
proof -
  obtain r log' session' world' where s: "submit 100 (au_log demo_authority) (au_session demo_authority)
      (au_world demo_authority) demo_envelope = Inr (r, log', session', world')" "submission_accepted r"
    using demo_submitted by blast
  with submission_accepts_iff_queued [OF demo_authority_reachable s(1)] show ?thesis
    by auto
qed

theorem authority_evidence_witness:
  "\<exists>a. reachable authority_init (authority_step 100) a \<and> length (cl_records (au_log a)) = 1 \<and>
     log_verify (au_log a) = Inr True \<and> accepted_sequences (au_log a) = [1]"
proof -
  have ok: "log_ok (au_log demo_authority)" "session_ok (au_session demo_authority)" "world_ok (au_world demo_authority)"
    using authority.inv_reachable [OF demo_authority_reachable] by (simp_all add: authority_ok_def)
  obtain r log' session' world' where s: "submit 100 (au_log demo_authority) (au_session demo_authority)
      (au_world demo_authority) demo_envelope = Inr (r, log', session', world')"
    using demo_submitted by blast
  let ?a = "\<lparr>au_log = log', au_session = session', au_world = world'\<rparr>"
  have "envelope_ok demo_envelope"
    by (simp add: envelope_ok_def demo_envelope_def)
  with s have reach: "reachable authority_init (authority_step 100) ?a"
    using demo_authority_reachable by (blast intro: reachable_step step_submit)
  obtain code q where "log' = logged (au_log demo_authority) (submission_entry demo_session demo_world demo_envelope)"
    using submit_InrE [OF ok s] by (auto simp: demo_authority_def)
  then have "length (cl_records log') = 1" "accepted_sequences log' = [1]"
    by (simp_all add: logged_def demo_authority_def accepted_sequences_def next_record_def empty_log_def
      submission_entry_def demo_decision) (simp add: demo_envelope_def)
  with reach authority_evidence [OF reach] show ?thesis
    by (intro exI [of _ ?a]) simp
qed

end
