(* ===== verification/Gateway.thy ===== *)
theory Gateway
  imports Pipeline Stream_Parser
begin

text \<open>
  The gateway of \<open>protocol/authoritative_command_gateway.cpp\<close>: bytes from the transport are
  decoded and submitted, or refused before they reach the pipeline.
\<close>

record ProtocolSubmissionResult =
  ps_parse_error :: ParseErrorCode
  ps_command_result :: "CommandSubmissionResult option"

definition make_protocol_result ::
  "ParseErrorCode \<Rightarrow> CommandSubmissionResult option \<Rightarrow> ProtocolSubmissionResult result"
where
  "make_protocol_result parse_error command_result =
     (let parsed = (command_result \<noteq> None); has_parse_error = (parse_error \<noteq> Parse_none)
      in if parsed = has_parse_error then Inl Invalid_argument
      else Inr \<lparr>ps_parse_error = parse_error, ps_command_result = command_result\<rparr>)"

definition parse_rejection :: "ParseErrorCode \<Rightarrow> ProtocolSubmissionResult result" where
  "parse_rejection code = (if code = Parse_none then Inl Invalid_argument else make_protocol_result code None)"

definition command_submission :: "CommandSubmissionResult \<Rightarrow> ProtocolSubmissionResult result" where
  "command_submission r = make_protocol_result Parse_none (Some r)"

definition protocol_parsed :: "ProtocolSubmissionResult \<Rightarrow> bool" where
  "protocol_parsed r \<longleftrightarrow> ps_command_result r \<noteq> None"

definition protocol_accepted :: "ProtocolSubmissionResult \<Rightarrow> bool" where
  "protocol_accepted r = (case ps_command_result r of None \<Rightarrow> False | Some c \<Rightarrow> submission_accepted c)"

record AuthoritativeCommandGateway =
  gw_limits :: ProtocolLimits
  gw_pipeline :: CommandEvidenceLog

definition make_gateway :: "ProtocolLimits \<Rightarrow> AuthoritativeCommandGateway result" where
  "make_gateway limits =
     (if unat (pl_maximum_frame_size limits) < frame_header_size then Inl Invalid_argument
      else Inr \<lparr>gw_limits = limits, gw_pipeline = empty_log\<rparr>)"

definition gateway_submit ::
  "nat \<Rightarrow> AuthoritativeCommandGateway \<Rightarrow> CommandSession \<Rightarrow> World \<Rightarrow> bytes \<Rightarrow>
   (ProtocolSubmissionResult \<times> AuthoritativeCommandGateway \<times> CommandSession \<times> World) result"
where
  "gateway_submit max_records gateway session world bs =
     bind_result (decode_command_frame bs (gw_limits gateway)) (\<lambda>envelope_result. case envelope_result of
       Inl code \<Rightarrow> bind_result (parse_rejection code) (\<lambda>r. Inr (r, gateway, session, world))
     | Inr envelope \<Rightarrow>
         bind_result (submit max_records (gw_pipeline gateway) session world envelope)
           (\<lambda>(submitted, evidence, session, world).
         bind_result (command_submission submitted) (\<lambda>r.
         Inr (r, gateway\<lparr>gw_pipeline := evidence\<rparr>, session, world))))"

section \<open>The gateway as a filter in front of the pipeline\<close>

definition submitted_via ::
  "AuthoritativeCommandGateway \<Rightarrow> (CommandSubmissionResult \<times> CommandEvidenceLog \<times> CommandSession \<times> World) result \<Rightarrow>
   (ProtocolSubmissionResult \<times> AuthoritativeCommandGateway \<times> CommandSession \<times> World) result"
where
  "submitted_via gateway s = bind_result s (\<lambda>(r, evidence, session, world).
     Inr (\<lparr>ps_parse_error = Parse_none, ps_command_result = Some r\<rparr>, gateway\<lparr>gw_pipeline := evidence\<rparr>, session, world))"

lemma decode_command_frame_cases:
  assumes "limits_ok limits"
  obtains (rejected) code where "decode_command_frame bs limits = Inr (Inl code)" "code \<noteq> Parse_none"
  | (decoded) e where "decode_command_frame bs limits = Inr (Inr e)" "envelope_ok e"
proof (cases "first_failure (frame_checks bs limits)")
  case None
  then have "decode_command_frame bs limits = decode_command_envelope (drop 16 bs)"
    by (simp add: decode_command_frame_def parse_frame_eq [OF assms])
  then show thesis
    using rejected decoded
    by (cases "projr (decode_command_envelope (drop 16 bs))")
      (auto simp: decode_command_envelope_eq envelope_ok_def envelope_at_def split: if_split_asm)
next
  case (Some code)
  then have "code \<noteq> Parse_none"
    using first_failure_in [OF Some] by (auto simp: frame_checks_def header_checks_def)
  with Some show thesis
    using rejected by (simp add: decode_command_frame_def parse_frame_eq [OF assms])
qed

lemma gateway_submit_rejected:
  "decode_command_frame bs (gw_limits gateway) = Inr (Inl code) \<Longrightarrow> code \<noteq> Parse_none \<Longrightarrow>
   gateway_submit max_records gateway session world bs =
     Inr (\<lparr>ps_parse_error = code, ps_command_result = None\<rparr>, gateway, session, world)"
  by (simp add: gateway_submit_def parse_rejection_def make_protocol_result_def)

lemma gateway_submit_decoded:
  "decode_command_frame bs (gw_limits gateway) = Inr (Inr e) \<Longrightarrow>
   gateway_submit max_records gateway session world bs =
     submitted_via gateway (submit max_records (gw_pipeline gateway) session world e)"
  by (cases "submit max_records (gw_pipeline gateway) session world e")
    (auto simp: gateway_submit_def submitted_via_def command_submission_def make_protocol_result_def split: prod.split)

text \<open>C27: The gateway decides every byte string. Bytes that are not a command frame are
  answered with their parse error and leave gateway, session, world and evidence untouched;
  a command frame is answered exactly as its envelope is by the pipeline.\<close>

theorem gateway_behaviour:
  assumes "make_gateway limits = Inr gateway0" and "gateway = gateway0\<lparr>gw_pipeline := evidence\<rparr>"
  shows "(\<exists>code. code \<noteq> Parse_none \<and> decode_command_frame bs limits = Inr (Inl code) \<and>
      gateway_submit max_records gateway session world bs =
        Inr (\<lparr>ps_parse_error = code, ps_command_result = None\<rparr>, gateway, session, world)) \<or>
    (\<exists>e. envelope_ok e \<and> encode_command_frame e = Inr bs \<and>
      gateway_submit max_records gateway session world bs =
        submitted_via gateway (submit max_records evidence session world e))"
proof -
  have lim: "limits_ok limits" "gw_limits gateway = limits" "gw_pipeline gateway = evidence"
    using assms by (auto simp: make_gateway_def limits_ok_def split: if_split_asm)
  from lim(1) show ?thesis
  proof (cases rule: decode_command_frame_cases [where bs = bs])
    case (rejected code)
    then show ?thesis
      using gateway_submit_rejected [of bs gateway code] lim by auto
  next
    case (decoded e)
    then obtain view where v: "parse_frame bs limits = Inr (Inr view)" "decode_command_envelope (fv_payload view) = Inr (Inr e)"
      by (auto simp: decode_command_frame_def result_simps)
    then have "bs = frame_bytes (envelope_bytes e)"
      by (simp add: parse_frame_accepts [OF lim(1)] decode_command_envelope_iff)
    then show ?thesis
      using gateway_submit_decoded [of bs gateway e] decoded lim by (auto simp: encode_command_frame_eq)
  qed
qed

definition demo_gateway :: AuthoritativeCommandGateway where
  "demo_gateway = \<lparr>gw_limits = default_protocol_limits, gw_pipeline = empty_log\<rparr>"

theorem gateway_behaviour_witness:
  "make_gateway default_protocol_limits = Inr demo_gateway \<and>
   gateway_submit 100 demo_gateway demo_session demo_world [1, 2, 3] =
     Inr (\<lparr>ps_parse_error = Truncated_header, ps_command_result = None\<rparr>, demo_gateway, demo_session, demo_world)"
proof -
  have made: "make_gateway default_protocol_limits = Inr demo_gateway"
    by (simp add: make_gateway_def default_protocol_limits_def demo_gateway_def)
  moreover have "decode_command_frame [1, 2, 3] default_protocol_limits = Inr (Inl Truncated_header)"
    by code_simp
  moreover have "frame_bytes (envelope_bytes e) \<noteq> [1, 2, 3]" for e
    by (auto dest: arg_cong [where f = length] simp: frame_bytes_def)
  moreover have "demo_gateway = demo_gateway\<lparr>gw_pipeline := empty_log\<rparr>"
    by (simp add: demo_gateway_def)
  ultimately show ?thesis
    using gateway_behaviour [OF made, of demo_gateway empty_log "[1, 2, 3]" 100 demo_session demo_world]
    by (auto simp: encode_command_frame_eq)
qed

end
