(* ===== verification/Archive.thy ===== *)
theory Archive
  imports Evidence "HOL-Library.Sublist"
begin

text \<open>
  The archive of \<open>command/command_evidence_archive.cpp\<close>: a header of 56 bytes followed by the
  encoded records. Decoding checks the header, the size, every record, the chain and the
  trusted head. Files are an explicit store; the outcome of an operating-system call is an
  argument, so that interrupted writes are part of the model.
\<close>

section \<open>Writer and reader\<close>

abbreviation command_evidence_archive_schema_version :: u16 where
  "command_evidence_archive_schema_version \<equiv> 1"

abbreviation command_evidence_archive_header_size :: nat where
  "command_evidence_archive_header_size \<equiv> 56"

datatype CommandEvidenceArchiveErrorCode =
    Archive_truncated_header
  | Archive_invalid_magic
  | Archive_unsupported_archive_schema
  | Archive_unsupported_record_schema
  | Archive_invalid_record_size
  | Archive_nonzero_reserved_field
  | Archive_record_count_overflow
  | Archive_truncated_records
  | Archive_trailing_data
  | Archive_chain_verification_failed
  | Archive_trusted_head_mismatch
  | Archive_io_error

text \<open>The two exception classes that leave the archive functions.\<close>

datatype archive_exception =
    CommandEvidenceArchiveError CommandEvidenceArchiveErrorCode
  | CommandEvidenceDecodeError CommandEvidenceDecodeErrorCode

record CommandEvidenceArchive =
  ca_records :: "CommandEvidenceRecord list"
  ca_head_digest :: Sha256Digest

definition archive_magic :: bytes where
  "archive_magic = [0x54, 0x4c, 0x43, 0x41]"

definition archive_append_byte :: "bytes \<Rightarrow> u8 \<Rightarrow> bytes" where
  "archive_append_byte output value = output @ [value]"

definition archive_append_u16 :: "bytes \<Rightarrow> u16 \<Rightarrow> bytes" where
  "archive_append_u16 output value =
     (let output = archive_append_byte output (ucast (drop_bit 8 value AND 0xff))
      in archive_append_byte output (ucast (value AND 0xff)))"

definition archive_append_u32 :: "bytes \<Rightarrow> u32 \<Rightarrow> bytes" where
  "archive_append_u32 output value =
     foldl (\<lambda>output shift. archive_append_byte output (ucast (drop_bit shift value AND 0xff)))
       output [24, 16, 8, 0]"

definition archive_append_u64 :: "bytes \<Rightarrow> u64 \<Rightarrow> bytes" where
  "archive_append_u64 output value =
     foldl (\<lambda>output shift. archive_append_byte output (ucast (drop_bit shift value AND 0xff)))
       output [56, 48, 40, 32, 24, 16, 8, 0]"

definition archive_append_digest :: "bytes \<Rightarrow> Sha256Digest \<Rightarrow> bytes" where
  "archive_append_digest output digest = output @ digest_bytes digest"

record ArchiveReader =
  ard_input :: bytes
  ard_offset :: nat

definition archive_read_byte :: "ArchiveReader \<Rightarrow> (u8 \<times> ArchiveReader) result" where
  "archive_read_byte r =
     bind_result (span_at (ard_input r) (ard_offset r)) (\<lambda>value.
     Inr (value, r\<lparr>ard_offset := ard_offset r + 1\<rparr>))"

definition archive_read_u16 :: "ArchiveReader \<Rightarrow> (u16 \<times> ArchiveReader) result" where
  "archive_read_u16 r = read_pair archive_read_byte r"

definition archive_read_u32 :: "ArchiveReader \<Rightarrow> (u32 \<times> ArchiveReader) result" where
  "archive_read_u32 r = read_value archive_read_byte 4 r"

definition archive_read_u64 :: "ArchiveReader \<Rightarrow> (u64 \<times> ArchiveReader) result" where
  "archive_read_u64 r = read_value archive_read_byte 8 r"

definition archive_read_digest :: "ArchiveReader \<Rightarrow> (Sha256Digest \<times> ArchiveReader) result" where
  "archive_read_digest r = bind_result (read_many archive_read_byte 32 r) (\<lambda>(bs, r). Inr (Sha256Digest bs, r))"

section \<open>Encoding and decoding\<close>

text \<open>
  \<open>std::size_t\<close> has 64 bits, so every 64-bit count is in its range and the first test of the
  source never fires; the second one keeps the size computation from wrapping.
\<close>

definition checked_archive_size :: "u64 \<Rightarrow> CommandEvidenceArchiveErrorCode + nat" where
  "checked_archive_size record_count =
     (let n = unat record_count; maximum = u64_limit - 1
      in if \<not> n < u64_limit then Inl Archive_record_count_overflow
      else if n > (maximum - command_evidence_archive_header_size) div command_evidence_encoded_size
      then Inl Archive_record_count_overflow
      else Inr (command_evidence_archive_header_size + n * command_evidence_encoded_size))"

fun append_records :: "bytes \<Rightarrow> CommandEvidenceRecord list \<Rightarrow> bytes result" where
  "append_records output [] = Inr output"
| "append_records output (r # records) =
     bind_result (encode_command_evidence r) (\<lambda>encoded_record.
     append_records (output @ encoded_record) records)"

definition encode_command_evidence_archive ::
  "CommandEvidenceRecord list \<Rightarrow> Sha256Digest \<Rightarrow> (archive_exception + bytes) result"
where
  "encode_command_evidence_archive records head_digest =
     bind_result (verify_command_evidence_chain records head_digest) (\<lambda>verified.
     if \<not> verified
     then Inr (Inl (CommandEvidenceArchiveError Archive_chain_verification_failed))
     else if \<not> length records < u64_limit
     then Inr (Inl (CommandEvidenceArchiveError Archive_record_count_overflow))
     else case checked_archive_size (of_nat (length records)) of
       Inl code \<Rightarrow> Inr (Inl (CommandEvidenceArchiveError code))
     | Inr encoded_size \<Rightarrow>
         let output = foldl archive_append_byte [] archive_magic;
             output = archive_append_u16 output command_evidence_archive_schema_version;
             output = archive_append_u16 output command_evidence_schema_version;
             output = archive_append_u32 output (of_nat command_evidence_encoded_size);
             output = archive_append_u32 output 0;
             output = archive_append_u64 output (of_nat (length records));
             output = archive_append_digest output head_digest
         in bind_result (append_records output records) (\<lambda>output.
            if length output \<noteq> encoded_size then Inl Logic_error else Inr (Inr output)))"

fun decode_records ::
  "bytes \<Rightarrow> nat \<Rightarrow> nat \<Rightarrow> (CommandEvidenceDecodeErrorCode + CommandEvidenceRecord list) result"
where
  "decode_records encoded offset 0 = Inr (Inr [])"
| "decode_records encoded offset (Suc n) =
     bind_result (subspan_count encoded offset command_evidence_encoded_size) (\<lambda>record_bytes.
     bind_result (decode_command_evidence record_bytes) (\<lambda>decoded. case decoded of
       Inl code \<Rightarrow> Inr (Inl code)
     | Inr r \<Rightarrow>
         bind_result (decode_records encoded (offset + command_evidence_encoded_size) n) (\<lambda>rest. case rest of
           Inl code \<Rightarrow> Inr (Inl code)
         | Inr records \<Rightarrow> Inr (Inr (r # records)))))"

definition decode_command_evidence_archive ::
  "bytes \<Rightarrow> Sha256Digest \<Rightarrow> (archive_exception + CommandEvidenceArchive) result"
where
  "decode_command_evidence_archive encoded trusted_head =
     (let failed = (\<lambda>code. Inr (Inl (CommandEvidenceArchiveError code))) in
      if length encoded < command_evidence_archive_header_size then failed Archive_truncated_header
      else bind_result (subspan_count encoded 0 command_evidence_archive_header_size) (\<lambda>header.
      bind_result (read_expected archive_read_byte archive_magic \<lparr>ard_input = header, ard_offset = 0\<rparr>) (\<lambda>(magic_ok, r).
      if \<not> magic_ok then failed Archive_invalid_magic
      else bind_result (archive_read_u16 r) (\<lambda>(archive_schema, r).
      if archive_schema \<noteq> command_evidence_archive_schema_version
      then failed Archive_unsupported_archive_schema
      else bind_result (archive_read_u16 r) (\<lambda>(record_schema, r).
      if record_schema \<noteq> command_evidence_schema_version
      then failed Archive_unsupported_record_schema
      else bind_result (archive_read_u32 r) (\<lambda>(record_size, r).
      if unat record_size \<noteq> command_evidence_encoded_size then failed Archive_invalid_record_size
      else bind_result (archive_read_u32 r) (\<lambda>(reserved, r).
      if reserved \<noteq> 0 then failed Archive_nonzero_reserved_field
      else bind_result (archive_read_u64 r) (\<lambda>(record_count, r).
      bind_result (archive_read_digest r) (\<lambda>(declared_head, r).
      case checked_archive_size record_count of
        Inl code \<Rightarrow> failed code
      | Inr expected_size \<Rightarrow>
      if length encoded < expected_size then failed Archive_truncated_records
      else if length encoded > expected_size then failed Archive_trailing_data
      else bind_result (decode_records encoded command_evidence_archive_header_size (unat record_count)) (\<lambda>decoded.
      case decoded of
        Inl code \<Rightarrow> Inr (Inl (CommandEvidenceDecodeError code))
      | Inr records \<Rightarrow>
      bind_result (verify_command_evidence_chain records declared_head) (\<lambda>verified.
      if \<not> verified then failed Archive_chain_verification_failed
      else if declared_head \<noteq> trusted_head then failed Archive_trusted_head_mismatch
      else Inr (Inr \<lparr>ca_records = records, ca_head_digest = declared_head\<rparr>))))))))))))"

section \<open>Files\<close>

text \<open>
  The file store maps paths to contents. What the operating system makes of a stream is an
  argument: opening may fail; writing, flushing or closing may fail after any part of the
  data reached the file, which opening has truncated; a read may deliver less than the file
  holds. \<open>stream_limit\<close> is the largest value of \<open>std::streamsize\<close>.
\<close>

type_synonym 'p files = "'p \<Rightarrow> bytes option"

datatype write_outcome =
    Write_open_failed
  | Write_failed nat
  | Write_close_failed nat
  | Write_completed

definition write_command_evidence_archive ::
  "'p \<Rightarrow> CommandEvidenceRecord list \<Rightarrow> Sha256Digest \<Rightarrow> write_outcome \<Rightarrow> 'p files \<Rightarrow>
   ((archive_exception + unit) \<times> 'p files) result"
where
  "write_command_evidence_archive path records head_digest outcome files =
     bind_result (encode_command_evidence_archive records head_digest) (\<lambda>r. case r of
       Inl e \<Rightarrow> Inr (Inl e, files)
     | Inr encoded \<Rightarrow> Inr (case outcome of
         Write_open_failed \<Rightarrow> (Inl (CommandEvidenceArchiveError Archive_io_error), files)
       | Write_failed n \<Rightarrow> (Inl (CommandEvidenceArchiveError Archive_io_error), files(path \<mapsto> take n encoded))
       | Write_close_failed n \<Rightarrow> (Inl (CommandEvidenceArchiveError Archive_io_error), files(path \<mapsto> take n encoded))
       | Write_completed \<Rightarrow> (Inr (), files(path \<mapsto> encoded))))"

definition write_evidence_log ::
  "'p \<Rightarrow> CommandEvidenceLog \<Rightarrow> write_outcome \<Rightarrow> 'p files \<Rightarrow> ((archive_exception + unit) \<times> 'p files) result"
where
  "write_evidence_log path evidence outcome files =
     write_command_evidence_archive path (cl_records evidence) (cl_head_digest evidence) outcome files"

datatype read_outcome =
    Read_open_failed
  | Read_size_unknown
  | Read_delivers nat

definition stream_limit :: nat where
  "stream_limit = 9223372036854775807"

definition read_command_evidence_archive ::
  "'p \<Rightarrow> Sha256Digest \<Rightarrow> read_outcome \<Rightarrow> 'p files \<Rightarrow> (archive_exception + CommandEvidenceArchive) result"
where
  "read_command_evidence_archive path trusted_head outcome files =
     (let io_error = Inr (Inl (CommandEvidenceArchiveError Archive_io_error)) in
      case files path of
        None \<Rightarrow> io_error
      | Some contents \<Rightarrow> (case outcome of
          Read_open_failed \<Rightarrow> io_error
        | Read_size_unknown \<Rightarrow> io_error
        | Read_delivers n \<Rightarrow>
            let file_size = length contents in
            if file_size > u64_limit - 1 \<or> file_size > stream_limit then io_error
            else if contents \<noteq> [] \<and> min n file_size \<noteq> file_size then io_error
            else decode_command_evidence_archive contents trusted_head))"

section \<open>The layout\<close>

definition archive_header :: "u64 \<Rightarrow> Sha256Digest \<Rightarrow> bytes" where
  "archive_header n head = archive_magic @ be16 1 @ be16 2 @ be32 160 @ be32 0 @ be64 n @ digest_bytes head"

definition archive_bytes :: "CommandEvidenceRecord list \<Rightarrow> Sha256Digest \<Rightarrow> bytes" where
  "archive_bytes records head = archive_header (of_nat (length records)) head @ concat (map evidence_bytes records)"

abbreviation max_archive_records :: nat where
  "max_archive_records \<equiv> 115292150460684697"

lemma checked_archive_size_eq:
  "checked_archive_size n = (if unat n \<le> max_archive_records then Inr (56 + unat n * 160) else Inl Archive_record_count_overflow)"
  using unsigned_less [of n, where ?'a = nat] by (simp add: checked_archive_size_def Let_def not_less)

lemma archive_append_be:
  "archive_append_u16 out a = out @ be16 a" "archive_append_u32 out b = out @ be32 b"
  "archive_append_u64 out c = out @ be64 c"
  by (simp_all add: archive_append_u16_def archive_append_u32_def archive_append_u64_def archive_append_byte_def
    be16_def be32_def be64_def byte_at_def)

lemma archive_magic_written: "foldl archive_append_byte [] archive_magic = archive_magic"
  by (simp add: archive_append_byte_def archive_magic_def)

lemma length_archive_magic [simp, width_simps]: "length archive_magic = 4"
  by (simp add: archive_magic_def)

lemma length_archive_header [simp, width_simps]: "digest_ok head \<Longrightarrow> length (archive_header n head) = 56"
  by (simp add: archive_header_def digest_ok_def)

lemma append_records_eq:
  "list_all (\<lambda>r. digest_ok (er_previous_record_digest r)) records \<Longrightarrow>
   append_records out records = Inr (out @ concat (map evidence_bytes records))"
  by (induction records arbitrary: out) (simp_all add: encode_command_evidence_eq)

lemma length_records:
  "list_all (\<lambda>r. digest_ok (er_previous_record_digest r)) records \<Longrightarrow>
   length (concat (map evidence_bytes records)) = length records * 160"
  by (induction records) (simp_all add: length_evidence_bytes)

interpretation archive_reader: byte_reader archive_read_byte "\<lambda>bs k. \<lparr>ard_input = bs, ard_offset = k\<rparr>"
  by unfold_locales (simp add: archive_read_byte_def span_at_def)

lemmas archive_reader_at = archive_reader.read_pair_at archive_reader.read_value_at archive_reader.read_many_at

lemma of_nat_unat_u64: "n < u64_limit \<Longrightarrow> unat (of_nat n :: u64) = n"
  by (simp add: unsigned_of_nat take_bit_nat_eq_self)

lemma verified_digests:
  assumes "verify_command_evidence_chain records head = Inr True"
  shows "list_all (\<lambda>r. digest_ok (er_previous_record_digest r)) records" "digest_ok head"
  using assms links_digests_ok [of Sha256Digest_zero records head] by (simp_all add: verify_chain_eq)

lemma encode_archive_eq:
  "encode_command_evidence_archive records head =
    Inr (if verify_command_evidence_chain records head \<noteq> Inr True
         then Inl (CommandEvidenceArchiveError Archive_chain_verification_failed)
         else if length records > max_archive_records
         then Inl (CommandEvidenceArchiveError Archive_record_count_overflow)
         else Inr (archive_bytes records head))"
proof (cases "verify_command_evidence_chain records head = Inr True")
  case True
  note ok = verified_digests [OF True]
  show ?thesis
  proof (cases "length records < u64_limit")
    case small: True
    show ?thesis
      using True ok small
      by (simp add: encode_command_evidence_archive_def checked_archive_size_eq of_nat_unat_u64 archive_magic_written
        archive_append_be archive_append_digest_def append_records_eq length_records Let_def)
        (simp add: archive_bytes_def archive_header_def digest_ok_def)
  next
    case False
    then show ?thesis
      using True by (simp add: encode_command_evidence_archive_def)
  qed
next
  case False
  then show ?thesis
    by (auto simp: encode_command_evidence_archive_def verify_chain_eq)
qed

section \<open>Decoding in closed form\<close>

definition archive_checks :: "bytes \<Rightarrow> (bool \<times> CommandEvidenceArchiveErrorCode) list" where
  "archive_checks bs =
     (let n = unat (be_value (take 8 (drop 16 bs)) :: u64)
      in [(length bs < 56, Archive_truncated_header),
          (take 4 bs \<noteq> archive_magic, Archive_invalid_magic),
          (be_value (take 2 (drop 4 bs)) \<noteq> (1 :: u16), Archive_unsupported_archive_schema),
          (be_value (take 2 (drop 6 bs)) \<noteq> (2 :: u16), Archive_unsupported_record_schema),
          (be_value (take 4 (drop 8 bs)) \<noteq> (160 :: u32), Archive_invalid_record_size),
          (be_value (take 4 (drop 12 bs)) \<noteq> (0 :: u32), Archive_nonzero_reserved_field),
          (n > max_archive_records, Archive_record_count_overflow),
          (length bs < 56 + n * 160, Archive_truncated_records),
          (length bs > 56 + n * 160, Archive_trailing_data)])"

definition declared_records :: "bytes \<Rightarrow> (CommandEvidenceDecodeErrorCode + CommandEvidenceRecord list) result" where
  "declared_records bs = decode_records bs 56 (unat (be_value (take 8 (drop 16 bs)) :: u64))"

lemma archive_field: "k + n \<le> 56 \<Longrightarrow> take n (drop k (take 56 bs)) = take n (drop k bs)"
  by (simp add: drop_take min_def)

lemma decode_archive_eq:
  "decode_command_evidence_archive bs trusted =
    (case first_failure (archive_checks bs) of
       Some code \<Rightarrow> Inr (Inl (CommandEvidenceArchiveError code))
     | None \<Rightarrow> bind_result (declared_records bs) (\<lambda>decoded. case decoded of
         Inl code \<Rightarrow> Inr (Inl (CommandEvidenceDecodeError code))
       | Inr records \<Rightarrow>
           let head = Sha256Digest (take 32 (drop 24 bs)) in
           if verify_command_evidence_chain records head \<noteq> Inr True
           then Inr (Inl (CommandEvidenceArchiveError Archive_chain_verification_failed))
           else if head \<noteq> trusted then Inr (Inl (CommandEvidenceArchiveError Archive_trusted_head_mismatch))
           else Inr (Inr \<lparr>ca_records = records, ca_head_digest = head\<rparr>)))"
proof (cases "length bs < 56")
  case True
  then show ?thesis
    by (simp add: decode_command_evidence_archive_def archive_checks_def Let_def)
next
  case False
  define h where "h = take 56 bs"
  have h: "subspan_count bs 0 56 = Inr h" "length h = 56"
    using False by (simp_all add: h_def subspan_count_def)
  have fields: "take n (drop k h) = take n (drop k bs)" if "k + n \<le> 56" for n k
    using that archive_field [of k n bs] by (simp add: h_def)
  obtain r where magic: "read_expected archive_read_byte archive_magic \<lparr>ard_input = h, ard_offset = 0\<rparr> =
      Inr (take 4 bs = archive_magic, r)" "take 4 bs = archive_magic \<Longrightarrow> r = \<lparr>ard_input = h, ard_offset = 4\<rparr>"
    using archive_reader.read_expected_at [of 0 archive_magic h] h fields [of 0 4] by auto
  have size: "unat (w :: u32) = 160 \<longleftrightarrow> w = 160" for w
    by (simp add: word_unat_eq_iff)
  define a where "a = (be_value (take 2 (drop 4 bs)) :: u16)"
  define b where "b = (be_value (take 2 (drop 6 bs)) :: u16)"
  define c where "c = (be_value (take 4 (drop 8 bs)) :: u32)"
  define d where "d = (be_value (take 4 (drop 12 bs)) :: u32)"
  define n where "n = (be_value (take 8 (drop 16 bs)) :: u64)"
  define head where "head = Sha256Digest (take 32 (drop 24 bs))"
  note abstract = a_def [symmetric] b_def [symmetric] c_def [symmetric] d_def [symmetric] n_def [symmetric] head_def [symmetric]
  have last: "drop 24 h = take 32 (drop 24 bs)"
    using fields [of 24 32] h(2) by simp
  have reads: "archive_read_u16 \<lparr>ard_input = h, ard_offset = 4\<rparr> = Inr (a, \<lparr>ard_input = h, ard_offset = 6\<rparr>)"
      "archive_read_u16 \<lparr>ard_input = h, ard_offset = 6\<rparr> = Inr (b, \<lparr>ard_input = h, ard_offset = 8\<rparr>)"
      "archive_read_u32 \<lparr>ard_input = h, ard_offset = 8\<rparr> = Inr (c, \<lparr>ard_input = h, ard_offset = 12\<rparr>)"
      "archive_read_u32 \<lparr>ard_input = h, ard_offset = 12\<rparr> = Inr (d, \<lparr>ard_input = h, ard_offset = 16\<rparr>)"
      "archive_read_u64 \<lparr>ard_input = h, ard_offset = 16\<rparr> = Inr (n, \<lparr>ard_input = h, ard_offset = 24\<rparr>)"
      "archive_read_digest \<lparr>ard_input = h, ard_offset = 24\<rparr> = Inr (head, \<lparr>ard_input = h, ard_offset = 56\<rparr>)"
    by (simp_all add: archive_read_u16_def archive_read_u32_def archive_read_u64_def archive_read_digest_def
      archive_reader_at h(2) fields last abstract)
  show ?thesis
  proof (cases "take 4 bs = archive_magic")
    case True
    show ?thesis
      unfolding decode_command_evidence_archive_def archive_checks_def declared_records_def abstract
      using False True magic
      by (simp add: h reads size checked_archive_size_eq verify_chain_eq Let_def)
  next
    case no: False
    then show ?thesis
      using False magic h by (simp add: decode_command_evidence_archive_def archive_checks_def Let_def)
  qed
qed

section \<open>Round trip and strictness\<close>

lemma decode_records_total: "offset + n * 160 \<le> length bs \<Longrightarrow> \<exists>r. decode_records bs offset n = Inr r"
proof (induction n arbitrary: offset)
  case (Suc n)
  obtain d where "decode_command_evidence (take 160 (drop offset bs)) = Inr d"
    using decode_command_evidence_total by blast
  moreover obtain r where "decode_records bs (offset + 160) n = Inr r"
    using Suc.IH [of "offset + 160"] Suc.prems by auto
  ultimately show ?case
    using Suc.prems by (cases d; cases r) (simp_all add: subspan_count_def)
qed simp

lemma decode_records_iff:
  "offset + n * 160 \<le> length bs \<Longrightarrow> decode_records bs offset n = Inr (Inr records) \<longleftrightarrow>
   length records = n \<and> list_all record_ok records \<and> take (n * 160) (drop offset bs) = concat (map evidence_bytes records)"
proof (induction n arbitrary: offset records)
  case (Suc n)
  let ?first = "take 160 (drop offset bs)" and ?rest = "take (n * 160) (drop (offset + 160) bs)"
  have split: "take (Suc n * 160) (drop offset bs) = ?first @ ?rest"
    by (simp add: take_add add.commute)
  have len: "length ?first = 160"
    using Suc.prems by simp
  have "decode_records bs offset (Suc n) = Inr (Inr records) \<longleftrightarrow>
      (\<exists>r rs. records = r # rs \<and> decode_command_evidence ?first = Inr (Inr r) \<and>
        decode_records bs (offset + 160) n = Inr (Inr rs))"
    using Suc.prems by (auto simp: subspan_count_def result_simps)
  also have "\<dots> \<longleftrightarrow> (\<exists>r rs. records = r # rs \<and> record_ok r \<and> ?first = evidence_bytes r \<and>
        length rs = n \<and> list_all record_ok rs \<and> ?rest = concat (map evidence_bytes rs))"
    using Suc.prems Suc.IH [of "offset + 160"] by (auto simp: decode_command_evidence_iff)
  also have "\<dots> \<longleftrightarrow> length records = Suc n \<and> list_all record_ok records \<and>
      ?first @ ?rest = concat (map evidence_bytes records)"
  proof (cases records)
    case (Cons r rs)
    have "record_ok r \<Longrightarrow> length (evidence_bytes r) = 160"
      by (simp add: record_ok_def length_evidence_bytes)
    then show ?thesis
      using len by (auto simp: Cons append_eq_append_conv)
  qed simp
  finally show ?case
    by (simp only: split)
qed auto

definition archive_ok :: "CommandEvidenceRecord list \<Rightarrow> Sha256Digest \<Rightarrow> bool" where
  "archive_ok records head \<longleftrightarrow> verify_command_evidence_chain records head = Inr True \<and>
     list_all record_ok records \<and> length records \<le> max_archive_records"

lemma header_fields:
  assumes "digest_ok head"
  shows "take 4 (archive_header n head @ xs) = archive_magic"
    "be_value (take 2 (drop 4 (archive_header n head @ xs))) = (1 :: u16)"
    "be_value (take 2 (drop 6 (archive_header n head @ xs))) = (2 :: u16)"
    "be_value (take 4 (drop 8 (archive_header n head @ xs))) = (160 :: u32)"
    "be_value (take 4 (drop 12 (archive_header n head @ xs))) = (0 :: u32)"
    "be_value (take 8 (drop 16 (archive_header n head @ xs))) = n"
    "take 32 (drop 24 (archive_header n head @ xs)) = digest_bytes head"
  using assms by (simp_all add: archive_header_def digest_ok_def)

lemma archive_header_split:
  assumes "56 \<le> length bs" and "take 4 bs = archive_magic" and "be_value (take 2 (drop 4 bs)) = (1 :: u16)"
    and "be_value (take 2 (drop 6 bs)) = (2 :: u16)" and "be_value (take 4 (drop 8 bs)) = (160 :: u32)"
    and "be_value (take 4 (drop 12 bs)) = (0 :: u32)"
  shows "bs = archive_header (be_value (take 8 (drop 16 bs))) (Sha256Digest (take 32 (drop 24 bs))) @ drop 56 bs"
proof -
  have "bs = take 4 bs @ take 2 (drop 4 bs) @ take 2 (drop 6 bs) @ take 4 (drop 8 bs) @ take 4 (drop 12 bs) @
      take 8 (drop 16 bs) @ take 32 (drop 24 bs) @ drop 56 bs"
    using take_add_drop [of 2 4 bs] take_add_drop [of 2 6 bs] take_add_drop [of 4 8 bs] take_add_drop [of 4 12 bs]
      take_add_drop [of 8 16 bs] take_add_drop [of 32 24 bs] by simp
  moreover have "take 2 (drop 4 bs) = be16 1" "take 2 (drop 6 bs) = be16 2" "take 4 (drop 8 bs) = be32 160"
      "take 4 (drop 12 bs) = be32 0" "take 8 (drop 16 bs) = be64 (be_value (take 8 (drop 16 bs)))"
    using assms be_be_value(1) [of "take 2 (drop 4 bs)"] be_be_value(1) [of "take 2 (drop 6 bs)"]
      be_be_value(2) [of "take 4 (drop 8 bs)"] be_be_value(2) [of "take 4 (drop 12 bs)"] by simp_all
  ultimately show ?thesis
    unfolding archive_header_def append_assoc Sha256Digest.sel using assms(2) by metis
qed

lemma archive_checks_bytes:
  assumes "archive_ok records head"
  shows "first_failure (archive_checks (archive_bytes records head)) = None"
    "declared_records (archive_bytes records head) = Inr (Inr records)"
    "Sha256Digest (take 32 (drop 24 (archive_bytes records head))) = head"
proof -
  have ok: "digest_ok head" "list_all record_ok records" "list_all (\<lambda>r. digest_ok (er_previous_record_digest r)) records"
      "length records \<le> max_archive_records"
    using assms verified_digests [of records head] by (simp_all add: archive_ok_def)
  define n where "n = (of_nat (length records) :: u64)"
  have n: "unat n = length records"
    using ok(4) by (simp add: n_def of_nat_unat_u64)
  have len: "length (archive_bytes records head) = 56 + length records * 160"
    using ok by (simp add: archive_bytes_def length_records)
  have bytes: "archive_bytes records head = archive_header n head @ concat (map evidence_bytes records)"
    by (simp add: archive_bytes_def n_def)
  show "first_failure (archive_checks (archive_bytes records head)) = None"
    using len n ok(4) unfolding bytes archive_checks_def Let_def header_fields [OF ok(1)] by simp
  have "decode_records (archive_bytes records head) 56 (length records) = Inr (Inr records)"
    using len ok by (subst decode_records_iff) (simp_all add: archive_bytes_def length_records)
  then show "declared_records (archive_bytes records head) = Inr (Inr records)"
    unfolding declared_records_def bytes header_fields [OF ok(1)] n .
  show "Sha256Digest (take 32 (drop 24 (archive_bytes records head))) = head"
    unfolding bytes header_fields [OF ok(1)] by simp
qed

lemma decode_archive_iff:
  "decode_command_evidence_archive bs trusted = Inr (Inr a) \<longleftrightarrow>
   archive_ok (ca_records a) trusted \<and> ca_head_digest a = trusted \<and> bs = archive_bytes (ca_records a) trusted"
proof
  assume L: "decode_command_evidence_archive bs trusted = Inr (Inr a)"
  define n where "n = (be_value (take 8 (drop 16 bs)) :: u64)"
  from L obtain records where none: "first_failure (archive_checks bs) = None"
      and recs: "declared_records bs = Inr (Inr records)"
      and ver: "verify_command_evidence_chain records trusted = Inr True"
      and a: "a = \<lparr>ca_records = records, ca_head_digest = trusted\<rparr>"
      and head: "Sha256Digest (take 32 (drop 24 bs)) = trusted"
    by (auto simp: decode_archive_eq result_simps Let_def split: option.split_asm if_split_asm)
  have c: "56 \<le> length bs" "take 4 bs = archive_magic" "be_value (take 2 (drop 4 bs)) = (1 :: u16)"
      "be_value (take 2 (drop 6 bs)) = (2 :: u16)" "be_value (take 4 (drop 8 bs)) = (160 :: u32)"
      "be_value (take 4 (drop 12 bs)) = (0 :: u32)" "unat n \<le> max_archive_records" "length bs = 56 + unat n * 160"
    using none unfolding archive_checks_def Let_def n_def [symmetric] by (simp_all split: if_split_asm)
  have r: "length records = unat n" "list_all record_ok records" "drop 56 bs = concat (map evidence_bytes records)"
    using recs c(8) decode_records_iff [of 56 "unat n" bs records] unfolding declared_records_def n_def [symmetric] by simp_all
  have "bs = archive_header n trusted @ drop 56 bs"
    using archive_header_split [OF c(1-6)] unfolding n_def [symmetric] head .
  moreover have "of_nat (length records) = n"
    using r(1) by simp
  ultimately have "bs = archive_bytes records trusted"
    using r(3) by (simp add: archive_bytes_def)
  then show "archive_ok (ca_records a) trusted \<and> ca_head_digest a = trusted \<and> bs = archive_bytes (ca_records a) trusted"
    using ver r c(7) by (simp add: a archive_ok_def)
next
  assume R: "archive_ok (ca_records a) trusted \<and> ca_head_digest a = trusted \<and> bs = archive_bytes (ca_records a) trusted"
  then show "decode_command_evidence_archive bs trusted = Inr (Inr a)"
    using archive_checks_bytes [of "ca_records a" trusted]
    by (simp add: decode_archive_eq archive_ok_def Let_def)
qed

lemma decode_archive_total: "\<exists>r. decode_command_evidence_archive bs trusted = Inr r"
proof (cases "first_failure (archive_checks bs)")
  case None
  define n where "n = (be_value (take 8 (drop 16 bs)) :: u64)"
  have "length bs = 56 + unat n * 160"
    using None unfolding archive_checks_def Let_def n_def [symmetric] by (simp split: if_split_asm)
  then obtain r where "declared_records bs = Inr r"
    using decode_records_total [of 56 "unat n" bs] unfolding declared_records_def n_def [symmetric] by auto
  with None show ?thesis
    by (cases r) (simp_all add: decode_archive_eq Let_def)
qed (simp add: decode_archive_eq)

text \<open>C19: Archives round-trip and the decoder is strict. Every byte string is decoded or refused
  with an exception of the two documented classes, without an access outside the input; it
  is decoded exactly when it is what the encoder writes for records that chain to the
  trusted head and satisfy the record invariants, and the archive is then those records and
  that head.\<close>

theorem archive_roundtrip:
  "(\<exists>r. decode_command_evidence_archive bs trusted = Inr r) \<and>
   (decode_command_evidence_archive bs trusted = Inr (Inr a) \<longleftrightarrow>
      list_all record_ok (ca_records a) \<and> ca_head_digest a = trusted \<and>
      encode_command_evidence_archive (ca_records a) trusted = Inr (Inr bs))"
proof
  show "\<exists>r. decode_command_evidence_archive bs trusted = Inr r"
    by (rule decode_archive_total)
  show "decode_command_evidence_archive bs trusted = Inr (Inr a) \<longleftrightarrow>
      list_all record_ok (ca_records a) \<and> ca_head_digest a = trusted \<and>
      encode_command_evidence_archive (ca_records a) trusted = Inr (Inr bs)"
    by (auto simp: decode_archive_iff encode_archive_eq archive_ok_def split: if_split_asm)
qed

text \<open>A proper prefix of an archive is recognised as truncated.\<close>

lemma archive_prefix_rejected:
  assumes "archive_ok records head" and "n < length (archive_bytes records head)"
  shows "decode_command_evidence_archive (take n (archive_bytes records head)) trusted =
    Inr (Inl (CommandEvidenceArchiveError (if n < 56 then Archive_truncated_header else Archive_truncated_records)))"
proof (cases "n < 56")
  case True
  then show ?thesis
    using assms(2) by (simp add: decode_archive_eq archive_checks_def Let_def)
next
  case False
  have ok: "digest_ok head" "list_all (\<lambda>r. digest_ok (er_previous_record_digest r)) records"
      "length records \<le> max_archive_records"
    using assms(1) verified_digests [of records head] by (simp_all add: archive_ok_def)
  define m where "m = (of_nat (length records) :: u64)"
  have m: "unat m = length records"
    using ok(3) by (simp add: m_def of_nat_unat_u64)
  have bytes: "take n (archive_bytes records head) = archive_header m head @ take (n - 56) (concat (map evidence_bytes records))"
    using False ok(1) by (simp add: archive_bytes_def m_def)
  have len: "length (take n (archive_bytes records head)) = n" "n < 56 + length records * 160"
    using assms(2) ok by (simp_all add: archive_bytes_def length_records)
  have "first_failure (archive_checks (take n (archive_bytes records head))) = Some Archive_truncated_records"
    using len False ok(3) m unfolding archive_checks_def Let_def bytes header_fields [OF ok(1)] by simp
  with False show ?thesis
    by (simp add: decode_archive_eq)
qed

text \<open>C26: Writing an archive of valid records that chain to its head is all or nothing for the
  reader. After a completed write, a
  complete read returns exactly the records and the head that were written. After a write
  that reported an error because opening, writing or closing failed, the file is what it was
  before, or a complete read of it either returns exactly what was to be written (every byte
  had arrived) or is refused as truncated: no partial archive is ever accepted.\<close>

theorem archive_file_roundtrip:
  assumes "archive_ok records head"
    and "write_command_evidence_archive path records head outcome files = Inr (r, files')"
    and "length (archive_bytes records head) \<le> stream_limit" and "length (archive_bytes records head) \<le> n"
  shows "if r = Inr ()
    then read_command_evidence_archive path head (Read_delivers n) files' =
      Inr (Inr \<lparr>ca_records = records, ca_head_digest = head\<rparr>)
    else files' = files \<or>
      read_command_evidence_archive path head (Read_delivers n) files' =
        Inr (Inr \<lparr>ca_records = records, ca_head_digest = head\<rparr>) \<or>
      read_command_evidence_archive path head (Read_delivers n) files' =
        Inr (Inl (CommandEvidenceArchiveError Archive_truncated_header)) \<or>
      read_command_evidence_archive path head (Read_delivers n) files' =
        Inr (Inl (CommandEvidenceArchiveError Archive_truncated_records))"
proof -
  let ?bs = "archive_bytes records head"
  have enc: "encode_command_evidence_archive records head = Inr (Inr ?bs)"
    using assms(1) by (simp add: encode_archive_eq archive_ok_def)
  have whole: "decode_command_evidence_archive ?bs head = Inr (Inr \<lparr>ca_records = records, ca_head_digest = head\<rparr>)"
    using assms(1) by (simp add: decode_archive_iff)
  have read: "read_command_evidence_archive path head (Read_delivers n) (files(path \<mapsto> take k ?bs)) =
      decode_command_evidence_archive (take k ?bs) head" for k
    using assms(3,4) by (auto simp: read_command_evidence_archive_def Let_def stream_limit_def min_def)
  have cut: "k < length ?bs \<or> take k ?bs = ?bs" for k
    by auto
  have part: "decode_command_evidence_archive (take k ?bs) head = Inr (Inr \<lparr>ca_records = records, ca_head_digest = head\<rparr>) \<or>
      decode_command_evidence_archive (take k ?bs) head = Inr (Inl (CommandEvidenceArchiveError Archive_truncated_header)) \<or>
      decode_command_evidence_archive (take k ?bs) head = Inr (Inl (CommandEvidenceArchiveError Archive_truncated_records))" for k
    using cut [of k] whole archive_prefix_rejected [OF assms(1), of k head] by (auto split: if_split_asm)
  show ?thesis
  proof (cases outcome)
    case Write_completed
    then show ?thesis
      using assms(2) enc whole read [of "length ?bs"] by (auto simp: write_command_evidence_archive_def)
  next
    case Write_open_failed
    then show ?thesis
      using assms(2) enc by (auto simp: write_command_evidence_archive_def)
  next
    case (Write_failed k)
    then show ?thesis
      using assms(2) enc part [of k] by (auto simp: write_command_evidence_archive_def read)
  next
    case (Write_close_failed k)
    then show ?thesis
      using assms(2) enc part [of k] by (auto simp: write_command_evidence_archive_def read)
  qed
qed

lemma demo_archive_ok: "archive_ok [demo_record] (record_digest demo_record)"
proof -
  have "validate_record_invariants demo_record = Inr ()"
    by code_simp
  then have "record_ok demo_record"
    by (simp add: record_ok_def validate_record_invariants_iff [symmetric])
      (simp add: demo_record_def envelope_ok_def demo_envelope_def)
  then show ?thesis
    by (simp add: archive_ok_def demo_chain)
qed

theorem archive_file_roundtrip_witness:
  "\<exists>files'. write_command_evidence_archive ''e'' [demo_record] (record_digest demo_record) (Write_failed 60) Map.empty =
      Inr (Inl (CommandEvidenceArchiveError Archive_io_error), files') \<and>
     (files' = Map.empty \<or>
      read_command_evidence_archive ''e'' (record_digest demo_record) (Read_delivers 1000) files' =
        Inr (Inr \<lparr>ca_records = [demo_record], ca_head_digest = record_digest demo_record\<rparr>) \<or>
      read_command_evidence_archive ''e'' (record_digest demo_record) (Read_delivers 1000) files' =
        Inr (Inl (CommandEvidenceArchiveError Archive_truncated_header)) \<or>
      read_command_evidence_archive ''e'' (record_digest demo_record) (Read_delivers 1000) files' =
        Inr (Inl (CommandEvidenceArchiveError Archive_truncated_records)))"
proof -
  have dig: "digest_ok (record_digest demo_record)" "digest_ok (er_previous_record_digest demo_record)"
    by (simp_all add: demo_record_def)
  have len: "length (archive_bytes [demo_record] (record_digest demo_record)) = 216"
    using dig by (simp add: archive_bytes_def length_evidence_bytes)
  obtain files' where w: "write_command_evidence_archive ''e'' [demo_record] (record_digest demo_record) (Write_failed 60) Map.empty =
      Inr (Inl (CommandEvidenceArchiveError Archive_io_error), files')"
    using demo_archive_ok by (simp add: write_command_evidence_archive_def encode_archive_eq archive_ok_def)
  from archive_file_roundtrip [OF demo_archive_ok w, of 1000] len w show ?thesis
    by (intro exI [of _ files']) (simp add: stream_limit_def)
qed

end
