(* ===== verification/Replay.thy ===== *)
theory Replay
  imports Pipeline Archive
begin

text \<open>
  Replay of evidence, \<open>command/command_evidence_replay.cpp\<close>: the records of a chain are
  submitted again to copies of the initial session and world, after as many ticks as each
  record observed, and every record must come out again. \<open>serves\<close> is the abstract
  specification, the runs of the pipeline from a checkpoint; the lemmas here relate one
  record, and then the loop over all records, to it.
\<close>

section \<open>The replayer\<close>

datatype CommandEvidenceReplayCode =
    Replay_verified
  | Replay_chain_verification_failed
  | Replay_observed_tick_regression
  | Replay_tick_advance_limit_exceeded
  | Replay_simulation_advance_failed
  | Replay_session_state_mismatch
  | Replay_pending_command_count_mismatch
  | Replay_world_state_mismatch
  | Replay_submission_record_mismatch

definition command_evidence_replay_code_name :: "CommandEvidenceReplayCode \<Rightarrow> string" where
  "command_evidence_replay_code_name code = (case code of
     Replay_verified \<Rightarrow> ''verified''
   | Replay_chain_verification_failed \<Rightarrow> ''chain_verification_failed''
   | Replay_observed_tick_regression \<Rightarrow> ''observed_tick_regression''
   | Replay_tick_advance_limit_exceeded \<Rightarrow> ''tick_advance_limit_exceeded''
   | Replay_simulation_advance_failed \<Rightarrow> ''simulation_advance_failed''
   | Replay_session_state_mismatch \<Rightarrow> ''session_state_mismatch''
   | Replay_pending_command_count_mismatch \<Rightarrow> ''pending_command_count_mismatch''
   | Replay_world_state_mismatch \<Rightarrow> ''world_state_mismatch''
   | Replay_submission_record_mismatch \<Rightarrow> ''submission_record_mismatch'')"

record CommandEvidenceReplayPolicy =
  rp_maximum_tick_advances :: u64

definition default_replay_policy :: CommandEvidenceReplayPolicy where
  "default_replay_policy = \<lparr>rp_maximum_tick_advances = 1000000\<rparr>"

record CommandEvidenceReplayResult =
  rr_code :: CommandEvidenceReplayCode
  rr_processed_records :: nat
  rr_failed_ordinal :: "u64 option"
  rr_performed_tick_advances :: u64
  rr_final_tick :: u64
  rr_final_session_sequence :: u64
  rr_final_pending_command_count :: nat
  rr_final_world_fingerprint :: StateFingerprint
  rr_replayed_head_digest :: Sha256Digest

definition replay_verified :: "CommandEvidenceReplayResult \<Rightarrow> bool" where
  "replay_verified r \<longleftrightarrow> rr_code r = Replay_verified"

definition make_replay_result ::
  "CommandEvidenceReplayCode \<Rightarrow> nat \<Rightarrow> u64 option \<Rightarrow> u64 \<Rightarrow> CommandSession \<Rightarrow> World \<Rightarrow> CommandEvidenceLog \<Rightarrow>
   CommandEvidenceReplayResult result"
where
  "make_replay_result code processed_records failed_ordinal performed_tick_advances session world evidence =
     bind_result (fingerprint_world_state world) (\<lambda>fingerprint.
       Inr \<lparr>rr_code = code, rr_processed_records = processed_records, rr_failed_ordinal = failed_ordinal,
            rr_performed_tick_advances = performed_tick_advances,
            rr_final_tick = tick_index (current_tick world),
            rr_final_session_sequence = cs_highest_accepted_sequence session,
            rr_final_pending_command_count = pending_command_count world,
            rr_final_world_fingerprint = fingerprint,
            rr_replayed_head_digest = cl_head_digest evidence\<rparr>)"

text \<open>
  The inner loop: as many ticks as required, or the world it had reached when a tick threw.
\<close>

fun replay_advances :: "nat \<Rightarrow> World \<Rightarrow> cxx_error option \<times> World" where
  "replay_advances 0 world = (None, world)"
| "replay_advances (Suc required) world = (case advance world of
     Inl e \<Rightarrow> (Some e, world)
   | Inr (_, world') \<Rightarrow> replay_advances required world')"

text \<open>
  The two handlers catch \<open>std::overflow_error\<close> and \<open>std::logic_error\<close>; the latter is the base
  of \<open>invalid_argument\<close>, \<open>out_of_range\<close> and \<open>length_error\<close>.
\<close>

definition caught_by_replay :: "cxx_error \<Rightarrow> bool" where
  "caught_by_replay e \<longleftrightarrow>
     e \<in> {Overflow_error, Logic_error, Invalid_argument, Out_of_range, Length_error}"

text \<open>
  The local variables of the loop. A record ends the replay with a result or leads to the
  variables for the next one.
\<close>

record ReplayState =
  rs_performed_tick_advances :: u64
  rs_evidence :: CommandEvidenceLog
  rs_session :: CommandSession
  rs_world :: World

definition replay_record ::
  "nat \<Rightarrow> CommandEvidenceReplayPolicy \<Rightarrow> nat \<Rightarrow> CommandEvidenceRecord \<Rightarrow> ReplayState \<Rightarrow>
   (CommandEvidenceReplayResult + ReplayState) result"
where
  "replay_record max_records policy index expected_record s =
     (let entry = er_entry expected_record;
          performed = rs_performed_tick_advances s;
          stop = (\<lambda>code performed world evidence session.
            bind_result (make_replay_result code index (Some (er_ordinal expected_record)) performed session world evidence)
              (\<lambda>r. Inr (Inl r)));
          current = tick_index (current_tick (rs_world s)) in
      if en_observed_tick entry < current
      then stop Replay_observed_tick_regression performed (rs_world s) (rs_evidence s) (rs_session s)
      else
        let required_advances = en_observed_tick entry - current;
            remaining_budget = rp_maximum_tick_advances policy - performed in
        if required_advances > remaining_budget
        then stop Replay_tick_advance_limit_exceeded performed (rs_world s) (rs_evidence s) (rs_session s)
        else case replay_advances (unat required_advances) (rs_world s) of
          (Some e, world) \<Rightarrow>
            if caught_by_replay e
            then stop Replay_simulation_advance_failed performed world (rs_evidence s) (rs_session s)
            else Inl e
        | (None, world) \<Rightarrow>
          let performed = performed + required_advances in
          if cs_highest_accepted_sequence (rs_session s) \<noteq> en_session_sequence_before entry
          then stop Replay_session_state_mismatch performed world (rs_evidence s) (rs_session s)
          else if pending_command_count world \<noteq> unat (en_pending_commands_before entry)
          then stop Replay_pending_command_count_mismatch performed world (rs_evidence s) (rs_session s)
          else bind_result (fingerprint_world_state world) (\<lambda>fingerprint.
            if fingerprint \<noteq> en_world_fingerprint_before entry
            then stop Replay_world_state_mismatch performed world (rs_evidence s) (rs_session s)
            else bind_result (submit max_records (rs_evidence s) (rs_session s) world (en_envelope entry))
              (\<lambda>(_, evidence, session, world).
                if length (cl_records evidence) \<noteq> index + 1 \<or> cl_records evidence ! index \<noteq> expected_record
                then stop Replay_submission_record_mismatch performed world evidence session
                else Inr (Inr \<lparr>rs_performed_tick_advances = performed, rs_evidence = evidence,
                               rs_session = session, rs_world = world\<rparr>))))"

fun replay_records ::
  "nat \<Rightarrow> CommandEvidenceReplayPolicy \<Rightarrow> nat \<Rightarrow> CommandEvidenceRecord list \<Rightarrow> ReplayState \<Rightarrow>
   (CommandEvidenceReplayResult + ReplayState) result"
where
  "replay_records max_records policy index [] s = Inr (Inr s)"
| "replay_records max_records policy index (r # records) s =
     bind_result (replay_record max_records policy index r s) (\<lambda>outcome. case outcome of
        Inl result \<Rightarrow> Inr (Inl result)
      | Inr s' \<Rightarrow> replay_records max_records policy (index + 1) records s')"

definition replay_start :: "CommandSession \<Rightarrow> World \<Rightarrow> ReplayState" where
  "replay_start session world = \<lparr>rs_performed_tick_advances = 0, rs_evidence = empty_log,
     rs_session = session, rs_world = world\<rparr>"

definition replay ::
  "nat \<Rightarrow> CommandEvidenceReplayPolicy \<Rightarrow> CommandSession \<Rightarrow> World \<Rightarrow> CommandEvidenceRecord list \<Rightarrow> Sha256Digest \<Rightarrow>
   CommandEvidenceReplayResult result"
where
  "replay max_records policy initial_session initial_world records trusted_head =
     (let s = replay_start initial_session initial_world in
      bind_result (verify_command_evidence_chain records trusted_head) (\<lambda>chain_ok.
      if \<not> chain_ok
      then make_replay_result Replay_chain_verification_failed 0 None (rs_performed_tick_advances s)
             (rs_session s) (rs_world s) (rs_evidence s)
      else bind_result (replay_records max_records policy 0 records s) (\<lambda>outcome. case outcome of
          Inl result \<Rightarrow> Inr result
        | Inr s' \<Rightarrow> make_replay_result Replay_verified (length records) None (rs_performed_tick_advances s')
             (rs_session s') (rs_world s') (rs_evidence s'))))"

definition replay_archive ::
  "nat \<Rightarrow> CommandEvidenceReplayPolicy \<Rightarrow> CommandSession \<Rightarrow> World \<Rightarrow> CommandEvidenceArchive \<Rightarrow>
   CommandEvidenceReplayResult result"
where
  "replay_archive max_records policy initial_session initial_world archive =
     replay max_records policy initial_session initial_world (ca_records archive) (ca_head_digest archive)"

section \<open>Runs from a checkpoint\<close>

text \<open>
  \<open>serves m a n b\<close>: starting at \<open>a\<close> with an empty log, a run of submissions and exactly \<open>n\<close>
  ticks leads to \<open>b\<close>.
\<close>

inductive serves :: "nat \<Rightarrow> Authority \<Rightarrow> nat \<Rightarrow> Authority \<Rightarrow> bool" for max_records a where
  serves_start: "serves max_records a 0 (a\<lparr>au_log := empty_log\<rparr>)"
| serves_submit: "serves max_records a n b \<Longrightarrow>
    submit max_records (au_log b) (au_session b) (au_world b) command = Inr (r, log', session', world') \<Longrightarrow>
    envelope_ok command \<Longrightarrow>
    serves max_records a n \<lparr>au_log = log', au_session = session', au_world = world'\<rparr>"
| serves_tick: "serves max_records a n b \<Longrightarrow> advance (au_world b) = Inr (t, world') \<Longrightarrow>
    serves max_records a (Suc n) (b\<lparr>au_world := world'\<rparr>)"

definition checkpoint_ok :: "Authority \<Rightarrow> bool" where
  "checkpoint_ok a \<longleftrightarrow> log_ok (au_log a) \<and> session_ok (au_session a) \<and> world_ok (au_world a)"

lemma submit_checkpoint_ok:
  assumes "checkpoint_ok b" and "envelope_ok command"
    and "submit max_records (au_log b) (au_session b) (au_world b) command = Inr (r, log', session', world')"
  shows "checkpoint_ok \<lparr>au_log = log', au_session = session', au_world = world'\<rparr>"
proof -
  have ok: "log_ok (au_log b)" "session_ok (au_session b)" "world_ok (au_world b)"
    using assms(1) by (simp_all add: checkpoint_ok_def)
  obtain code q where d: "decide (au_session b) (au_world b) command = (code, q, session', world')"
      "log' = logged (au_log b) (submission_entry (au_session b) (au_world b) command)"
      "counts_fit (au_session b) (au_world b) command" "room_in max_records (au_log b)"
    using submit_InrE [OF ok assms(3)] by metis
  show ?thesis
    using log_ok_logged [OF ok(1) d(4) submission_entry_ok [OF ok(3) d(3) assms(2)]] decide_ok [OF ok(2,3) d(1)]
    by (simp add: checkpoint_ok_def d(2))
qed

lemma serves_ok: "serves max_records a n b \<Longrightarrow> checkpoint_ok a \<Longrightarrow> checkpoint_ok b"
proof (induction rule: serves.induct)
  case serves_start
  then show ?case by (simp add: checkpoint_ok_def)
next
  case (serves_submit n b command r log' session' world')
  then show ?case by (blast intro: submit_checkpoint_ok)
next
  case (serves_tick n b t world')
  then show ?case by (auto simp: checkpoint_ok_def dest: advance_ok)
qed

lemma checkpoint_reachable:
  "reachable authority_init (authority_step max_records) a \<Longrightarrow> checkpoint_ok a"
  by (drule authority.inv_reachable) (simp add: checkpoint_ok_def authority_ok_def)

lemma serves_advance_n:
  "serves max_records a n b \<Longrightarrow> advance_n k (au_world b) = Inr w \<Longrightarrow> serves max_records a (n + k) (b\<lparr>au_world := w\<rparr>)"
proof (induction k arbitrary: n b)
  case 0
  then show ?case by (cases b) auto
next
  case (Suc k)
  then obtain t w1 where w1: "advance (au_world b) = Inr (t, w1)" "advance_n k w1 = Inr w"
    by (auto simp: result_simps)
  have "serves max_records a (Suc n + k) (b\<lparr>au_world := w1, au_world := w\<rparr>)"
    using Suc.IH [OF serves_tick [OF Suc.prems(1) w1(1)]] w1(2) by simp
  then show ?case by simp
qed

section \<open>The inner loop\<close>

lemma replay_advances_None: "replay_advances k w = (None, w') \<longleftrightarrow> advance_n k w = Inr w'"
  by (induction k arbitrary: w) (auto simp: result_simps split: sum.splits)

lemma replay_advances_Some:
  "replay_advances k w = (Some e, w') \<Longrightarrow> world_ok w \<Longrightarrow> e = Overflow_error \<and> world_ok w'"
  by (induction k arbitrary: w) (auto split: sum.splits dest: advance_fails advance_ok)

lemma advance_n_tick:
  "world_ok w \<Longrightarrow> advance_n k w = Inr w' \<Longrightarrow>
   unat (tick_index (current_tick w')) = unat (tick_index (current_tick w)) + k"
proof (induction k arbitrary: w)
  case (Suc k)
  then obtain t w1 where w1: "advance w = Inr (t, w1)" "advance_n k w1 = Inr w'"
    by (auto simp: result_simps)
  have "uint (tick_index (current_tick w1)) = uint (tick_index (current_tick w)) + 1"
    by (rule advance_InrE [OF Suc.prems(1) w1(1)]) (simp add: current_tick_def clock_current_tick_def)
  then have "unat (tick_index (current_tick w1)) = unat (tick_index (current_tick w)) + 1"
    by (metis Suc_eq_plus1 nat_add_distrib nat_one_as_int uint_nonnegative unat_eq_nat_uint zero_le_one)
  then show ?case
    using Suc.IH [OF advance_ok [OF Suc.prems(1) w1(1)] w1(2)] by simp
qed simp

section \<open>One record\<close>

definition rs_authority :: "ReplayState \<Rightarrow> Authority" where
  "rs_authority s = \<lparr>au_log = rs_evidence s, au_session = rs_session s, au_world = rs_world s\<rparr>"

lemma rs_authority_simps [simp]:
  "au_log (rs_authority s) = rs_evidence s" "au_session (rs_authority s) = rs_session s"
  "au_world (rs_authority s) = rs_world s" "rs_authority (replay_start session world) =
     \<lparr>au_log = empty_log, au_session = session, au_world = world\<rparr>"
  by (simp_all add: rs_authority_def replay_start_def)

text \<open>What a submission leaves in the log, read off the log itself.\<close>

lemma submit_record:
  assumes "checkpoint_ok b" and "submit max_records (au_log b) (au_session b) (au_world b) command = Inr (r, log', session', world')"
  shows "cl_records log' = cl_records (au_log b) @ [next_record (au_log b) (submission_entry (au_session b) (au_world b) command)]"
    and "counts_fit (au_session b) (au_world b) command" and "room_in max_records (au_log b)"
    and "decide (au_session b) (au_world b) command = (sr_code r, sr_queue_result r, session', world')"
proof -
  have ok: "log_ok (au_log b)" "session_ok (au_session b)" "world_ok (au_world b)"
    using assms(1) by (simp_all add: checkpoint_ok_def)
  obtain code q where d: "decide (au_session b) (au_world b) command = (code, q, session', world')"
      "r = \<lparr>sr_code = code, sr_queue_result = q\<rparr>" "log' = logged (au_log b) (submission_entry (au_session b) (au_world b) command)"
      "counts_fit (au_session b) (au_world b) command" "room_in max_records (au_log b)"
    using submit_InrE [OF ok assms(2)] by metis
  show "cl_records log' = cl_records (au_log b) @ [next_record (au_log b) (submission_entry (au_session b) (au_world b) command)]"
    by (simp add: d(3) logged_def)
  show "counts_fit (au_session b) (au_world b) command" "room_in max_records (au_log b)"
    "decide (au_session b) (au_world b) command = (sr_code r, sr_queue_result r, session', world')"
    by (simp_all add: d)
qed

lemma submission_entry_before [simp]:
  "en_observed_tick (submission_entry session w command) = tick_index (current_tick w)"
  "en_session_sequence_before (submission_entry session w command) = cs_highest_accepted_sequence session"
  "en_pending_commands_before (submission_entry session w command) = of_nat (pending_command_count w)"
  "en_world_fingerprint_before (submission_entry session w command) = projr (fingerprint_world_state w)"
  "en_envelope (submission_entry session w command) = command"
  by (simp_all add: submission_entry_def current_tick_def clock_current_tick_def split: prod.split)

lemma next_record_entry [simp]: "er_entry (next_record log e) = e"
  by (simp add: next_record_def)

lemma fingerprint_Inr:
  assumes "world_ok w" and "entity_count w < u64_limit" and "pending_command_count w < u64_limit"
  obtains f where "fingerprint_world_state w = Inr f"
  using assms(1) by (cases rule: fingerprint_cases) (use assms that in auto)

lemma unat_le_diff:
  fixes performed limit :: u64
  assumes "performed \<le> limit"
  shows "required \<le> limit - performed \<longleftrightarrow> unat performed + unat required \<le> unat limit"
    and "required \<le> limit - performed \<Longrightarrow> unat (performed + required) = unat performed + unat required"
proof -
  have d: "unat (limit - performed) = unat limit - unat performed"
    using assms by (rule unat_sub)
  show i: "required \<le> limit - performed \<longleftrightarrow> unat performed + unat required \<le> unat limit"
    using assms by (simp add: word_le_nat_alt d) linarith
  show "unat (performed + required) = unat performed + unat required" if "required \<le> limit - performed"
    using that i unsigned_less [of limit, where 'a = nat] by (intro unat_add_lem [THEN iffD1]) simp
qed

text \<open>
  A record is passed exactly when it is what the pipeline records at the tick it observed.
\<close>

lemma replay_record_sound:
  assumes "checkpoint_ok (rs_authority s)" and "length (cl_records (rs_evidence s)) = index"
    and "rs_performed_tick_advances s \<le> rp_maximum_tick_advances policy"
    and "replay_record max_records policy index r s = Inr (Inr s')"
  obtains k w result where "advance_n k (rs_world s) = Inr w"
    "submit max_records (rs_evidence s) (rs_session s) w (en_envelope (er_entry r)) =
       Inr (result, rs_evidence s', rs_session s', rs_world s')"
    "cl_records (rs_evidence s') = cl_records (rs_evidence s) @ [r]"
    "unat (rs_performed_tick_advances s') = unat (rs_performed_tick_advances s) + k"
    "rs_performed_tick_advances s' \<le> rp_maximum_tick_advances policy"
proof -
  let ?required = "en_observed_tick (er_entry r) - tick_index (current_tick (rs_world s))"
  obtain w result where w: "?required \<le> rp_maximum_tick_advances policy - rs_performed_tick_advances s"
      "advance_n (unat ?required) (rs_world s) = Inr w"
      "submit max_records (rs_evidence s) (rs_session s) w (en_envelope (er_entry r)) =
        Inr (result, rs_evidence s', rs_session s', rs_world s')"
      "length (cl_records (rs_evidence s')) = index + 1" "cl_records (rs_evidence s') ! index = r"
      "rs_performed_tick_advances s' = rs_performed_tick_advances s + ?required"
    using assms(4) that
    by (auto simp: replay_record_def Let_def result_simps not_less replay_advances_None
      split: if_split_asm option.split_asm prod.split_asm)
  have "world_ok w"
    using assms(1) w(2) by (auto simp: checkpoint_ok_def intro: advance_n_ok)
  then have "checkpoint_ok (rs_authority s\<lparr>au_world := w\<rparr>)"
    using assms(1) by (simp add: checkpoint_ok_def)
  then have "\<exists>x. cl_records (rs_evidence s') = cl_records (rs_evidence s) @ [x]"
    using submit_record(1) [of "rs_authority s\<lparr>au_world := w\<rparr>"] w(3) by auto
  then have "cl_records (rs_evidence s') = cl_records (rs_evidence s) @ [r]"
    using w(5) assms(2) by auto
  then show thesis
    using that [OF w(2,3)] unat_le_diff [OF assms(3), of ?required] w(1,6) by (simp add: word_le_nat_alt)
qed

lemma replay_record_complete:
  assumes "checkpoint_ok (rs_authority s)" and "length (cl_records (rs_evidence s)) = index"
    and "unat (rs_performed_tick_advances s) + k \<le> unat (rp_maximum_tick_advances policy)"
    and "advance_n k (rs_world s) = Inr w"
    and "submit max_records (rs_evidence s) (rs_session s) w command = Inr (result, log', session', world')"
  shows "replay_record max_records policy index (last (cl_records log')) s =
    Inr (Inr \<lparr>rs_performed_tick_advances = rs_performed_tick_advances s + of_nat k,
      rs_evidence = log', rs_session = session', rs_world = world'\<rparr>)"
proof -
  have ok: "world_ok (rs_world s)" "world_ok w"
    using assms(1,4) by (auto simp: checkpoint_ok_def intro: advance_n_ok)
  have le: "rs_performed_tick_advances s \<le> rp_maximum_tick_advances policy"
    using assms(3) by (simp add: word_le_nat_alt)
  have "checkpoint_ok (rs_authority s\<lparr>au_world := w\<rparr>)"
    using assms(1) ok(2) by (simp add: checkpoint_ok_def)
  note sub = submit_record [of "rs_authority s\<lparr>au_world := w\<rparr>", simplified, OF this assms(5)]
  have k: "unat (of_nat k :: u64) = k"
    using assms(3) unsigned_less [of "rp_maximum_tick_advances policy", where 'a = nat] by (simp add: unat_of_nat)
  have tick: "unat (tick_index (current_tick w)) = unat (tick_index (current_tick (rs_world s))) + k"
    using ok(1) assms(4) by (rule advance_n_tick)
  then have order: "\<not> tick_index (current_tick w) < tick_index (current_tick (rs_world s))"
    by (simp add: word_less_nat_alt)
  have "tick_index (current_tick w) = tick_index (current_tick (rs_world s)) + of_nat k"
    using arg_cong [OF tick, of "of_nat :: nat \<Rightarrow> u64"] by simp
  then have req: "tick_index (current_tick w) - tick_index (current_tick (rs_world s)) = of_nat k"
    by simp
  have budget: "\<not> (of_nat k :: u64) > rp_maximum_tick_advances policy - rs_performed_tick_advances s"
    using unat_le_diff(1) [OF le, of "of_nat k"] assms(3) k by (simp add: not_less)
  have adv: "replay_advances k (rs_world s) = (None, w)"
    using assms(4) by (simp add: replay_advances_None)
  have fits: "entity_count w < u64_limit" "pending_command_count w < u64_limit"
    using sub(2) by (simp_all add: counts_fit_def)
  then have pend: "unat (of_nat (pending_command_count w) :: u64) = pending_command_count w"
    by (simp add: unat_of_nat)
  obtain f where "fingerprint_world_state w = Inr f"
    using fingerprint_Inr [OF ok(2) fits] .
  then show ?thesis
    using sub(1) assms(2,5) order budget
    by (simp add: replay_record_def req k adv pend nth_append Let_def)
qed

lemma replay_record_stops:
  assumes "replay_record max_records policy index r s = Inr (Inl result)"
    and "rs_performed_tick_advances s \<le> rp_maximum_tick_advances policy"
  shows "rr_code result \<noteq> Replay_verified" and "rr_code result \<noteq> Replay_chain_verification_failed"
    and "rr_processed_records result = index" and "rr_failed_ordinal result = Some (er_ordinal r)"
    and "rr_performed_tick_advances result \<le> rp_maximum_tick_advances policy"
proof -
  have le: "x \<le> rp_maximum_tick_advances policy - rs_performed_tick_advances s \<Longrightarrow>
      rs_performed_tick_advances s + x \<le> rp_maximum_tick_advances policy" for x
    using unat_le_diff [OF assms(2), of x] by (simp add: word_le_nat_alt)
  show "rr_code result \<noteq> Replay_verified" "rr_code result \<noteq> Replay_chain_verification_failed"
    "rr_processed_records result = index" "rr_failed_ordinal result = Some (er_ordinal r)"
    "rr_performed_tick_advances result \<le> rp_maximum_tick_advances policy"
    using assms le
    by (auto simp: replay_record_def make_replay_result_def Let_def result_simps not_less
      split: if_split_asm option.split_asm prod.split_asm)
qed

section \<open>All records\<close>

lemma replay_records_append:
  "replay_records max_records policy index (xs @ ys) s =
   bind_result (replay_records max_records policy index xs s) (\<lambda>outcome. case outcome of
      Inl result \<Rightarrow> Inr (Inl result)
    | Inr s' \<Rightarrow> replay_records max_records policy (index + length xs) ys s')"
proof (induction xs arbitrary: index s)
  case (Cons x xs)
  then show ?case
    by (cases "replay_record max_records policy index x s") (auto split: sum.split)
qed simp

definition replay_invariant :: "nat \<Rightarrow> CommandEvidenceReplayPolicy \<Rightarrow> Authority \<Rightarrow> CommandEvidenceRecord list \<Rightarrow> ReplayState \<Rightarrow> bool" where
  "replay_invariant max_records policy a done s \<longleftrightarrow>
     serves max_records a (unat (rs_performed_tick_advances s)) (rs_authority s) \<and>
     cl_records (rs_evidence s) = done \<and>
     rs_performed_tick_advances s \<le> rp_maximum_tick_advances policy"

lemma replay_invariant_start: "replay_invariant max_records policy a [] (replay_start (au_session a) (au_world a))"
  using serves_start [of max_records a]
  by (cases a) (simp add: replay_invariant_def replay_start_def rs_authority_def empty_log_def)

lemma replay_invariant_ok:
  "checkpoint_ok a \<Longrightarrow> replay_invariant max_records policy a done s \<Longrightarrow> checkpoint_ok (rs_authority s)"
  unfolding replay_invariant_def using serves_ok by blast

lemma replay_invariant_record:
  assumes "checkpoint_ok a" and "replay_invariant max_records policy a done s" and "envelope_ok (en_envelope (er_entry r))"
    and "replay_record max_records policy (length done) r s = Inr (Inr s')"
  shows "replay_invariant max_records policy a (done @ [r]) s'"
proof -
  have inv: "serves max_records a (unat (rs_performed_tick_advances s)) (rs_authority s)" "cl_records (rs_evidence s) = done"
      "rs_performed_tick_advances s \<le> rp_maximum_tick_advances policy"
    using assms(2) by (simp_all add: replay_invariant_def)
  have len: "length (cl_records (rs_evidence s)) = length done"
    by (simp add: inv(2))
  obtain k w result where k: "advance_n k (rs_world s) = Inr w"
    "submit max_records (rs_evidence s) (rs_session s) w (en_envelope (er_entry r)) =
       Inr (result, rs_evidence s', rs_session s', rs_world s')"
    "cl_records (rs_evidence s') = cl_records (rs_evidence s) @ [r]"
    "unat (rs_performed_tick_advances s') = unat (rs_performed_tick_advances s) + k"
    "rs_performed_tick_advances s' \<le> rp_maximum_tick_advances policy"
    by (rule replay_record_sound [OF serves_ok [OF inv(1) assms(1)] len inv(3) assms(4)])
  have "serves max_records a (unat (rs_performed_tick_advances s')) (rs_authority s\<lparr>au_world := w\<rparr>)"
    using serves_advance_n [OF inv(1), of k w] k(1,4) by simp
  then have "serves max_records a (unat (rs_performed_tick_advances s')) (rs_authority s')"
    using serves_submit [of max_records a _ "rs_authority s\<lparr>au_world := w\<rparr>"] k(2) assms(3) by (simp add: rs_authority_def)
  then show ?thesis
    using k(3,5) inv(2) by (simp add: replay_invariant_def)
qed

text \<open>
  The loop either passes every record, or stops at the first one that does not come out again.
\<close>

lemma replay_records_run:
  assumes "checkpoint_ok a" and "replay_invariant max_records policy a done s"
    and "list_all (\<lambda>r. envelope_ok (en_envelope (er_entry r))) records"
    and "replay_records max_records policy (length done) records s = Inr outcome"
  shows "case outcome of
      Inr s' \<Rightarrow> replay_invariant max_records policy a (done @ records) s'
    | Inl result \<Rightarrow> \<exists>i s'. i < length records \<and>
        replay_records max_records policy (length done) (take i records) s = Inr (Inr s') \<and>
        replay_invariant max_records policy a (done @ take i records) s' \<and>
        replay_record max_records policy (length done + i) (records ! i) s' = Inr (Inl result)"
  using assms(2-4)
proof (induction records arbitrary: "done" s)
  case Nil
  then show ?case by (auto split: sum.split)
next
  case (Cons r records)
  consider (stop) result where "replay_record max_records policy (length done) r s = Inr (Inl result)" "outcome = Inl result"
    | (pass) s1 where "replay_record max_records policy (length done) r s = Inr (Inr s1)"
        "replay_records max_records policy (length (done @ [r])) records s1 = Inr outcome"
    using Cons.prems(3) by (auto simp: result_simps split: sum.split_asm)
  then show ?case
  proof cases
    case stop
    then show ?thesis
      using Cons.prems(1) by (auto intro!: exI [of _ "0 :: nat"])
  next
    case pass
    have "replay_invariant max_records policy a (done @ [r]) s1"
      using replay_invariant_record [OF assms(1) Cons.prems(1) _ pass(1)] Cons.prems(2) by simp
    note rest = Cons.IH [OF this _ pass(2)]
    show ?thesis
    proof (cases outcome)
      case (Inl result)
      then obtain i s' where "i < length records"
          "replay_records max_records policy (Suc (length done)) (take i records) s1 = Inr (Inr s')"
          "replay_invariant max_records policy a (done @ r # take i records) s'"
          "replay_record max_records policy (Suc (length done + i)) (records ! i) s' = Inr (Inl result)"
        using rest Cons.prems(2) by auto
      with Inl pass(1) show ?thesis
        by (auto intro!: exI [of _ "Suc i"] exI [of _ s'])
    qed (use rest Cons.prems(2) in simp)
  qed
qed

end
