(* ===== verification/Replay_Correct.thy ===== *)
theory Replay_Correct
  imports Replay
begin

text \<open>
  The properties of replay: it verifies exactly the evidence of runs of the pipeline from the
  checkpoint, it locates the first record that is not, and it always returns within its
  budget of ticks.
\<close>

section \<open>Counts along a run\<close>

definition world_fits :: "World \<Rightarrow> nat \<Rightarrow> bool" where
  "world_fits w spare \<longleftrightarrow> entity_count w < u64_limit \<and> pending_command_count w + spare < u64_limit"

lemma queue_accepted_entities:
  assumes "world_ok w" and "queue_velocity w c = Inr (Queue_accepted, w')"
  shows "entity_count w' = entity_count w"
  by (rule queue_velocity_acceptedE [OF assms]) (simp add: entity_count_def)

lemma decide_counts:
  assumes "world_ok w" and "decide session w command = (code, q, session', w')"
  shows "entity_count w' = entity_count w" and "pending_command_count w' \<le> pending_command_count w + 1"
  using assms(1)
  by (cases rule: decide_cases [where session = session and command = command];
      use assms queue_accepted_entities in auto)+

lemma advance_counts:
  assumes "world_ok w" and "advance w = Inr (t, w')"
  shows "entity_count w' = entity_count w" and "pending_command_count w' \<le> pending_command_count w"
proof -
  obtain c es where es: "integrate_entities (us_count (tick_duration w)) (mm_count (wl_max_abs_position (w_limits w)))
       (map (commanded (tick_index t) (w_pending_commands w)) (w_entities w)) = Inr es"
    and w': "w' = w\<lparr>w_clock := c, w_entities := es, w_pending_commands :=
       filter (\<lambda>c. vc_target_tick c \<noteq> tick_index t) (w_pending_commands w)\<rparr>"
    using advance_InrE [OF assms] by metis
  have "length es = length (w_entities w)"
    using arg_cong [OF integrate_entities_keys [OF es], of length] by simp
  then show "entity_count w' = entity_count w" "pending_command_count w' \<le> pending_command_count w"
    by (simp_all add: w' entity_count_def pending_command_count_def)
qed

lemma world_fits_mono: "world_fits w n \<Longrightarrow> m \<le> n \<Longrightarrow> world_fits w m"
  by (simp add: world_fits_def)

lemma world_fits_advance: "world_ok w \<Longrightarrow> advance w = Inr (t, w') \<Longrightarrow> world_fits w n \<Longrightarrow> world_fits w' n"
  using advance_counts [of w t w'] by (simp add: world_fits_def)

lemma world_fits_replay_advances:
  "replay_advances k w = (e, w') \<Longrightarrow> world_ok w \<Longrightarrow> world_fits w n \<Longrightarrow> world_fits w' n"
  by (induction k arbitrary: w) (auto split: sum.split_asm intro: world_fits_advance advance_ok)

lemma world_fits_decide:
  "world_ok w \<Longrightarrow> decide session w command = (code, q, session', w') \<Longrightarrow> world_fits w (Suc n) \<Longrightarrow>
   counts_fit session w command \<and> world_fits w' n"
  using decide_counts [of w session command code q session' w'] by (simp add: world_fits_def counts_fit_def)

lemma fingerprint_fits:
  assumes "world_ok w" and "world_fits w n"
  shows "\<exists>f. fingerprint_world_state w = Inr f"
  using fingerprint_Inr [OF assms(1)] assms(2) unfolding world_fits_def by (metis add_lessD1)

lemma make_replay_result_fits:
  assumes "world_ok w" and "world_fits w n"
  shows "\<exists>r. make_replay_result code processed failed performed session w evidence = Inr r"
  using fingerprint_fits [OF assms] by (auto simp: make_replay_result_def)

lemma submit_fits:
  assumes "checkpoint_ok b" and "world_fits (au_world b) (Suc n)" and "room_in max_records (au_log b)"
  shows "\<exists>r log' session' world'. submit max_records (au_log b) (au_session b) (au_world b) command =
      Inr (r, log', session', world') \<and> world_ok world' \<and> world_fits world' n"
proof -
  have ok: "log_ok (au_log b)" "session_ok (au_session b)" "world_ok (au_world b)"
    using assms(1) by (simp_all add: checkpoint_ok_def)
  obtain code q session' world' where d: "decide (au_session b) (au_world b) command = (code, q, session', world')"
    by (cases "decide (au_session b) (au_world b) command")
  show ?thesis
    using world_fits_decide [OF ok(3) d assms(2)] decide_ok [OF ok(2,3) d] assms(3)
    by (simp add: submit_eq [OF ok] d room_in_def)
qed

section \<open>Every run of the pipeline replays\<close>

lemma advance_n_snoc: "advance_n (Suc k) w = bind_result (advance_n k w) (\<lambda>w1. bind_result (advance w1) (\<lambda>(t, w2). Inr w2))"
proof (induction k arbitrary: w)
  case 0
  then show ?case by (cases "advance w") auto
next
  case (Suc k)
  then show ?case
    by (cases "advance w") (auto split: prod.split)
qed

lemma log_envelopes: "log_ok log \<Longrightarrow> list_all (\<lambda>r. envelope_ok (en_envelope (er_entry r))) (cl_records log)"
  by (auto simp: log_ok_def record_ok_def list_all_iff)

definition replay_reaches :: "nat \<Rightarrow> CommandEvidenceReplayPolicy \<Rightarrow> Authority \<Rightarrow> nat \<Rightarrow> Authority \<Rightarrow> ReplayState \<Rightarrow> nat \<Rightarrow> bool" where
  "replay_reaches max_records policy a n b s k \<longleftrightarrow>
     replay_records max_records policy 0 (cl_records (au_log b)) (replay_start (au_session a) (au_world a)) = Inr (Inr s) \<and>
     rs_evidence s = au_log b \<and> rs_session s = au_session b \<and> advance_n k (rs_world s) = Inr (au_world b) \<and>
     unat (rs_performed_tick_advances s) + k = n \<and> world_fits (rs_world s) 0"

lemma replay_reaches_submit:
  assumes "checkpoint_ok a" and "checkpoint_ok b" and "n \<le> unat (rp_maximum_tick_advances policy)"
    and "submit max_records (au_log b) (au_session b) (au_world b) command = Inr (r, log', session', world')"
    and "replay_reaches max_records policy a n b s k"
  shows "\<exists>s'. replay_reaches max_records policy a n \<lparr>au_log = log', au_session = session', au_world = world'\<rparr> s' 0"
proof -
  have s: "replay_records max_records policy 0 (cl_records (au_log b)) (replay_start (au_session a) (au_world a)) = Inr (Inr s)"
      "rs_evidence s = au_log b" "rs_session s = au_session b" "advance_n k (rs_world s) = Inr (au_world b)"
      "unat (rs_performed_tick_advances s) + k = n"
    using assms(5) by (simp_all add: replay_reaches_def)
  note sub = submit_record [OF assms(2,4)]
  have "replay_invariant max_records policy a (cl_records (au_log b)) s"
    using replay_records_run [OF assms(1) replay_invariant_start log_envelopes, of "au_log b" max_records policy "Inr s"]
      s(1) assms(2) by (simp add: checkpoint_ok_def)
  then have ok: "checkpoint_ok (rs_authority s)"
    using assms(1) by (rule replay_invariant_ok [rotated])
  let ?s = "\<lparr>rs_performed_tick_advances = rs_performed_tick_advances s + of_nat k, rs_evidence = log',
    rs_session = session', rs_world = world'\<rparr>"
  have "replay_record max_records policy (length (cl_records (au_log b))) (last (cl_records log')) s = Inr (Inr ?s)"
    using ok _ _ s(4) by (rule replay_record_complete) (use s assms(3,4) in simp_all)
  then have "replay_records max_records policy 0 (cl_records log') (replay_start (au_session a) (au_world a)) = Inr (Inr ?s)"
    using s(1) sub(1) by (simp add: replay_records_append)
  moreover have "unat (rs_performed_tick_advances s + of_nat k) = n"
    using s(5) assms(3) unsigned_less [of "rp_maximum_tick_advances policy", where 'a = nat]
    by (simp add: unat_word_ariths unat_of_nat)
  moreover have "world_fits world' 0"
    using sub(2,4) decide_counts(1) [OF _ sub(4)] assms(2) by (simp add: counts_fit_def world_fits_def checkpoint_ok_def)
  ultimately show ?thesis
    by (intro exI [of _ ?s]) (simp add: replay_reaches_def)
qed

lemma serves_replays:
  assumes "serves max_records a n b" and "checkpoint_ok a" and "n \<le> unat (rp_maximum_tick_advances policy)"
    and "world_fits (au_world a) 0"
  shows "\<exists>s k. replay_reaches max_records policy a n b s k"
  using assms(1,3)
proof (induction rule: serves.induct)
  case serves_start
  have "replay_reaches max_records policy a 0 (a\<lparr>au_log := empty_log\<rparr>) (replay_start (au_session a) (au_world a)) 0"
    using assms(4) by (simp add: replay_reaches_def replay_start_def empty_log_def)
  then show ?case by blast
next
  case (serves_submit n b command r log' session' world')
  then show ?case
    using replay_reaches_submit [OF assms(2) serves_ok [OF serves_submit(1) assms(2)] _ serves_submit(2)] by blast
next
  case (serves_tick n b t world')
  then obtain s k where "replay_reaches max_records policy a n b s k"
    by auto
  then have "replay_reaches max_records policy a (Suc n) (b\<lparr>au_world := world'\<rparr>) s (Suc k)"
    using serves_tick.hyps(2) by (simp add: replay_reaches_def advance_n_snoc del: advance_n.simps)
  then show ?case by blast
qed

section \<open>Replay verifies exactly the evidence of runs\<close>

lemma links_functional: "links digest previous d rs h \<Longrightarrow> links digest previous d rs h' \<Longrightarrow> h = h'"
  by (induction rs arbitrary: d) auto

text \<open>The three ways a replay can end.\<close>

lemma replay_cases:
  assumes "replay max_records policy session world records head = Inr r"
    and "checkpoint_ok a" and "au_session a = session" and "au_world a = world"
    and "list_all (\<lambda>r. envelope_ok (en_envelope (er_entry r))) records"
  obtains (chain) "verify_command_evidence_chain records head = Inr False" "rr_code r = Replay_chain_verification_failed"
      "rr_processed_records r = 0" "rr_performed_tick_advances r = 0" "rr_failed_ordinal r = None"
  | (stop) i s where "verify_command_evidence_chain records head = Inr True" "i < length records"
      "replay_records max_records policy 0 (take i records) (replay_start session world) = Inr (Inr s)"
      "replay_invariant max_records policy a (take i records) s"
      "replay_record max_records policy i (records ! i) s = Inr (Inl r)"
  | (verified) s where "verify_command_evidence_chain records head = Inr True"
      "replay_invariant max_records policy a records s"
      "make_replay_result Replay_verified (length records) None (rs_performed_tick_advances s)
         (rs_session s) (rs_world s) (rs_evidence s) = Inr r"
proof -
  consider (no) "verify_command_evidence_chain records head = Inr False"
    | (yes) outcome where "verify_command_evidence_chain records head = Inr True"
        "replay_records max_records policy 0 records (replay_start session world) = Inr outcome"
    using assms(1) by (auto simp: replay_def verify_chain_eq result_simps Let_def split: if_split_asm)
  then show thesis
  proof cases
    case no
    then show thesis
      using assms(1) chain by (auto simp: replay_def make_replay_result_def replay_start_def result_simps)
  next
    case yes
    have start: "replay_invariant max_records policy a [] (replay_start session world)"
      using replay_invariant_start [of max_records policy a] assms(3,4) by simp
    have run: "replay_records max_records policy (length []) records (replay_start session world) = Inr outcome"
      using yes(2) by simp
    note r = replay_records_run [OF assms(2) start assms(5) run]
    show thesis
    proof (cases outcome)
      case (Inl r')
      then have "r' = r"
        using assms(1) yes by (simp add: replay_def Let_def)
      then show thesis
        using r Inl stop [OF yes(1)] by auto
    next
      case (Inr s)
      then show thesis
        using r assms(1) yes verified [OF yes(1), of s] by (simp add: replay_def Let_def)
    qed
  qed
qed

text \<open>A state that passed every record of a chain is the end of a run with that evidence.\<close>

lemma replay_invariant_head:
  assumes "checkpoint_ok a" and "replay_invariant max_records policy a records s"
    and "verify_command_evidence_chain records head = Inr True"
  shows "cl_head_digest (rs_evidence s) = head"
proof -
  have "checkpoint_ok (rs_authority s)" "cl_records (rs_evidence s) = records"
    using assms(2) replay_invariant_ok [OF assms(1,2)] by (simp_all add: replay_invariant_def)
  then have "links record_digest er_previous_record_digest Sha256Digest_zero records (cl_head_digest (rs_evidence s))"
    using log_ok_parts(2) [of "rs_evidence s"] by (auto simp: checkpoint_ok_def)
  then show ?thesis
    using assms(3) links_functional by (auto simp: verify_chain_eq)
qed

lemma replay_verified_run:
  assumes "replay max_records policy (au_session a) (au_world a) records head = Inr r" and "replay_verified r"
    and "checkpoint_ok a" and "list_all (\<lambda>r. envelope_ok (en_envelope (er_entry r))) records"
  obtains b where "serves max_records a (unat (rr_performed_tick_advances r)) b"
    "cl_records (au_log b) = records" "cl_head_digest (au_log b) = head"
    "rr_performed_tick_advances r \<le> rp_maximum_tick_advances policy"
    "fingerprint_world_state (au_world b) = Inr (rr_final_world_fingerprint r)"
    "r = \<lparr>rr_code = Replay_verified, rr_processed_records = length records, rr_failed_ordinal = None,
      rr_performed_tick_advances = rr_performed_tick_advances r, rr_final_tick = tick_index (current_tick (au_world b)),
      rr_final_session_sequence = cs_highest_accepted_sequence (au_session b),
      rr_final_pending_command_count = pending_command_count (au_world b),
      rr_final_world_fingerprint = rr_final_world_fingerprint r, rr_replayed_head_digest = head\<rparr>"
proof (rule replay_cases [OF assms(1,3) refl refl assms(4)])
  assume "rr_code r = Replay_chain_verification_failed"
  with assms(2) show thesis by (simp add: replay_verified_def)
next
  fix i s
  assume s: "replay_invariant max_records policy a (take i records) s"
    "replay_record max_records policy i (records ! i) s = Inr (Inl r)"
  have "rr_code r \<noteq> Replay_verified"
    by (rule replay_record_stops [OF s(2)]) (use s(1) in \<open>simp add: replay_invariant_def\<close>)
  with assms(2) show thesis by (simp add: replay_verified_def)
next
  fix s
  assume s: "verify_command_evidence_chain records head = Inr True" "replay_invariant max_records policy a records s"
    "make_replay_result Replay_verified (length records) None (rs_performed_tick_advances s)
       (rs_session s) (rs_world s) (rs_evidence s) = Inr r"
  show thesis
    by (rule that [of "rs_authority s"])
      (use s(2,3) replay_invariant_head [OF assms(3) s(2,1)] in
        \<open>auto simp: make_replay_result_def replay_invariant_def result_simps\<close>)
qed

lemma replay_genuine:
  assumes "serves max_records a n b" and ok: "checkpoint_ok a" and "n \<le> unat (rp_maximum_tick_advances policy)"
    and "world_fits (au_world a) 0"
  shows "\<exists>r. replay max_records policy (au_session a) (au_world a) (cl_records (au_log b)) (cl_head_digest (au_log b)) = Inr r \<and>
    replay_verified r"
proof -
  let ?records = "cl_records (au_log b)"
  have log: "log_ok (au_log b)"
    using serves_ok [OF assms(1) ok] by (simp add: checkpoint_ok_def)
  obtain s k where s: "replay_reaches max_records policy a n b s k"
    using serves_replays [OF assms] by blast
  have chain: "verify_command_evidence_chain ?records (cl_head_digest (au_log b)) = Inr True"
    using log by (simp add: log_ok_def log_verify_def)
  have inv: "replay_invariant max_records policy a ?records s"
    using replay_records_run [OF ok replay_invariant_start log_envelopes [OF log], of max_records policy "Inr s"] s
    by (simp add: replay_reaches_def)
  then have "world_ok (rs_world s)"
    using replay_invariant_ok [OF ok] by (auto simp: checkpoint_ok_def)
  then obtain r where r: "make_replay_result Replay_verified (length ?records) None (rs_performed_tick_advances s)
      (rs_session s) (rs_world s) (rs_evidence s) = Inr r"
    using make_replay_result_fits [of "rs_world s" 0] s unfolding replay_reaches_def by blast
  then have "rr_code r = Replay_verified"
    by (auto simp: make_replay_result_def result_simps)
  then show ?thesis
    using r s chain by (auto simp: replay_def replay_reaches_def replay_verified_def Let_def)
qed

text \<open>C1: Replay is a decision procedure for genuine evidence. From any checkpoint of a
  running authority, replay under a trusted head succeeds exactly when a run of submissions
  and ticks from that checkpoint, with no more ticks than the budget, produces these records
  and this head.\<close>

theorem replay_verifies_iff:
  assumes "reachable authority_init (authority_step max_records) a" and "world_fits (au_world a) 0"
    and "list_all (\<lambda>r. envelope_ok (en_envelope (er_entry r))) records"
  shows "(\<exists>r. replay max_records policy (au_session a) (au_world a) records head = Inr r \<and> replay_verified r) \<longleftrightarrow>
    (\<exists>n b. n \<le> unat (rp_maximum_tick_advances policy) \<and> serves max_records a n b \<and>
       cl_records (au_log b) = records \<and> cl_head_digest (au_log b) = head)"
proof (intro iffI)
  note ok = checkpoint_reachable [OF assms(1)]
  assume "\<exists>r. replay max_records policy (au_session a) (au_world a) records head = Inr r \<and> replay_verified r"
  then obtain r where r: "replay max_records policy (au_session a) (au_world a) records head = Inr r" "replay_verified r"
    by blast
  from replay_verified_run [OF r ok assms(3)] show "\<exists>n b. n \<le> unat (rp_maximum_tick_advances policy) \<and>
      serves max_records a n b \<and> cl_records (au_log b) = records \<and> cl_head_digest (au_log b) = head"
    by (metis word_le_nat_alt)
next
  assume "\<exists>n b. n \<le> unat (rp_maximum_tick_advances policy) \<and> serves max_records a n b \<and>
    cl_records (au_log b) = records \<and> cl_head_digest (au_log b) = head"
  then show "\<exists>r. replay max_records policy (au_session a) (au_world a) records head = Inr r \<and> replay_verified r"
    using replay_genuine [OF _ checkpoint_reachable [OF assms(1)] _ assms(2)] by blast
qed

text \<open>C37: What a verified replay reports is the state of a genuine run. A run of submissions
  and ticks from the checkpoint, with exactly the reported number of ticks, which is within
  the budget, writes these records and ends with the trusted head; the result counts all
  records, names no failed one, and its tick, session watermark, pending count, fingerprint
  and head digest are those of the authority at the end of that run.\<close>

theorem replay_reports_run:
  assumes "reachable authority_init (authority_step max_records) a"
    and "list_all (\<lambda>r. envelope_ok (en_envelope (er_entry r))) records"
    and "replay max_records policy (au_session a) (au_world a) records head = Inr r" and "replay_verified r"
  shows "\<exists>b. serves max_records a (unat (rr_performed_tick_advances r)) b \<and> cl_records (au_log b) = records \<and>
    cl_head_digest (au_log b) = head \<and> rr_performed_tick_advances r \<le> rp_maximum_tick_advances policy \<and>
    rr_code r = Replay_verified \<and> rr_processed_records r = length records \<and> rr_failed_ordinal r = None \<and>
    rr_final_tick r = tick_index (current_tick (au_world b)) \<and>
    rr_final_session_sequence r = cs_highest_accepted_sequence (au_session b) \<and>
    rr_final_pending_command_count r = pending_command_count (au_world b) \<and>
    fingerprint_world_state (au_world b) = Inr (rr_final_world_fingerprint r) \<and>
    rr_replayed_head_digest r = head"
proof (rule replay_verified_run [OF assms(3,4) checkpoint_reachable [OF assms(1)] assms(2)])
  fix b
  assume b: "serves max_records a (unat (rr_performed_tick_advances r)) b"
    "cl_records (au_log b) = records" "cl_head_digest (au_log b) = head"
    "rr_performed_tick_advances r \<le> rp_maximum_tick_advances policy"
    "fingerprint_world_state (au_world b) = Inr (rr_final_world_fingerprint r)"
    and r: "r = \<lparr>rr_code = Replay_verified, rr_processed_records = length records, rr_failed_ordinal = None,
      rr_performed_tick_advances = rr_performed_tick_advances r, rr_final_tick = tick_index (current_tick (au_world b)),
      rr_final_session_sequence = cs_highest_accepted_sequence (au_session b),
      rr_final_pending_command_count = pending_command_count (au_world b),
      rr_final_world_fingerprint = rr_final_world_fingerprint r, rr_replayed_head_digest = head\<rparr>"
  show ?thesis
    by (intro exI conjI) (rule b | (subst r, simp only: CommandEvidenceReplayResult.simps))+
qed

text \<open>C21: A refused replay locates the fault. When the chain does not verify nothing is
  replayed; otherwise the result names the first record, by index and ordinal, that no run
  within the budget extends the records before it with.\<close>

theorem replay_locates_fault:
  assumes "reachable authority_init (authority_step max_records) a" and "world_fits (au_world a) 0"
    and "list_all (\<lambda>r. envelope_ok (en_envelope (er_entry r))) records"
    and "replay max_records policy (au_session a) (au_world a) records head = Inr r" and "\<not> replay_verified r"
  shows "if rr_code r = Replay_chain_verification_failed
    then verify_command_evidence_chain records head = Inr False \<and> rr_processed_records r = 0 \<and>
      rr_failed_ordinal r = None \<and> rr_performed_tick_advances r = 0
    else verify_command_evidence_chain records head = Inr True \<and> rr_processed_records r < length records \<and>
      rr_failed_ordinal r = Some (of_nat (rr_processed_records r)) \<and>
      rr_performed_tick_advances r \<le> rp_maximum_tick_advances policy \<and>
      (\<exists>n b. n \<le> unat (rp_maximum_tick_advances policy) \<and> serves max_records a n b \<and>
         cl_records (au_log b) = take (rr_processed_records r) records) \<and>
      \<not> (\<exists>n b. n \<le> unat (rp_maximum_tick_advances policy) \<and> serves max_records a n b \<and>
         cl_records (au_log b) = take (Suc (rr_processed_records r)) records)"
proof -
  note ok = checkpoint_reachable [OF assms(1)]
  show ?thesis
  proof (rule replay_cases [OF assms(4) ok refl refl assms(3)])
    fix i s
    assume i: "verify_command_evidence_chain records head = Inr True" "i < length records"
      "replay_records max_records policy 0 (take i records) (replay_start (au_session a) (au_world a)) = Inr (Inr s)"
      "replay_invariant max_records policy a (take i records) s"
      "replay_record max_records policy i (records ! i) s = Inr (Inl r)"
    have le: "rs_performed_tick_advances s \<le> rp_maximum_tick_advances policy"
      using i(4) by (simp add: replay_invariant_def)
    note stop = replay_record_stops [OF i(5) le]
    have ord: "er_ordinal (records ! i) = of_nat i"
      using i(1,2) by (simp add: verify_chain_eq numbered_def)
    have "\<exists>n b. n \<le> unat (rp_maximum_tick_advances policy) \<and> serves max_records a n b \<and> cl_records (au_log b) = take i records"
      using i(4) le by (auto simp: replay_invariant_def word_le_nat_alt intro!: exI [of _ "rs_authority s"])
    moreover have "False" if b: "n \<le> unat (rp_maximum_tick_advances policy)" "serves max_records a n b"
      "cl_records (au_log b) = take (Suc i) records" for n b
    proof -
      obtain s' k where "replay_reaches max_records policy a n b s' k"
        using serves_replays [OF b(2) ok b(1) assms(2)] by blast
      then show False
        using i(2,3,5) b(3) by (simp add: replay_reaches_def take_Suc_conv_app_nth replay_records_append)
    qed
    ultimately show ?thesis
      using stop i(1,2) ord by auto
  next
    fix s
    assume "make_replay_result Replay_verified (length records) None (rs_performed_tick_advances s)
      (rs_session s) (rs_world s) (rs_evidence s) = Inr r"
    then show ?thesis
      using assms(5) by (auto simp: make_replay_result_def replay_verified_def result_simps)
  qed simp
qed

section \<open>Replay always returns\<close>

lemma replay_record_returns:
  assumes "checkpoint_ok (rs_authority s)" and "length (cl_records (rs_evidence s)) = index"
    and "world_fits (rs_world s) (Suc n)" and "index < max_records" and "index < u64_limit"
  shows "\<exists>outcome. replay_record max_records policy index r s = Inr outcome \<and>
    (case outcome of Inl _ \<Rightarrow> True | Inr s' \<Rightarrow> world_fits (rs_world s') n)"
proof -
  obtain e w where adv: "replay_advances (unat (en_observed_tick (er_entry r) - tick_index (current_tick (rs_world s)))) (rs_world s) = (e, w)"
    by (cases "replay_advances (unat (en_observed_tick (er_entry r) - tick_index (current_tick (rs_world s)))) (rs_world s)")
  have ok: "world_ok (rs_world s)"
    using assms(1) by (simp add: checkpoint_ok_def)
  have okw: "world_ok w" "e = None \<or> e = Some Overflow_error"
    using adv ok replay_advances_Some [OF _ ok] by (cases e; auto simp: replay_advances_None intro: advance_n_ok)+
  have fits: "world_fits w (Suc n)"
    using world_fits_replay_advances [OF adv ok assms(3)] .
  have "checkpoint_ok (rs_authority s\<lparr>au_world := w\<rparr>)"
    using assms(1) okw(1) by (simp add: checkpoint_ok_def)
  then obtain res log' session' world' where sub: "submit max_records (rs_evidence s) (rs_session s) w (en_envelope (er_entry r)) =
      Inr (res, log', session', world')" "world_ok world'" "world_fits world' n"
    using submit_fits [of "rs_authority s\<lparr>au_world := w\<rparr>" n max_records "en_envelope (er_entry r)"] fits assms(2,4,5)
    by (auto simp: room_in_def)
  obtain f0 f f' where "fingerprint_world_state (rs_world s) = Inr f0" "fingerprint_world_state w = Inr f"
      "fingerprint_world_state world' = Inr f'"
    using fingerprint_fits [OF ok assms(3)] fingerprint_fits [OF okw(1) fits] fingerprint_fits [OF sub(2,3)] by blast
  then show ?thesis
    using okw(2) sub(1,3) by (elim disjE) (simp_all add: replay_record_def make_replay_result_def adv caught_by_replay_def Let_def)
qed

lemma replay_records_return:
  assumes "checkpoint_ok a" and "replay_invariant max_records policy a done s"
    and "list_all (\<lambda>r. envelope_ok (en_envelope (er_entry r))) records"
    and "world_fits (rs_world s) (length records)" and "length done + length records \<le> max_records"
    and "length done + length records \<le> u64_limit"
  shows "\<exists>outcome. replay_records max_records policy (length done) records s = Inr outcome \<and>
    (case outcome of Inl _ \<Rightarrow> True | Inr s' \<Rightarrow> world_fits (rs_world s') 0)"
  using assms(2-6)
proof (induction records arbitrary: "done" s)
  case (Cons r records)
  have "length (cl_records (rs_evidence s)) = length done" "length done < max_records" "length done < u64_limit"
    using Cons.prems by (simp_all add: replay_invariant_def)
  then obtain outcome where o: "replay_record max_records policy (length done) r s = Inr outcome"
      "case outcome of Inl _ \<Rightarrow> True | Inr s' \<Rightarrow> world_fits (rs_world s') (length records)"
    using replay_record_returns [OF replay_invariant_ok [OF assms(1) Cons.prems(1)]] Cons.prems(3) by fastforce
  show ?case
  proof (cases outcome)
    case (Inr s1)
    have "replay_invariant max_records policy a (done @ [r]) s1"
      using replay_invariant_record [OF assms(1) Cons.prems(1)] Cons.prems(2) o(1) Inr by simp
    from Cons.IH [OF this] Cons.prems o Inr show ?thesis
      by simp
  qed (use o in auto)
qed (simp add: replay_invariant_def)

text \<open>C22: Replay always returns, within its budget. For every chain of records that fits in
  memory, over a world whose counts leave room for them, replay throws nothing and reports
  a result whose ticks are within the budget, whatever the records contain.\<close>

theorem replay_returns:
  assumes "reachable authority_init (authority_step max_records) a"
    and "list_all (\<lambda>r. envelope_ok (en_envelope (er_entry r))) records"
    and "world_fits (au_world a) (length records)" and "length records \<le> max_records" and "length records \<le> u64_limit"
  shows "\<exists>r. replay max_records policy (au_session a) (au_world a) records head = Inr r \<and>
    rr_processed_records r \<le> length records \<and> rr_performed_tick_advances r \<le> rp_maximum_tick_advances policy"
proof -
  note ok = checkpoint_reachable [OF assms(1)]
  obtain outcome where o: "replay_records max_records policy 0 records (replay_start (au_session a) (au_world a)) = Inr outcome"
      "case outcome of Inl _ \<Rightarrow> True | Inr s' \<Rightarrow> world_fits (rs_world s') 0"
    using replay_records_return [OF ok replay_invariant_start [of max_records policy] assms(2)] assms(3-5)
    by (auto simp: replay_start_def)
  have "\<exists>r. replay max_records policy (au_session a) (au_world a) records head = Inr r"
  proof (cases outcome)
    case (Inl r)
    then show ?thesis
      using o make_replay_result_fits [of "au_world a", OF _ assms(3)] ok
      by (simp add: replay_def verify_chain_eq checkpoint_ok_def replay_start_def Let_def)
  next
    case (Inr s)
    then have "replay_invariant max_records policy a records s"
      using replay_records_run [OF ok replay_invariant_start assms(2), of max_records policy outcome] o(1) by simp
    then have "world_ok (rs_world s)"
      using replay_invariant_ok [OF ok] by (auto simp: checkpoint_ok_def)
    then show ?thesis
      using o Inr make_replay_result_fits [of "au_world a", OF _ assms(3)] make_replay_result_fits [of "rs_world s" 0] ok
      by (simp add: replay_def verify_chain_eq checkpoint_ok_def replay_start_def Let_def)
  qed
  then obtain r where r: "replay max_records policy (au_session a) (au_world a) records head = Inr r" ..
  have "rr_processed_records r \<le> length records \<and> rr_performed_tick_advances r \<le> rp_maximum_tick_advances policy"
    by (rule replay_cases [OF r ok refl refl assms(2)])
      (auto dest: replay_record_stops(3,5) simp: replay_invariant_def make_replay_result_def result_simps)
  with r show ?thesis by blast
qed

section \<open>Examples\<close>

lemma demo_fits: "world_fits (au_world demo_authority) 1"
  by (simp add: world_fits_def demo_authority_def demo_defs entity_count_def pending_command_count_def)

lemma demo_served:
  obtains b where "serves 100 demo_authority 0 b" "length (cl_records (au_log b)) = 1"
    "list_all (\<lambda>r. envelope_ok (en_envelope (er_entry r))) (cl_records (au_log b))"
proof -
  obtain r log' session' world' where s: "submit 100 (au_log demo_authority) (au_session demo_authority)
      (au_world demo_authority) demo_envelope = Inr (r, log', session', world')"
    using demo_submitted by blast
  let ?b = "\<lparr>au_log = log', au_session = session', au_world = world'\<rparr>"
  have "serves 100 demo_authority 0 demo_authority"
    using serves_start [of 100 demo_authority] by (simp add: demo_authority_def)
  then have b: "serves 100 demo_authority 0 ?b"
    using s by (rule serves_submit) (simp add: envelope_ok_def demo_envelope_def)
  have ok: "checkpoint_ok demo_authority"
    using demo_authority_reachable by (rule checkpoint_reachable)
  have "length (cl_records log') = 1"
    using submit_record(1) [OF ok s] by (simp add: demo_authority_def empty_log_def)
  then show thesis
    using that [OF b] log_envelopes serves_ok [OF b ok] by (simp add: checkpoint_ok_def)
qed

theorem replay_verifies_iff_witness:
  "\<exists>records head r. length records = 1 \<and> replay 100 default_replay_policy (au_session demo_authority)
     (au_world demo_authority) records head = Inr r \<and> replay_verified r"
proof -
  obtain b where b: "serves 100 demo_authority 0 b" "length (cl_records (au_log b)) = 1"
      "list_all (\<lambda>r. envelope_ok (en_envelope (er_entry r))) (cl_records (au_log b))"
    by (rule demo_served)
  have "world_fits (au_world demo_authority) 0"
    using demo_fits by (rule world_fits_mono) simp
  from replay_verifies_iff [OF demo_authority_reachable this b(3), where policy = default_replay_policy and head = "cl_head_digest (au_log b)"] b
  show ?thesis by blast
qed

theorem replay_reports_run_witness:
  "\<exists>records head r b. length records = 1 \<and> replay 100 default_replay_policy (au_session demo_authority)
     (au_world demo_authority) records head = Inr r \<and> replay_verified r \<and>
     serves 100 demo_authority (unat (rr_performed_tick_advances r)) b \<and> cl_records (au_log b) = records \<and>
     rr_final_tick r = tick_index (current_tick (au_world b)) \<and>
     rr_final_session_sequence r = cs_highest_accepted_sequence (au_session b) \<and>
     rr_final_pending_command_count r = pending_command_count (au_world b) \<and>
     fingerprint_world_state (au_world b) = Inr (rr_final_world_fingerprint r) \<and>
     rr_replayed_head_digest r = head"
proof -
  obtain b where b: "serves 100 demo_authority 0 b" "length (cl_records (au_log b)) = 1"
      "list_all (\<lambda>r. envelope_ok (en_envelope (er_entry r))) (cl_records (au_log b))"
    by (rule demo_served)
  have "world_fits (au_world demo_authority) 0"
    using demo_fits by (rule world_fits_mono) simp
  then obtain r where r: "replay 100 default_replay_policy (au_session demo_authority) (au_world demo_authority)
      (cl_records (au_log b)) (cl_head_digest (au_log b)) = Inr r" "replay_verified r"
    using replay_genuine [OF b(1) checkpoint_reachable [OF demo_authority_reachable], of default_replay_policy] by auto
  from replay_reports_run [OF demo_authority_reachable b(3) r] r b(2) show ?thesis
    by blast
qed

text \<open>A record whose session state is not that of the checkpoint.\<close>

definition demo_forged :: CommandEvidenceRecord where
  "demo_forged = demo_record\<lparr>er_entry := (er_entry demo_record)\<lparr>en_session_sequence_before := 5\<rparr>\<rparr>"

lemma demo_forged_chain: "verify_command_evidence_chain [demo_forged] (record_digest demo_forged) = Inr True"
  by (simp add: verify_chain_eq numbered_Cons numbered_def) (simp add: demo_forged_def demo_record_def)

lemma demo_envelopes: "list_all (\<lambda>r. envelope_ok (en_envelope (er_entry r))) [demo_forged]"
  by (simp add: demo_forged_def demo_record_def envelope_ok_def demo_envelope_def)

lemma demo_refused:
  "\<exists>r. replay 100 default_replay_policy (au_session demo_authority) (au_world demo_authority) [demo_forged]
     (record_digest demo_forged) = Inr r \<and> rr_code r = Replay_session_state_mismatch"
proof -
  have "world_ok demo_world"
    using checkpoint_reachable [OF demo_authority_reachable] by (simp add: checkpoint_ok_def demo_authority_def)
  then obtain f where f: "fingerprint_world_state demo_world = Inr f"
    using fingerprint_fits [OF _ demo_fits] by (auto simp: demo_authority_def)
  have "en_observed_tick (er_entry demo_forged) = 0" "en_session_sequence_before (er_entry demo_forged) = 5"
      "tick_index (current_tick demo_world) = 0" "cs_highest_accepted_sequence demo_session = 0"
    by (simp_all add: demo_forged_def demo_record_def demo_defs current_tick_def clock_current_tick_def demo_session_def)
  with f show ?thesis
    by (simp add: replay_def demo_forged_chain replay_start_def demo_authority_def replay_record_def default_replay_policy_def
      make_replay_result_def Let_def)
qed

theorem replay_locates_fault_witness:
  "\<exists>r. replay 100 default_replay_policy (au_session demo_authority) (au_world demo_authority) [demo_forged]
     (record_digest demo_forged) = Inr r \<and> rr_code r = Replay_session_state_mismatch \<and>
     rr_processed_records r < 1 \<and> rr_failed_ordinal r = Some (of_nat (rr_processed_records r)) \<and>
     \<not> (\<exists>n b. n \<le> unat (rp_maximum_tick_advances default_replay_policy) \<and> serves 100 demo_authority n b \<and>
         cl_records (au_log b) = take (Suc (rr_processed_records r)) [demo_forged])"
proof -
  obtain r where r: "replay 100 default_replay_policy (au_session demo_authority) (au_world demo_authority) [demo_forged]
     (record_digest demo_forged) = Inr r" "rr_code r = Replay_session_state_mismatch"
    using demo_refused by blast
  have "world_fits (au_world demo_authority) 0" "\<not> replay_verified r"
    using world_fits_mono [OF demo_fits] r(2) by (simp_all add: replay_verified_def)
  from replay_locates_fault [OF demo_authority_reachable this(1) demo_envelopes r(1) this(2)] r
  show ?thesis
    by (intro exI [of _ r]) (simp del: take_Suc_Cons)
qed

theorem replay_returns_witness:
  "world_fits (au_world demo_authority) 1 \<and>
   (\<exists>r. replay 100 default_replay_policy (au_session demo_authority) (au_world demo_authority) [demo_forged]
     (record_digest demo_forged) = Inr r \<and> rr_processed_records r \<le> 1 \<and>
     rr_performed_tick_advances r \<le> 1000000)"
  using replay_returns [OF demo_authority_reachable demo_envelopes, of 100 default_replay_policy "record_digest demo_forged"]
    demo_fits by (simp add: default_replay_policy_def)

end
