(* ===== verification/Database.thy ===== *)
theory Database
  imports Archive "HOL-Library.List_Lexorder"
begin

text \<open>
  The layer between the investigation store and SQLite in
  \<open>storage/investigation_store.cpp\<close>: the conversions of values, the prepared statement and
  the transaction. The contents of the database are a value; an SQL statement is a function
  of it, translated where the source has the statement. Whether a call of the library
  succeeds is the schedule \<open>cn_fails\<close> of the connection, so that every property holds for
  every pattern of failing calls.
\<close>

section \<open>Errors\<close>

datatype InvestigationStoreErrorCode =
    Store_open_failed
  | Store_migration_failed
  | Store_sqlite_failure
  | Store_invalid_argument
  | Store_archive_verification_failed
  | Store_archive_not_found

text \<open>
  What can leave a function of the store: its own exception, the exception of the evidence
  decoder, or an error of the command layer. The last case stands for an enumeration object
  with a value that has no name.
\<close>

datatype store_exception =
    InvestigationStoreError InvestigationStoreErrorCode
  | StoredEvidenceDecodeError CommandEvidenceDecodeErrorCode
  | Store_cxx_error cxx_error
  | Unnamed_enumerator

section \<open>Values\<close>

definition encode_u64 :: "u64 \<Rightarrow> bytes" where
  "encode_u64 value =
     foldl (\<lambda>encoded index. encoded[index := ucast (drop_bit ((8 - index - 1) * 8) value AND 0xff)])
       (replicate 8 0) [0..<8]"

definition decode_u64 :: "bytes \<Rightarrow> store_exception + u64" where
  "decode_u64 data =
     (if length data \<noteq> 8 then Inl (InvestigationStoreError Store_sqlite_failure)
      else Inr (foldl (\<lambda>value index. push_bit 8 value OR ucast (data ! index)) 0 [0..<8]))"

definition decode_digest :: "bytes \<Rightarrow> store_exception + Sha256Digest" where
  "decode_digest data =
     (if length data \<noteq> 32 then Inl (InvestigationStoreError Store_sqlite_failure)
      else Inr (Sha256Digest data))"

definition checked_int64 :: "nat \<Rightarrow> store_exception + int" where
  "checked_int64 value =
     (if int value > i64_max then Inl (InvestigationStoreError Store_invalid_argument) else Inr (int value))"

definition store_checked_size :: "int \<Rightarrow> store_exception + nat" where
  "store_checked_size value =
     (if value < 0 \<or> value > int u64_limit - 1 then Inl (InvestigationStoreError Store_sqlite_failure)
      else Inr (nat value))"

definition checked_size_u64 :: "u64 \<Rightarrow> store_exception + nat" where
  "checked_size_u64 value =
     (if unat value > u64_limit - 1 then Inl (InvestigationStoreError Store_sqlite_failure)
      else Inr (unat value))"

text \<open>
  The size of a text is converted to \<open>int\<close>, which keeps its low 32 bits; SQLite reads a
  negative size as "up to the terminating zero".
\<close>

definition bound_text :: "string \<Rightarrow> string" where
  "bound_text value =
     (let n = signed_take_bit 31 (int (length value))
      in if n < 0 then takeWhile (\<lambda>c. c \<noteq> CHR 0x00) value else take (nat n) value)"

text \<open>\<open>sqlite3_column_int\<close> delivers the low 32 bits of an integer.\<close>

definition column_int :: "int \<Rightarrow> int" where
  "column_int value = signed_take_bit 31 value"

section \<open>Calls\<close>

record 't Connection =
  cn_tables :: 't
  cn_calls :: nat
  cn_fails :: "nat \<Rightarrow> bool"

type_synonym ('t, 'a) action = "'t Connection \<Rightarrow> (store_exception + 'a) \<times> 't Connection"

definition return_action :: "'a \<Rightarrow> 'c \<Rightarrow> ('e + 'a) \<times> 'c" where
  "return_action x c = (Inr x, c)"

definition throw_action :: "'e \<Rightarrow> 'c \<Rightarrow> ('e + 'a) \<times> 'c" where
  "throw_action e c = (Inl e, c)"

definition bind_action :: "('c \<Rightarrow> ('e + 'a) \<times> 'c) \<Rightarrow> ('a \<Rightarrow> 'c \<Rightarrow> ('e + 'b) \<times> 'c) \<Rightarrow> 'c \<Rightarrow> ('e + 'b) \<times> 'c" where
  "bind_action m f c = (case m c of (Inl e, c') \<Rightarrow> (Inl e, c') | (Inr x, c') \<Rightarrow> f x c')"

definition pure_action :: "'e + 'a \<Rightarrow> 'c \<Rightarrow> ('e + 'a) \<times> 'c" where
  "pure_action r c = (r, c)"

text \<open>One call of the library whose failure throws \<open>code\<close>.\<close>

definition check_call :: "InvestigationStoreErrorCode \<Rightarrow> ('t, unit) action" where
  "check_call code c =
     (if cn_fails c (cn_calls c) then Inl (InvestigationStoreError code) else Inr (),
      c\<lparr>cn_calls := Suc (cn_calls c)\<rparr>)"

text \<open>
  The effect of a statement on the contents: no value when a constraint or a missing table
  makes it an error.
\<close>

definition apply_statement :: "InvestigationStoreErrorCode \<Rightarrow> ('t \<Rightarrow> ('a \<times> 't) option) \<Rightarrow> ('t, 'a) action" where
  "apply_statement code statement c = (case statement (cn_tables c) of
     None \<Rightarrow> (Inl (InvestigationStoreError code), c)
   | Some (x, t) \<Rightarrow> (Inr x, c\<lparr>cn_tables := t\<rparr>))"

definition execute_sql :: "InvestigationStoreErrorCode \<Rightarrow> ('t \<Rightarrow> ('a \<times> 't) option) \<Rightarrow> ('t, 'a) action" where
  "execute_sql code statement = bind_action (check_call code) (\<lambda>_. apply_statement code statement)"

text \<open>A prepared statement: \<open>Statement::Statement\<close>, the binding functions and both step functions.\<close>

datatype sql_value = SQL_null | SQL_integer int | SQL_text string | SQL_blob bytes

definition prepare_statement :: "('t, unit) action" where
  "prepare_statement = check_call Store_sqlite_failure"

definition bind_value :: "sql_value \<Rightarrow> ('t, unit) action" where
  "bind_value v = (case v of
     SQL_blob bs \<Rightarrow>
       if length bs > 2147483647 then throw_action (InvestigationStoreError Store_invalid_argument)
       else check_call Store_sqlite_failure
   | _ \<Rightarrow> check_call Store_sqlite_failure)"

fun bind_values :: "sql_value list \<Rightarrow> ('t, unit) action" where
  "bind_values [] = return_action ()"
| "bind_values (v # vs) = bind_action (bind_value v) (\<lambda>_. bind_values vs)"

definition step_done :: "('t \<Rightarrow> ('a \<times> 't) option) \<Rightarrow> ('t, 'a) action" where
  "step_done statement =
     bind_action (check_call Store_sqlite_failure) (\<lambda>_.
     bind_action (apply_statement Store_sqlite_failure statement) (\<lambda>x.
     bind_action (check_call Store_sqlite_failure) (\<lambda>_.
     bind_action (check_call Store_sqlite_failure) (\<lambda>_.
     return_action x))))"

definition step_row :: "('t \<Rightarrow> 'r list) \<Rightarrow> ('t, 'r option) action" where
  "step_row rows =
     bind_action (check_call Store_sqlite_failure) (\<lambda>_ c.
       (Inr (case rows (cn_tables c) of [] \<Rightarrow> None | r # _ \<Rightarrow> Some r), c))"

text \<open>The loops \<open>while (statement.step_row())\<close>, which convert one row at a time.\<close>

fun step_each :: "('r \<Rightarrow> store_exception + 'a) \<Rightarrow> 'r list \<Rightarrow> ('t, 'a list) action" where
  "step_each convert [] = bind_action (check_call Store_sqlite_failure) (\<lambda>_. return_action [])"
| "step_each convert (r # rows) =
     bind_action (check_call Store_sqlite_failure) (\<lambda>_.
     bind_action (pure_action (convert r)) (\<lambda>x.
     bind_action (step_each convert rows) (\<lambda>xs.
     return_action (x # xs))))"

definition step_rows :: "('t \<Rightarrow> 'r list) \<Rightarrow> ('r \<Rightarrow> store_exception + 'a) \<Rightarrow> ('t, 'a list) action" where
  "step_rows rows convert c = step_each convert (rows (cn_tables c)) c"

text \<open>
  A transaction whose scope ends with \<open>commit\<close>. When the scope is left by an exception, of
  the body or of the commit itself, the destructor rolls back; its result is ignored, since
  SQLite reports an error only when the transaction has been rolled back already.
\<close>

definition rollback :: "'t \<Rightarrow> 't Connection \<Rightarrow> 't Connection" where
  "rollback before c = c\<lparr>cn_tables := before, cn_calls := Suc (cn_calls c)\<rparr>"

definition with_commit :: "('t, 'a) action \<Rightarrow> ('t, 'a) action" where
  "with_commit body = bind_action body (\<lambda>x. bind_action (check_call Store_sqlite_failure) (\<lambda>_. return_action x))"

definition transaction :: "('t, 'a) action \<Rightarrow> ('t, 'a) action" where
  "transaction body =
     bind_action (check_call Store_sqlite_failure) (\<lambda>_ c. case with_commit body c of
         (Inl e, c') \<Rightarrow> (Inl e, rollback (cn_tables c) c')
       | (Inr x, c') \<Rightarrow> (Inr x, c'))"

section \<open>Values round-trip and keep their order\<close>

lemma encode_u64_eq: "encode_u64 v = be64 v"
  by (simp add: encode_u64_def be64_def byte_at_def upt_rec numeral_eq_Suc)

lemma decode_u64_eq:
  assumes "length bs = 8"
  shows "decode_u64 bs = Inr (be_value bs)"
proof -
  have "foldl (\<lambda>value index. push_bit 8 value OR ucast (bs ! index)) 0 [0..<8] =
      foldl (\<lambda>v b. push_bit 8 v OR ucast b) (0 :: u64) (map ((!) bs) [0..<8])"
    by (simp add: foldl_map)
  also have "map ((!) bs) [0..<8] = bs"
    using map_nth [of bs] assms by simp
  finally show ?thesis
    using assms by (simp add: decode_u64_def be_value_def)
qed

lemma decode_encode_u64 [simp]: "decode_u64 (encode_u64 v) = Inr v"
  by (simp add: encode_u64_eq decode_u64_eq)

lemma length_encode_u64 [simp]: "length (encode_u64 v) = 8"
  by (simp add: encode_u64_eq)

lemma encode_u64_inject [simp]: "encode_u64 a = encode_u64 b \<longleftrightarrow> a = b"
  by (simp add: encode_u64_eq)

text \<open>The order of blobs is the order of the numbers they hold.\<close>

fun be_nat :: "bytes \<Rightarrow> nat" where
  "be_nat [] = 0"
| "be_nat (b # bs) = unat b * 256 ^ length bs + be_nat bs"

lemma be_nat_bound: "be_nat bs < 256 ^ length bs"
proof (induction bs)
  case (Cons b bs)
  define q where "q = (256 :: nat) ^ length bs"
  have "unat b + 1 \<le> 256"
    using unsigned_less [of b, where 'a = nat] by simp
  then have "(unat b + 1) * q \<le> 256 * q"
    by (rule mult_le_mono1)
  then have "unat b * q + q \<le> 256 * q"
    by simp
  moreover have "be_nat bs < q"
    using Cons by (simp add: q_def)
  ultimately have "unat b * q + be_nat bs < 256 * q"
    by linarith
  then show ?case by (simp add: q_def)
qed simp

lemma digit_less: "m < p \<Longrightarrow> n < p \<Longrightarrow> a * p + m < b * p + n \<longleftrightarrow> a < b \<or> a = b \<and> m < (n :: nat)"
proof (rule linorder_cases [of a b])
  assume "m < p" "n < p" "a < b"
  then have "(a + 1) * p \<le> b * p" by (intro mult_le_mono1) simp
  with \<open>m < p\<close> \<open>a < b\<close> show ?thesis by (simp add: algebra_simps)
next
  assume "m < p" "n < p" "b < a"
  then have "(b + 1) * p \<le> a * p" by (intro mult_le_mono1) simp
  with \<open>n < p\<close> \<open>b < a\<close> show ?thesis by (simp add: algebra_simps)
qed simp

lemma blob_less_iff: "length xs = length ys \<Longrightarrow> xs < ys \<longleftrightarrow> be_nat xs < be_nat ys"
proof (induction xs ys rule: list_induct2)
  case (Cons x xs y ys)
  then show ?case
    using digit_less [OF be_nat_bound [of xs], of "be_nat ys" "unat x" "unat y"] be_nat_bound [of ys]
    by (simp add: word_less_nat_alt) (metis word_unat_eq_iff)
qed simp

lemma be_nat_snoc: "be_nat (bs @ [b]) = be_nat bs * 256 + unat b"
  by (induction bs) (simp_all add: algebra_simps)

lemma unat_be_value: "8 * length bs \<le> 64 \<Longrightarrow> unat (be_value bs :: u64) = be_nat bs"
proof (induction bs rule: rev_induct)
  case Nil
  then show ?case by (simp add: be_value_def)
next
  case (snoc b bs)
  then have v: "unat (be_value bs :: u64) = be_nat bs" and le: "8 * length bs + 8 \<le> 64"
    by simp_all
  have bound: "be_nat bs * 256 + unat b < 2 ^ 64"
  proof -
    have "be_nat (bs @ [b]) < 256 ^ length (bs @ [b])" by (rule be_nat_bound)
    also have "256 ^ length (bs @ [b]) = (2 :: nat) ^ (8 * length (bs @ [b]))"
      by (simp add: power_mult power_add)
    also have "\<dots> \<le> 2 ^ 64" using le by (intro power_increasing) simp_all
    finally show ?thesis by (simp add: be_nat_snoc)
  qed
  have "push_bit 8 (be_value bs :: u64) OR ucast b = push_bit 8 (be_value bs) + ucast b"
    by (rule disjunctive_add [symmetric]) (auto simp: bit_simps dest: bit_imp_le_length)
  also have "\<dots> = of_nat (be_nat bs * 256 + unat b)"
  proof -
    have "(ucast b :: u64) = of_nat (unat b)"
      by (metis of_nat_unat)
    moreover have "push_bit 8 (be_value bs :: u64) = of_nat (be_nat bs) * 256"
      by (simp add: push_bit_eq_mult flip: v)
    ultimately show ?thesis by simp
  qed
  finally have "be_value (bs @ [b]) = (of_nat (be_nat (bs @ [b])) :: u64)"
    by (simp only: be_value_snoc be_nat_snoc)
  then show ?case
    using bound by (simp only: be_nat_snoc unsigned_of_nat) (simp add: take_bit_nat_eq_self)
qed

lemma encode_u64_less [simp]: "encode_u64 a < encode_u64 b \<longleftrightarrow> a < b"
proof -
  have "be_nat (be64 v) = unat v" for v
    using unat_be_value [of "be64 v"] by simp
  then show ?thesis
    by (simp add: encode_u64_eq blob_less_iff word_less_nat_alt)
qed

lemma encode_u64_le [simp]: "encode_u64 a \<le> encode_u64 b \<longleftrightarrow> a \<le> b"
  by (metis encode_u64_less linorder_not_less)

section \<open>Actions and their meaning\<close>

text \<open>
  The meaning of an action is its run on a connection whose calls all succeed. An action is
  \<open>stable\<close> when every run that returns, whatever the schedule, returns what the meaning says,
  and a run without failing calls also throws what the meaning says. Actions built from the
  calls above are stable, so the properties of the store are properties of meanings.
\<close>

definition meaning :: "('t, 'a) action \<Rightarrow> 't \<Rightarrow> store_exception + 'a \<times> 't" where
  "meaning m t = (case m \<lparr>cn_tables = t, cn_calls = 0, cn_fails = \<lambda>_. False\<rparr> of
     (Inl e, c) \<Rightarrow> Inl e
   | (Inr x, c) \<Rightarrow> Inr (x, cn_tables c))"

definition healthy :: "'t Connection \<Rightarrow> bool" where
  "healthy c \<longleftrightarrow> (\<forall>k. \<not> cn_fails c k)"

definition stable :: "('t, 'a) action \<Rightarrow> bool" where
  "stable m \<longleftrightarrow> (\<forall>c. cn_fails (snd (m c)) = cn_fails c \<and> (case m c of
     (Inr x, c') \<Rightarrow> meaning m (cn_tables c) = Inr (x, cn_tables c')
   | (Inl e, c') \<Rightarrow> healthy c \<longrightarrow> meaning m (cn_tables c) = Inl e))"

named_theorems meaning_simps \<open>meanings of the calls\<close>

lemma stableI:
  assumes "\<And>c. cn_fails (snd (m c)) = cn_fails c"
    and "\<And>c x c'. m c = (Inr x, c') \<Longrightarrow> meaning m (cn_tables c) = Inr (x, cn_tables c')"
    and "\<And>c e c'. m c = (Inl e, c') \<Longrightarrow> healthy c \<Longrightarrow> meaning m (cn_tables c) = Inl e"
  shows "stable m"
  using assms by (fastforce simp: stable_def split: prod.split sum.split)

lemma stableD:
  assumes "stable m"
  shows "cn_fails (snd (m c)) = cn_fails c"
    and "m c = (Inr x, c') \<Longrightarrow> meaning m (cn_tables c) = Inr (x, cn_tables c')"
    and "m c = (Inl e, c') \<Longrightarrow> healthy c \<Longrightarrow> meaning m (cn_tables c) = Inl e"
  using assms by (auto simp: stable_def split: prod.split_asm sum.split_asm dest: spec [of _ c])

text \<open>On a healthy connection an action does exactly what its meaning says.\<close>

lemma stable_healthy:
  assumes "stable m" and "healthy c"
  shows "fst (m c) = map_sum id fst (meaning m (cn_tables c))"
    and "meaning m (cn_tables c) = Inr (x, t) \<Longrightarrow> \<exists>n. m c = (Inr x, c\<lparr>cn_tables := t, cn_calls := n\<rparr>)"
proof -
  obtain r c' where m: "m c = (r, c')" by (cases "m c")
  show "fst (m c) = map_sum id fst (meaning m (cn_tables c))"
    using stableD(2,3) [OF assms(1), of c] assms(2) m by (cases r) auto
  assume t: "meaning m (cn_tables c) = Inr (x, t)"
  then have "r = Inr x" "cn_tables c' = t" "cn_fails c' = cn_fails c"
    using stableD [OF assms(1), of c] assms(2) m by (cases r; auto)+
  then show "\<exists>n. m c = (Inr x, c\<lparr>cn_tables := t, cn_calls := n\<rparr>)"
    using m by (intro exI [of _ "cn_calls c'"]) (cases c, cases c', simp)
qed

lemma meaning_return [meaning_simps, simp]: "meaning (return_action x) t = Inr (x, t)"
  and meaning_throw [meaning_simps, simp]: "meaning (throw_action e) t = Inl e"
  and meaning_pure [meaning_simps, simp]: "meaning (pure_action r) t = map_sum id (\<lambda>x. (x, t)) r"
  and meaning_call [meaning_simps, simp]: "meaning (check_call code) t = Inr ((), t)"
  and meaning_apply [meaning_simps, simp]: "meaning (apply_statement code statement) t =
    (case statement t of None \<Rightarrow> Inl (InvestigationStoreError code) | Some (x, t') \<Rightarrow> Inr (x, t'))"
  by (auto simp: meaning_def return_action_def throw_action_def pure_action_def check_call_def apply_statement_def
    split: option.split sum.split)

lemma stable_basic [simp, intro]:
  "stable (return_action x)" "stable (throw_action e)" "stable (pure_action r)" "stable (check_call code)"
  "stable (apply_statement code statement)"
  by (auto simp: stable_def healthy_def return_action_def throw_action_def pure_action_def check_call_def
    apply_statement_def split: option.split sum.split)

lemma meaning_bind [meaning_simps, simp]:
  assumes "stable m" and "\<And>x. stable (f x)"
  shows "meaning (bind_action m f) t = bind_result (meaning m t) (\<lambda>(x, t'). meaning (f x) t')"
proof -
  let ?c = "\<lparr>cn_tables = t, cn_calls = 0, cn_fails = \<lambda>_. False\<rparr>"
  have h: "healthy ?c" by (simp add: healthy_def)
  obtain r c' where m: "m ?c = (r, c')" by (cases "m ?c")
  show ?thesis
  proof (cases r)
    case (Inl e)
    then show ?thesis
      using m stableD(3) [OF assms(1) _ h] by (simp add: meaning_def bind_action_def)
  next
    case (Inr x)
    have h': "healthy c'"
      using stableD(1) [OF assms(1), of ?c] m h by (simp add: healthy_def)
    obtain r2 c2 where f: "f x c' = (r2, c2)" by (cases "f x c'")
    have "meaning (bind_action m f) t = (case r2 of Inl e \<Rightarrow> Inl e | Inr y \<Rightarrow> Inr (y, cn_tables c2))"
      using m f Inr by (simp add: meaning_def bind_action_def)
    also have "\<dots> = meaning (f x) (cn_tables c')"
      using stableD(2,3) [OF assms(2) [of x], of c'] f h' by (auto split: sum.split)
    finally show ?thesis
      using stableD(2) [OF assms(1), of ?c x c'] m Inr by simp
  qed
qed

lemma stable_bind [simp, intro]:
  assumes "stable m" and "\<And>x. stable (f x)"
  shows "stable (bind_action m f)"
proof (rule stableI)
  fix c
  show "cn_fails (snd (bind_action m f c)) = cn_fails c"
    using stableD(1) [OF assms(1), of c] stableD(1) [OF assms(2)]
    by (auto simp: bind_action_def split: prod.split sum.split)
next
  fix c x c'
  assume "bind_action m f c = (Inr x, c')"
  then obtain y c1 where "m c = (Inr y, c1)" "f y c1 = (Inr x, c')"
    by (auto simp: bind_action_def split: prod.split_asm sum.split_asm)
  then show "meaning (bind_action m f) (cn_tables c) = Inr (x, cn_tables c')"
    using stableD(2) [OF assms(1)] stableD(2) [OF assms(2)] assms by simp
next
  fix c e c'
  assume run: "bind_action m f c = (Inl e, c')" and h: "healthy c"
  obtain r c1 where m: "m c = (r, c1)" by (cases "m c")
  show "meaning (bind_action m f) (cn_tables c) = Inl e"
  proof (cases r)
    case (Inl e')
    then show ?thesis
      using run m stableD(3) [OF assms(1) _ h] assms by (simp add: bind_action_def)
  next
    case (Inr y)
    have "healthy c1"
      using stableD(1) [OF assms(1), of c] m h by (simp add: healthy_def)
    then show ?thesis
      using run m Inr stableD(2) [OF assms(1)] stableD(3) [OF assms(2)] assms by (simp add: bind_action_def)
  qed
qed

text \<open>The composed calls.\<close>

lemma stable_calls [simp, intro]:
  "stable (execute_sql code statement)" "stable prepare_statement" "stable (bind_value v)" "stable (step_done statement)"
  by (auto simp: execute_sql_def prepare_statement_def bind_value_def step_done_def split: sql_value.split)

lemma meaning_execute [meaning_simps, simp]: "meaning (execute_sql code statement) t =
    (case statement t of None \<Rightarrow> Inl (InvestigationStoreError code) | Some (x, t') \<Rightarrow> Inr (x, t'))"
  by (simp add: execute_sql_def)

lemma meaning_prepare [meaning_simps, simp]: "meaning prepare_statement t = Inr ((), t)"
  by (simp add: prepare_statement_def)

lemma meaning_step_done [meaning_simps, simp]: "meaning (step_done statement) t =
    (case statement t of None \<Rightarrow> Inl (InvestigationStoreError Store_sqlite_failure) | Some (x, t') \<Rightarrow> Inr (x, t'))"
  by (auto simp: step_done_def split: option.split)

definition bindable :: "sql_value \<Rightarrow> bool" where
  "bindable v = (case v of SQL_blob bs \<Rightarrow> length bs \<le> 2147483647 | _ \<Rightarrow> True)"

lemma stable_bind_values [simp, intro]: "stable (bind_values vs)"
  by (induction vs) auto

lemma meaning_bind_values [meaning_simps, simp]: "list_all bindable vs \<Longrightarrow> meaning (bind_values vs) t = Inr ((), t)"
  by (induction vs) (auto simp: bind_value_def bindable_def split: sql_value.splits)

lemma step_row_split:
  "step_row rows = bind_action (check_call Store_sqlite_failure)
     (\<lambda>_. apply_statement Store_sqlite_failure (\<lambda>t. Some (case rows t of [] \<Rightarrow> None | r # _ \<Rightarrow> Some r, t)))"
  by (rule ext) (auto simp: step_row_def apply_statement_def bind_action_def check_call_def split: list.split)

lemma stable_step_row [simp, intro]: "stable (step_row rows)"
  by (simp add: step_row_split)

lemma meaning_step_row [meaning_simps, simp]:
  "meaning (step_row rows) t = Inr (case rows t of [] \<Rightarrow> None | r # _ \<Rightarrow> Some r, t)"
  by (simp add: step_row_split)

text \<open>Conversion of all rows, stopping at the first that does not convert.\<close>

fun map_rows :: "('r \<Rightarrow> 'e + 'a) \<Rightarrow> 'r list \<Rightarrow> 'e + 'a list" where
  "map_rows convert [] = Inr []"
| "map_rows convert (r # rows) =
     bind_result (convert r) (\<lambda>x. bind_result (map_rows convert rows) (\<lambda>xs. Inr (x # xs)))"

lemma map_rows_Inr: "(\<And>r. r \<in> set rows \<Longrightarrow> convert r = Inr (f r)) \<Longrightarrow> map_rows convert rows = Inr (map f rows)"
  by (induction rows) auto

lemma stable_step_each [simp, intro]: "stable (step_each convert rows)"
  by (induction rows) auto

lemma meaning_step_each: "meaning (step_each convert rows) t = map_sum id (\<lambda>xs. (xs, t)) (map_rows convert rows)"
proof (induction rows)
  case (Cons r rows)
  then show ?case
    by (cases "convert r"; cases "map_rows convert rows") auto
qed simp

lemma stable_step_rows [simp, intro]: "stable (step_rows rows convert)"
  using stableD [OF stable_step_each [of convert]]
  by (intro stableI) (auto simp: step_rows_def meaning_def healthy_def)

lemma meaning_step_rows [meaning_simps, simp]:
  "meaning (step_rows rows convert) t = map_sum id (\<lambda>xs. (xs, t)) (map_rows convert (rows t))"
  using meaning_step_each [of convert "rows t" t] by (simp add: meaning_def step_rows_def)

section \<open>Transactions\<close>

lemma transaction_cases:
  "transaction body c = (if cn_fails c (cn_calls c) then (Inl (InvestigationStoreError Store_sqlite_failure), c\<lparr>cn_calls := Suc (cn_calls c)\<rparr>)
   else case with_commit body (c\<lparr>cn_calls := Suc (cn_calls c)\<rparr>) of
       (Inl e, c') \<Rightarrow> (Inl e, rollback (cn_tables c) c')
     | (Inr x, c') \<Rightarrow> (Inr x, c'))"
  by (simp add: transaction_def bind_action_def check_call_def split: prod.split sum.split)

text \<open>A transaction that throws leaves the contents as they were, whatever its body did.\<close>

lemma transaction_atomic: "transaction body c = (Inl e, c') \<Longrightarrow> cn_tables c' = cn_tables c"
  by (auto simp: transaction_cases rollback_def split: if_split_asm prod.split_asm sum.split_asm)

lemma with_commit_stable:
  assumes "stable body"
  shows "stable (with_commit body)" and "meaning (with_commit body) t = meaning body t"
  using assms by (auto simp: with_commit_def bind_result_def split: sum.split)

lemma meaning_transaction [meaning_simps, simp]:
  assumes "stable body"
  shows "meaning (transaction body) t = meaning body t"
proof -
  let ?c = "\<lparr>cn_tables = t, cn_calls = Suc 0, cn_fails = \<lambda>_. False\<rparr>"
  obtain r c' where w: "with_commit body ?c = (r, c')" by (cases "with_commit body ?c")
  have "meaning (transaction body) t = (case r of Inl e \<Rightarrow> Inl e | Inr x \<Rightarrow> Inr (x, cn_tables c'))"
    using w by (cases r) (simp_all add: meaning_def transaction_cases)
  also have "\<dots> = meaning (with_commit body) t"
    using stableD(2,3) [OF with_commit_stable(1) [OF assms], of ?c] w by (cases r) (auto simp: healthy_def)
  finally show ?thesis
    using with_commit_stable(2) [OF assms] by simp
qed

lemma stable_transaction [simp, intro]:
  assumes "stable body"
  shows "stable (transaction body)"
proof (rule stableI)
  note w = stableD [OF with_commit_stable(1) [OF assms]]
  show "cn_fails (snd (transaction body c)) = cn_fails c" for c
    using w(1) [of "c\<lparr>cn_calls := Suc (cn_calls c)\<rparr>"]
    by (auto simp: transaction_cases rollback_def split: prod.split sum.split)
  show "meaning (transaction body) (cn_tables c) = Inr (x, cn_tables c')" if "transaction body c = (Inr x, c')" for c x c'
    using that w(2) [of "c\<lparr>cn_calls := Suc (cn_calls c)\<rparr>" x c'] assms
    by (auto simp: transaction_cases with_commit_stable(2) split: if_split_asm prod.split_asm sum.split_asm)
  show "meaning (transaction body) (cn_tables c) = Inl e" if "transaction body c = (Inl e, c')" "healthy c" for c e c'
    using that w(3) [of "c\<lparr>cn_calls := Suc (cn_calls c)\<rparr>" e] assms
    by (auto simp: transaction_cases with_commit_stable(2) healthy_def split: if_split_asm prod.split_asm sum.split_asm)
qed

end
