(* ===== verification/Store.thy ===== *)
theory Store
  imports Database Replay
begin

text \<open>
  The investigation store, \<open>storage/investigation_store.cpp\<close>: verified archives in four tables,
  with the queries over them. The SQL text of the source is translated statement by
  statement: a table is the list of its rows, a constraint of the schema a predicate, an
  \<open>INSERT\<close> a function of the tables, a \<open>SELECT\<close> a list of rows. Unsigned integers are stored as
  eight-byte big-endian blobs, whose order is the lexicographic order of byte strings. The
  time SQLite inserts for \<open>CURRENT_TIMESTAMP\<close> is an argument.
\<close>

section \<open>Tables\<close>

record ArchiveRow =
  ea_archive_id :: int
  ea_archive_digest :: bytes
  ea_trusted_head :: bytes
  ea_declared_head :: bytes
  ea_archive_schema :: int
  ea_record_schema :: int
  ea_record_count :: int
  ea_source :: string
  ea_imported_at_utc :: string

record EvidenceRow =
  ev_archive_id :: int
  ev_ordinal :: bytes
  ev_record_digest :: bytes
  ev_previous_record_digest :: bytes
  ev_world_fingerprint_before :: bytes
  ev_observed_tick :: bytes
  ev_schema_version :: int
  ev_command_type :: int
  ev_client_id :: bytes
  ev_session_id :: bytes
  ev_sequence :: bytes
  ev_target_tick :: bytes
  ev_entity_id :: bytes
  ev_velocity_x :: int
  ev_velocity_y :: int
  ev_session_sequence_before :: bytes
  ev_session_sequence_after :: bytes
  ev_pending_commands_before :: bytes
  ev_pending_commands_after :: bytes
  ev_rejection_code :: int
  ev_queue_outcome :: int
  ev_encoded_record :: bytes

record SessionRow =
  sn_archive_id :: int
  sn_client_id :: bytes
  sn_session_id :: bytes
  sn_first_ordinal :: bytes
  sn_last_ordinal :: bytes
  sn_first_observed_tick :: bytes
  sn_last_observed_tick :: bytes
  sn_accepted_count :: int
  sn_rejected_count :: int

record ReplayRow =
  rt_archive_id :: int
  rt_replay_code :: int
  rt_processed_records :: int
  rt_failed_ordinal :: "bytes option"
  rt_performed_tick_advances :: bytes
  rt_final_tick :: bytes
  rt_final_session_sequence :: bytes
  rt_final_pending_command_count :: bytes
  rt_final_world_fingerprint :: bytes
  rt_replayed_head_digest :: bytes
  rt_recorded_at_utc :: string

text \<open>The migration ledger may be missing; the other tables are created together.\<close>

record Tables =
  tb_migrations :: "int list option"
  tb_created :: bool
  tb_archives :: "ArchiveRow list"
  tb_evidence :: "EvidenceRow list"
  tb_sessions :: "SessionRow list"
  tb_replays :: "ReplayRow list"

text \<open>The \<open>CHECK\<close> constraints. \<open>length\<close> of a text counts the characters before the first zero.\<close>

definition archive_row_ok :: "ArchiveRow \<Rightarrow> bool" where
  "archive_row_ok r \<longleftrightarrow> length (ea_archive_digest r) = 32 \<and> length (ea_trusted_head r) = 32 \<and>
     length (ea_declared_head r) = 32 \<and> ea_record_count r \<ge> 0 \<and>
     length (takeWhile (\<lambda>c. c \<noteq> CHR 0x00) (ea_source r)) > 0"

definition evidence_row_ok :: "EvidenceRow \<Rightarrow> bool" where
  "evidence_row_ok r \<longleftrightarrow> length (ev_ordinal r) = 8 \<and> length (ev_record_digest r) = 32 \<and>
     length (ev_previous_record_digest r) = 32 \<and> length (ev_world_fingerprint_before r) = 8 \<and>
     length (ev_observed_tick r) = 8 \<and> length (ev_client_id r) = 8 \<and> length (ev_session_id r) = 8 \<and>
     length (ev_sequence r) = 8 \<and> length (ev_target_tick r) = 8 \<and> length (ev_entity_id r) = 8 \<and>
     length (ev_session_sequence_before r) = 8 \<and> length (ev_session_sequence_after r) = 8 \<and>
     length (ev_pending_commands_before r) = 8 \<and> length (ev_pending_commands_after r) = 8 \<and>
     length (ev_encoded_record r) = 160"

definition session_row_ok :: "SessionRow \<Rightarrow> bool" where
  "session_row_ok r \<longleftrightarrow> length (sn_client_id r) = 8 \<and> length (sn_session_id r) = 8 \<and>
     length (sn_first_ordinal r) = 8 \<and> length (sn_last_ordinal r) = 8 \<and>
     length (sn_first_observed_tick r) = 8 \<and> length (sn_last_observed_tick r) = 8 \<and>
     sn_accepted_count r \<ge> 0 \<and> sn_rejected_count r \<ge> 0"

definition replay_row_ok :: "ReplayRow \<Rightarrow> bool" where
  "replay_row_ok r \<longleftrightarrow> rt_processed_records r \<ge> 0 \<and>
     (case rt_failed_ordinal r of None \<Rightarrow> True | Some bs \<Rightarrow> length bs = 8) \<and>
     length (rt_performed_tick_advances r) = 8 \<and> length (rt_final_tick r) = 8 \<and>
     length (rt_final_session_sequence r) = 8 \<and> length (rt_final_pending_command_count r) = 8 \<and>
     length (rt_final_world_fingerprint r) = 8 \<and> length (rt_replayed_head_digest r) = 32"

section \<open>Statements that change the tables\<close>

text \<open>
  A new key of an \<open>INTEGER PRIMARY KEY\<close> is one above the largest in use. Once the largest
  possible key is taken, SQLite tries random ones, and fails when it finds none free; here
  the insertion then fails, and the properties that promise success assume that this
  successor exists.
\<close>

definition next_rowid :: "int list \<Rightarrow> int option" where
  "next_rowid ids = (let largest = fold max ids 0
     in if largest \<ge> i64_max then None else Some (largest + 1))"

text \<open>\<open>INSERT OR IGNORE\<close>: the new key, or none when a constraint made SQLite skip the row.\<close>

definition insert_archive :: "ArchiveRow \<Rightarrow> Tables \<Rightarrow> (int option \<times> Tables) option" where
  "insert_archive row t =
     (if \<not> archive_row_ok row \<or> ea_archive_digest row \<in> set (map ea_archive_digest (tb_archives t))
      then Some (None, t)
      else case next_rowid (map ea_archive_id (tb_archives t)) of
        None \<Rightarrow> None
      | Some i \<Rightarrow> Some (Some i, t\<lparr>tb_archives := tb_archives t @ [row\<lparr>ea_archive_id := i\<rparr>]\<rparr>))"

definition insert_evidence :: "EvidenceRow \<Rightarrow> Tables \<Rightarrow> (unit \<times> Tables) option" where
  "insert_evidence row t =
     (if evidence_row_ok row \<and>
         ev_archive_id row \<in> set (map ea_archive_id (tb_archives t)) \<and>
         (ev_archive_id row, ev_ordinal row) \<notin> set (map (\<lambda>r. (ev_archive_id r, ev_ordinal r)) (tb_evidence t)) \<and>
         (ev_archive_id row, ev_record_digest row) \<notin>
           set (map (\<lambda>r. (ev_archive_id r, ev_record_digest r)) (tb_evidence t))
      then Some ((), t\<lparr>tb_evidence := tb_evidence t @ [row]\<rparr>) else None)"

definition insert_session :: "SessionRow \<Rightarrow> Tables \<Rightarrow> (unit \<times> Tables) option" where
  "insert_session row t =
     (if session_row_ok row \<and>
         sn_archive_id row \<in> set (map ea_archive_id (tb_archives t)) \<and>
         (sn_archive_id row, sn_client_id row, sn_session_id row) \<notin>
           set (map (\<lambda>r. (sn_archive_id r, sn_client_id r, sn_session_id r)) (tb_sessions t))
      then Some ((), t\<lparr>tb_sessions := tb_sessions t @ [row]\<rparr>) else None)"

text \<open>\<open>INSERT ... ON CONFLICT(archive_id) DO UPDATE\<close>, which replaces every other column.\<close>

definition upsert_replay :: "ReplayRow \<Rightarrow> Tables \<Rightarrow> (unit \<times> Tables) option" where
  "upsert_replay row t =
     (if \<not> (replay_row_ok row \<and> rt_archive_id row \<in> set (map ea_archive_id (tb_archives t))) then None
      else if rt_archive_id row \<in> set (map rt_archive_id (tb_replays t))
      then Some ((), t\<lparr>tb_replays :=
        map (\<lambda>r. if rt_archive_id r = rt_archive_id row then row else r) (tb_replays t)\<rparr>)
      else Some ((), t\<lparr>tb_replays := tb_replays t @ [row]\<rparr>))"

section \<open>Opening and migration\<close>

abbreviation investigation_schema_version :: int where
  "investigation_schema_version \<equiv> 1"

definition create_ledger :: "Tables \<Rightarrow> (unit \<times> Tables) option" where
  "create_ledger t = Some ((), case tb_migrations t of None \<Rightarrow> t\<lparr>tb_migrations := Some []\<rparr> | Some _ \<Rightarrow> t)"

definition schema_sql :: "Tables \<Rightarrow> (unit \<times> Tables) option" where
  "schema_sql t = (if tb_created t then None
     else Some ((), t\<lparr>tb_created := True, tb_archives := [], tb_evidence := [], tb_sessions := [], tb_replays := []\<rparr>))"

definition record_migration :: "Tables \<Rightarrow> (unit \<times> Tables) option" where
  "record_migration t = (case tb_migrations t of
     None \<Rightarrow> None
   | Some vs \<Rightarrow> if investigation_schema_version \<in> set vs then None
       else Some ((), t\<lparr>tb_migrations := Some (vs @ [investigation_schema_version])\<rparr>))"

text \<open>\<open>SELECT COALESCE(MAX(version), 0)\<close> on the ledger; preparing it fails without a ledger.\<close>

definition select_version :: "Tables \<Rightarrow> (int \<times> Tables) option" where
  "select_version t = (case tb_migrations t of
     None \<Rightarrow> None
   | Some [] \<Rightarrow> Some (0, t)
   | Some (v # vs) \<Rightarrow> Some (fold max vs v, t))"

definition read_version :: "(Tables, int) action" where
  "read_version =
     bind_action prepare_statement (\<lambda>_.
     bind_action (apply_statement Store_sqlite_failure select_version) (\<lambda>v.
     bind_action (step_row (\<lambda>_. [v])) (\<lambda>row. case row of
       None \<Rightarrow> throw_action (InvestigationStoreError Store_migration_failed)
     | Some v \<Rightarrow> return_action (column_int v))))"

definition migration_body :: "(Tables, unit) action" where
  "migration_body =
     bind_action (execute_sql Store_migration_failed create_ledger) (\<lambda>_.
     bind_action read_version (\<lambda>version.
     if version > investigation_schema_version
     then throw_action (InvestigationStoreError Store_migration_failed)
     else if version = 0
     then bind_action (execute_sql Store_migration_failed schema_sql) (\<lambda>_.
          bind_action prepare_statement (\<lambda>_.
          bind_action (bind_values [SQL_integer investigation_schema_version]) (\<lambda>_.
          step_done record_migration)))
     else return_action ()))"

text \<open>Every \<open>InvestigationStoreError\<close> leaves \<open>migrate\<close> with the code for a failed migration.\<close>

definition migrate :: "(Tables, unit) action" where
  "migrate c = (case transaction migration_body c of
     (Inl (InvestigationStoreError code), c') \<Rightarrow> (Inl (InvestigationStoreError Store_migration_failed), c')
   | r \<Rightarrow> r)"

definition open_store :: "(Tables, unit) action" where
  "open_store =
     bind_action (check_call Store_open_failed) (\<lambda>_.
     bind_action (execute_sql Store_open_failed (\<lambda>t. Some ((), t))) (\<lambda>_.
     migrate))"

definition schema_version :: "(Tables, int) action" where
  "schema_version =
     bind_action prepare_statement (\<lambda>_.
     bind_action (apply_statement Store_sqlite_failure select_version) (\<lambda>v.
     bind_action (step_row (\<lambda>_. [v])) (\<lambda>row. case row of
       None \<Rightarrow> throw_action (InvestigationStoreError Store_sqlite_failure)
     | Some v \<Rightarrow> return_action (column_int v))))"

text \<open>Preparing a statement on the tables of the schema.\<close>

definition prepare_store :: "(Tables, unit) action" where
  "prepare_store =
     bind_action prepare_statement (\<lambda>_.
     apply_statement Store_sqlite_failure (\<lambda>t. if tb_created t then Some ((), t) else None))"

section \<open>Import\<close>

record EvidenceArchiveImportResult =
  ir_archive_id :: int
  ir_inserted :: bool
  ir_record_count :: nat
  ir_archive_digest :: Sha256Digest
  ir_chain_head :: Sha256Digest

record SessionAggregate =
  sg_first_ordinal :: u64
  sg_last_ordinal :: u64
  sg_first_observed_tick :: u64
  sg_last_observed_tick :: u64
  sg_accepted_count :: nat
  sg_rejected_count :: nat

type_synonym session_key = "u64 \<times> u64"

definition session_key :: "CommandEvidenceRecord \<Rightarrow> session_key" where
  "session_key r = (cid_value (ce_client_id (en_envelope (er_entry r))), sid_value (ce_session_id (en_envelope (er_entry r))))"

definition aggregate_record ::
  "CommandEvidenceRecord \<Rightarrow> (session_key, SessionAggregate) omap \<Rightarrow> (session_key, SessionAggregate) omap"
where
  "aggregate_record r m =
     (let key = session_key r;
          entry = er_entry r;
          was_inserted = \<not> omap_contains m key;
          m = omap_emplace key \<lparr>sg_first_ordinal = er_ordinal r, sg_last_ordinal = er_ordinal r,
                sg_first_observed_tick = en_observed_tick entry, sg_last_observed_tick = en_observed_tick entry,
                sg_accepted_count = 0, sg_rejected_count = 0\<rparr> m
      in case map_of m key of
           None \<Rightarrow> m
         | Some aggregate \<Rightarrow>
             let aggregate = (if was_inserted then aggregate
                   else aggregate\<lparr>sg_last_ordinal := er_ordinal r, sg_last_observed_tick := en_observed_tick entry\<rparr>);
                 aggregate = (if en_rejection_code entry = Reject_none
                   then aggregate\<lparr>sg_accepted_count := sg_accepted_count aggregate + 1\<rparr>
                   else aggregate\<lparr>sg_rejected_count := sg_rejected_count aggregate + 1\<rparr>)
             in omap_assign key aggregate m)"

definition evidence_row :: "int \<Rightarrow> CommandEvidenceRecord \<Rightarrow> Sha256Digest \<Rightarrow> bytes \<Rightarrow> EvidenceRow" where
  "evidence_row archive_id r digest encoded =
     (let entry = er_entry r; envelope = en_envelope entry
      in \<lparr>ev_archive_id = archive_id,
          ev_ordinal = encode_u64 (er_ordinal r),
          ev_record_digest = digest_bytes digest,
          ev_previous_record_digest = digest_bytes (er_previous_record_digest r),
          ev_world_fingerprint_before = encode_u64 (fp_value (en_world_fingerprint_before entry)),
          ev_observed_tick = encode_u64 (en_observed_tick entry),
          ev_schema_version = uint (ce_schema_version envelope),
          ev_command_type = uint (ct_code (ce_type envelope)),
          ev_client_id = encode_u64 (cid_value (ce_client_id envelope)),
          ev_session_id = encode_u64 (sid_value (ce_session_id envelope)),
          ev_sequence = encode_u64 (ce_sequence envelope),
          ev_target_tick = encode_u64 (ce_target_tick envelope),
          ev_entity_id = encode_u64 (eid_value (sv_entity_id (ce_payload envelope))),
          ev_velocity_x = sint (mmps_count (v_x (sv_velocity (ce_payload envelope)))),
          ev_velocity_y = sint (mmps_count (v_y (sv_velocity (ce_payload envelope)))),
          ev_session_sequence_before = encode_u64 (en_session_sequence_before entry),
          ev_session_sequence_after = encode_u64 (en_session_sequence_after entry),
          ev_pending_commands_before = encode_u64 (en_pending_commands_before entry),
          ev_pending_commands_after = encode_u64 (en_pending_commands_after entry),
          ev_rejection_code = uint (rejection_code_value (en_rejection_code entry)),
          ev_queue_outcome = uint (queue_outcome_value (en_queue_outcome entry)),
          ev_encoded_record = encoded\<rparr>)"

text \<open>The 22 values bound for one record, in the order of the parameters.\<close>

definition evidence_values :: "EvidenceRow \<Rightarrow> sql_value list" where
  "evidence_values r =
     [SQL_integer (ev_archive_id r), SQL_blob (ev_ordinal r), SQL_blob (ev_record_digest r),
      SQL_blob (ev_previous_record_digest r), SQL_blob (ev_world_fingerprint_before r),
      SQL_blob (ev_observed_tick r), SQL_integer (ev_schema_version r), SQL_integer (ev_command_type r),
      SQL_blob (ev_client_id r), SQL_blob (ev_session_id r), SQL_blob (ev_sequence r),
      SQL_blob (ev_target_tick r), SQL_blob (ev_entity_id r), SQL_integer (ev_velocity_x r),
      SQL_integer (ev_velocity_y r), SQL_blob (ev_session_sequence_before r),
      SQL_blob (ev_session_sequence_after r), SQL_blob (ev_pending_commands_before r),
      SQL_blob (ev_pending_commands_after r), SQL_integer (ev_rejection_code r),
      SQL_integer (ev_queue_outcome r), SQL_blob (ev_encoded_record r)]"

definition from_command_layer :: "'a result \<Rightarrow> ('t, 'a) action" where
  "from_command_layer r = pure_action (map_sum Store_cxx_error id r)"

fun import_records ::
  "int \<Rightarrow> CommandEvidenceRecord list \<Rightarrow> (session_key, SessionAggregate) omap \<Rightarrow>
   (Tables, (session_key, SessionAggregate) omap) action"
where
  "import_records archive_id [] aggregates = return_action aggregates"
| "import_records archive_id (r # records) aggregates =
     bind_action (from_command_layer (encode_command_evidence r)) (\<lambda>encoded_record.
     bind_action (from_command_layer (digest_command_evidence r)) (\<lambda>record_digest.
     let row = evidence_row archive_id r record_digest encoded_record in
     bind_action (bind_values (evidence_values row)) (\<lambda>_.
     bind_action (step_done (insert_evidence row)) (\<lambda>_.
     import_records archive_id records (aggregate_record r aggregates)))))"

definition session_row :: "int \<Rightarrow> session_key \<times> SessionAggregate \<Rightarrow> SessionRow" where
  "session_row archive_id = (\<lambda>((client_id, session_id), aggregate).
     \<lparr>sn_archive_id = archive_id, sn_client_id = encode_u64 client_id, sn_session_id = encode_u64 session_id,
      sn_first_ordinal = encode_u64 (sg_first_ordinal aggregate),
      sn_last_ordinal = encode_u64 (sg_last_ordinal aggregate),
      sn_first_observed_tick = encode_u64 (sg_first_observed_tick aggregate),
      sn_last_observed_tick = encode_u64 (sg_last_observed_tick aggregate),
      sn_accepted_count = int (sg_accepted_count aggregate),
      sn_rejected_count = int (sg_rejected_count aggregate)\<rparr>)"

fun import_sessions :: "int \<Rightarrow> (session_key, SessionAggregate) omap \<Rightarrow> (Tables, unit) action" where
  "import_sessions archive_id [] = return_action ()"
| "import_sessions archive_id (p # aggregates) =
     (let row = session_row archive_id p; aggregate = snd p in
     bind_action (bind_values [SQL_integer archive_id, SQL_blob (sn_client_id row), SQL_blob (sn_session_id row),
       SQL_blob (sn_first_ordinal row), SQL_blob (sn_last_ordinal row), SQL_blob (sn_first_observed_tick row),
       SQL_blob (sn_last_observed_tick row)]) (\<lambda>_.
     bind_action (pure_action (checked_int64 (sg_accepted_count aggregate))) (\<lambda>accepted.
     bind_action (bind_values [SQL_integer accepted]) (\<lambda>_.
     bind_action (pure_action (checked_int64 (sg_rejected_count aggregate))) (\<lambda>rejected.
     bind_action (bind_values [SQL_integer rejected]) (\<lambda>_.
     bind_action (step_done (insert_session row)) (\<lambda>_.
     import_sessions archive_id aggregates)))))))"

text \<open>The branch for an archive whose digest is stored already.\<close>

definition existing_archive ::
  "CommandEvidenceArchive \<Rightarrow> Sha256Digest \<Rightarrow> (Tables, EvidenceArchiveImportResult) action"
where
  "existing_archive archive archive_digest =
     bind_action prepare_store (\<lambda>_.
     bind_action (bind_values [SQL_blob (digest_bytes archive_digest)]) (\<lambda>_.
     bind_action (step_row (\<lambda>t. filter (\<lambda>r. ea_archive_digest r = digest_bytes archive_digest) (tb_archives t))) (\<lambda>row.
     case row of
       None \<Rightarrow> throw_action (InvestigationStoreError Store_sqlite_failure)
     | Some r \<Rightarrow>
         bind_action (pure_action (store_checked_size (ea_record_count r))) (\<lambda>existing_count.
         bind_action (pure_action (decode_digest (ea_declared_head r))) (\<lambda>existing_head.
         if existing_count \<noteq> length (ca_records archive) \<or> existing_head \<noteq> ca_head_digest archive
         then throw_action (InvestigationStoreError Store_sqlite_failure)
         else return_action \<lparr>ir_archive_id = ea_archive_id r, ir_inserted = False,
                ir_record_count = length (ca_records archive), ir_archive_digest = archive_digest,
                ir_chain_head = ca_head_digest archive\<rparr>)))))"

definition new_archive ::
  "CommandEvidenceArchive \<Rightarrow> Sha256Digest \<Rightarrow> int \<Rightarrow> (Tables, EvidenceArchiveImportResult) action"
where
  "new_archive archive archive_digest archive_id =
     bind_action prepare_store (\<lambda>_.
     bind_action (import_records archive_id (ca_records archive) []) (\<lambda>session_aggregates.
     bind_action prepare_store (\<lambda>_.
     bind_action (import_sessions archive_id session_aggregates) (\<lambda>_.
     return_action \<lparr>ir_archive_id = archive_id, ir_inserted = True,
       ir_record_count = length (ca_records archive), ir_archive_digest = archive_digest,
       ir_chain_head = ca_head_digest archive\<rparr>))))"

definition import_body ::
  "string \<Rightarrow> CommandEvidenceArchive \<Rightarrow> Sha256Digest \<Rightarrow> Sha256Digest \<Rightarrow> string \<Rightarrow>
   (Tables, EvidenceArchiveImportResult) action"
where
  "import_body now archive archive_digest trusted_head source =
     bind_action prepare_store (\<lambda>_.
     bind_action (bind_values [SQL_blob (digest_bytes archive_digest), SQL_blob (digest_bytes trusted_head),
       SQL_blob (digest_bytes (ca_head_digest archive)), SQL_integer (uint command_evidence_archive_schema_version),
       SQL_integer (uint command_evidence_schema_version)]) (\<lambda>_.
     bind_action (pure_action (checked_int64 (length (ca_records archive)))) (\<lambda>record_count.
     bind_action (bind_values [SQL_integer record_count, SQL_text source]) (\<lambda>_.
     bind_action (step_done (insert_archive
       \<lparr>ea_archive_id = 0, ea_archive_digest = digest_bytes archive_digest,
        ea_trusted_head = digest_bytes trusted_head, ea_declared_head = digest_bytes (ca_head_digest archive),
        ea_archive_schema = uint command_evidence_archive_schema_version,
        ea_record_schema = uint command_evidence_schema_version,
        ea_record_count = record_count, ea_source = bound_text source, ea_imported_at_utc = now\<rparr>)) (\<lambda>inserted.
     case inserted of
       None \<Rightarrow> existing_archive archive archive_digest
     | Some archive_id \<Rightarrow> new_archive archive archive_digest archive_id)))))"

definition import_archive ::
  "string \<Rightarrow> bytes \<Rightarrow> Sha256Digest \<Rightarrow> string \<Rightarrow> (Tables, EvidenceArchiveImportResult) action"
where
  "import_archive now encoded_archive trusted_head source =
     (if encoded_archive = [] then throw_action (InvestigationStoreError Store_invalid_argument)
      else if source = [] then throw_action (InvestigationStoreError Store_invalid_argument)
      else case decode_command_evidence_archive encoded_archive trusted_head of
        Inl e \<Rightarrow> throw_action (Store_cxx_error e)
      | Inr (Inl _) \<Rightarrow> throw_action (InvestigationStoreError Store_archive_verification_failed)
      | Inr (Inr archive) \<Rightarrow>
          transaction (import_body now archive (sha256 encoded_archive) trusted_head source))"

section \<open>Replay results\<close>

definition replay_code_value :: "CommandEvidenceReplayCode \<Rightarrow> int" where
  "replay_code_value code = (case code of
     Replay_verified \<Rightarrow> 0
   | Replay_chain_verification_failed \<Rightarrow> 1
   | Replay_observed_tick_regression \<Rightarrow> 2
   | Replay_tick_advance_limit_exceeded \<Rightarrow> 3
   | Replay_simulation_advance_failed \<Rightarrow> 4
   | Replay_session_state_mismatch \<Rightarrow> 5
   | Replay_pending_command_count_mismatch \<Rightarrow> 6
   | Replay_world_state_mismatch \<Rightarrow> 7
   | Replay_submission_record_mismatch \<Rightarrow> 8)"

text \<open>The cast back to the enumeration, whose underlying type has 16 bits.\<close>

definition replay_code_of :: "int \<Rightarrow> store_exception + CommandEvidenceReplayCode" where
  "replay_code_of n = (case find (\<lambda>code. replay_code_value code = take_bit 16 n)
     [Replay_verified, Replay_chain_verification_failed, Replay_observed_tick_regression,
      Replay_tick_advance_limit_exceeded, Replay_simulation_advance_failed, Replay_session_state_mismatch,
      Replay_pending_command_count_mismatch, Replay_world_state_mismatch, Replay_submission_record_mismatch] of
       None \<Rightarrow> Inl Unnamed_enumerator
     | Some code \<Rightarrow> Inr code)"

definition replay_row :: "string \<Rightarrow> int \<Rightarrow> int \<Rightarrow> CommandEvidenceReplayResult \<Rightarrow> ReplayRow" where
  "replay_row now archive_id processed r =
     \<lparr>rt_archive_id = archive_id, rt_replay_code = replay_code_value (rr_code r), rt_processed_records = processed,
      rt_failed_ordinal = map_option encode_u64 (rr_failed_ordinal r),
      rt_performed_tick_advances = encode_u64 (rr_performed_tick_advances r),
      rt_final_tick = encode_u64 (rr_final_tick r),
      rt_final_session_sequence = encode_u64 (rr_final_session_sequence r),
      rt_final_pending_command_count = encode_u64 (of_nat (rr_final_pending_command_count r)),
      rt_final_world_fingerprint = encode_u64 (fp_value (rr_final_world_fingerprint r)),
      rt_replayed_head_digest = digest_bytes (rr_replayed_head_digest r), rt_recorded_at_utc = now\<rparr>"

definition record_replay_result ::
  "string \<Rightarrow> int \<Rightarrow> CommandEvidenceReplayResult \<Rightarrow> (Tables, unit) action"
where
  "record_replay_result now archive_id result =
     (if archive_id \<le> 0 then throw_action (InvestigationStoreError Store_invalid_argument)
      else
        bind_action prepare_store (\<lambda>_.
        bind_action (bind_values [SQL_integer archive_id]) (\<lambda>_.
        bind_action (step_row (\<lambda>t. filter (\<lambda>r. ea_archive_id r = archive_id) (tb_archives t))) (\<lambda>row.
        if row = None then throw_action (InvestigationStoreError Store_archive_not_found)
        else if rr_final_pending_command_count result > u64_limit - 1
        then throw_action (InvestigationStoreError Store_invalid_argument)
        else transaction
          (bind_action prepare_store (\<lambda>_.
           bind_action (bind_values [SQL_integer archive_id, SQL_integer (replay_code_value (rr_code result))]) (\<lambda>_.
           bind_action (pure_action (checked_int64 (rr_processed_records result))) (\<lambda>processed.
           let row = replay_row now archive_id processed result in
           bind_action (bind_values [SQL_integer processed,
             (case rt_failed_ordinal row of None \<Rightarrow> SQL_null | Some bs \<Rightarrow> SQL_blob bs),
             SQL_blob (rt_performed_tick_advances row), SQL_blob (rt_final_tick row),
             SQL_blob (rt_final_session_sequence row), SQL_blob (rt_final_pending_command_count row),
             SQL_blob (rt_final_world_fingerprint row), SQL_blob (rt_replayed_head_digest row)]) (\<lambda>_.
           step_done (upsert_replay row))))))))))"

definition read_replay_row :: "ReplayRow \<Rightarrow> store_exception + CommandEvidenceReplayResult" where
  "read_replay_row row =
     bind_result (case rt_failed_ordinal row of None \<Rightarrow> Inr None | Some bs \<Rightarrow> map_sum id Some (decode_u64 bs)) (\<lambda>failed_ordinal.
     bind_result (replay_code_of (column_int (rt_replay_code row))) (\<lambda>code.
     bind_result (store_checked_size (rt_processed_records row)) (\<lambda>processed_records.
     bind_result (decode_u64 (rt_performed_tick_advances row)) (\<lambda>performed.
     bind_result (decode_u64 (rt_final_tick row)) (\<lambda>final_tick.
     bind_result (decode_u64 (rt_final_session_sequence row)) (\<lambda>sequence.
     bind_result (bind_result (decode_u64 (rt_final_pending_command_count row)) checked_size_u64) (\<lambda>pending.
     bind_result (decode_u64 (rt_final_world_fingerprint row)) (\<lambda>fingerprint.
     bind_result (decode_digest (rt_replayed_head_digest row)) (\<lambda>head.
     Inr \<lparr>rr_code = code, rr_processed_records = processed_records, rr_failed_ordinal = failed_ordinal,
          rr_performed_tick_advances = performed, rr_final_tick = final_tick,
          rr_final_session_sequence = sequence, rr_final_pending_command_count = pending,
          rr_final_world_fingerprint = StateFingerprint fingerprint, rr_replayed_head_digest = head\<rparr>)))))))))"

definition replay_result :: "int \<Rightarrow> (Tables, CommandEvidenceReplayResult option) action" where
  "replay_result archive_id =
     (if archive_id \<le> 0 then throw_action (InvestigationStoreError Store_invalid_argument)
      else
        bind_action prepare_store (\<lambda>_.
        bind_action (bind_values [SQL_integer archive_id]) (\<lambda>_.
        bind_action (step_row (\<lambda>t. filter (\<lambda>r. rt_archive_id r = archive_id) (tb_replays t))) (\<lambda>row.
        case row of
          None \<Rightarrow> return_action None
        | Some row \<Rightarrow> bind_action (pure_action (read_replay_row row)) (\<lambda>r. return_action (Some r))))))"

section \<open>Queries\<close>

record EvidenceArchiveSummary =
  as_archive_id :: int
  as_source :: string
  as_imported_at_utc :: string
  as_record_count :: nat
  as_archive_digest :: Sha256Digest
  as_trusted_head :: Sha256Digest
  as_chain_head :: Sha256Digest

record EvidenceSessionSummary =
  ss_client_id :: ClientId
  ss_session_id :: SessionId
  ss_first_ordinal :: u64
  ss_last_ordinal :: u64
  ss_first_observed_tick :: u64
  ss_last_observed_tick :: u64
  ss_accepted_count :: nat
  ss_rejected_count :: nat

record EvidenceQuery =
  eq_client_id :: "ClientId option"
  eq_session_id :: "SessionId option"
  eq_rejection_code :: "CommandRejectionCode option"
  eq_queue_outcome :: "CommandQueueOutcome option"
  eq_minimum_observed_tick :: "u64 option"
  eq_maximum_observed_tick :: "u64 option"
  eq_after_ordinal :: "u64 option"
  eq_limit :: nat

definition default_query :: EvidenceQuery where
  "default_query = \<lparr>eq_client_id = None, eq_session_id = None, eq_rejection_code = None, eq_queue_outcome = None,
     eq_minimum_observed_tick = None, eq_maximum_observed_tick = None, eq_after_ordinal = None, eq_limit = 100\<rparr>"

record StoredEvidenceRecord =
  se_archive_id :: int
  se_record_digest :: Sha256Digest
  se_record :: CommandEvidenceRecord

definition validate_limit :: "nat \<Rightarrow> (Tables, unit) action" where
  "validate_limit limit =
     (if limit = 0 \<or> limit > 1000 then throw_action (InvestigationStoreError Store_invalid_argument)
      else return_action ())"

text \<open>\<open>WHERE archive_id < ? ORDER BY archive_id DESC LIMIT ?\<close>\<close>

definition select_archives :: "int \<Rightarrow> int option \<Rightarrow> Tables \<Rightarrow> ArchiveRow list" where
  "select_archives limit before t =
     take (nat limit) (rev (sort_key ea_archive_id
       (filter (\<lambda>r. case before of None \<Rightarrow> True | Some b \<Rightarrow> ea_archive_id r < b) (tb_archives t))))"

definition read_archive_row :: "ArchiveRow \<Rightarrow> store_exception + EvidenceArchiveSummary" where
  "read_archive_row row =
     bind_result (store_checked_size (ea_record_count row)) (\<lambda>record_count.
     bind_result (decode_digest (ea_archive_digest row)) (\<lambda>archive_digest.
     bind_result (decode_digest (ea_trusted_head row)) (\<lambda>trusted_head.
     bind_result (decode_digest (ea_declared_head row)) (\<lambda>chain_head.
     Inr \<lparr>as_archive_id = ea_archive_id row, as_source = ea_source row, as_imported_at_utc = ea_imported_at_utc row,
          as_record_count = record_count, as_archive_digest = archive_digest, as_trusted_head = trusted_head,
          as_chain_head = chain_head\<rparr>))))"

definition list_archives :: "nat \<Rightarrow> int option \<Rightarrow> (Tables, EvidenceArchiveSummary list) action" where
  "list_archives limit before_archive_id =
     bind_action (validate_limit limit) (\<lambda>_.
     if (case before_archive_id of None \<Rightarrow> False | Some b \<Rightarrow> b \<le> 0)
     then throw_action (InvestigationStoreError Store_invalid_argument)
     else
       bind_action prepare_store (\<lambda>_.
       bind_action (bind_values (case before_archive_id of None \<Rightarrow> [] | Some b \<Rightarrow> [SQL_integer b])) (\<lambda>_.
       bind_action (pure_action (checked_int64 limit)) (\<lambda>bound.
       bind_action (bind_values [SQL_integer bound]) (\<lambda>_.
       step_rows (select_archives bound before_archive_id) read_archive_row)))))"

text \<open>The condition the query text is assembled from, one conjunct per optional field.\<close>

definition evidence_matches :: "int \<Rightarrow> EvidenceQuery \<Rightarrow> EvidenceRow \<Rightarrow> bool" where
  "evidence_matches archive_id query r \<longleftrightarrow>
     ev_archive_id r = archive_id \<and>
     (case eq_client_id query of None \<Rightarrow> True | Some c \<Rightarrow> ev_client_id r = encode_u64 (cid_value c)) \<and>
     (case eq_session_id query of None \<Rightarrow> True | Some c \<Rightarrow> ev_session_id r = encode_u64 (sid_value c)) \<and>
     (case eq_rejection_code query of None \<Rightarrow> True | Some c \<Rightarrow> ev_rejection_code r = uint (rejection_code_value c)) \<and>
     (case eq_queue_outcome query of None \<Rightarrow> True | Some c \<Rightarrow> ev_queue_outcome r = uint (queue_outcome_value c)) \<and>
     (case eq_minimum_observed_tick query of None \<Rightarrow> True | Some v \<Rightarrow> ev_observed_tick r \<ge> encode_u64 v) \<and>
     (case eq_maximum_observed_tick query of None \<Rightarrow> True | Some v \<Rightarrow> ev_observed_tick r \<le> encode_u64 v) \<and>
     (case eq_after_ordinal query of None \<Rightarrow> True | Some v \<Rightarrow> ev_ordinal r > encode_u64 v)"

text \<open>\<open>WHERE ... ORDER BY ordinal ASC LIMIT ?\<close>\<close>

definition select_evidence :: "int \<Rightarrow> EvidenceQuery \<Rightarrow> int \<Rightarrow> Tables \<Rightarrow> EvidenceRow list" where
  "select_evidence archive_id query limit t =
     take (nat limit) (sort_key ev_ordinal (filter (evidence_matches archive_id query) (tb_evidence t)))"

definition query_values :: "int \<Rightarrow> EvidenceQuery \<Rightarrow> sql_value list" where
  "query_values archive_id query =
     [SQL_integer archive_id] @
     (case eq_client_id query of None \<Rightarrow> [] | Some c \<Rightarrow> [SQL_blob (encode_u64 (cid_value c))]) @
     (case eq_session_id query of None \<Rightarrow> [] | Some c \<Rightarrow> [SQL_blob (encode_u64 (sid_value c))]) @
     (case eq_rejection_code query of None \<Rightarrow> [] | Some c \<Rightarrow> [SQL_integer (uint (rejection_code_value c))]) @
     (case eq_queue_outcome query of None \<Rightarrow> [] | Some c \<Rightarrow> [SQL_integer (uint (queue_outcome_value c))]) @
     (case eq_minimum_observed_tick query of None \<Rightarrow> [] | Some v \<Rightarrow> [SQL_blob (encode_u64 v)]) @
     (case eq_maximum_observed_tick query of None \<Rightarrow> [] | Some v \<Rightarrow> [SQL_blob (encode_u64 v)]) @
     (case eq_after_ordinal query of None \<Rightarrow> [] | Some v \<Rightarrow> [SQL_blob (encode_u64 v)])"

definition read_evidence_row :: "int \<Rightarrow> EvidenceRow \<Rightarrow> store_exception + StoredEvidenceRecord" where
  "read_evidence_row archive_id row =
     bind_result (decode_digest (ev_record_digest row)) (\<lambda>stored_digest.
     case decode_command_evidence (ev_encoded_record row) of
       Inl e \<Rightarrow> Inl (Store_cxx_error e)
     | Inr (Inl code) \<Rightarrow> Inl (StoredEvidenceDecodeError code)
     | Inr (Inr r) \<Rightarrow>
         (case digest_command_evidence r of
            Inl e \<Rightarrow> Inl (Store_cxx_error e)
          | Inr digest \<Rightarrow>
              if digest \<noteq> stored_digest then Inl (InvestigationStoreError Store_sqlite_failure)
              else Inr \<lparr>se_archive_id = archive_id, se_record_digest = stored_digest, se_record = r\<rparr>))"

definition query_evidence :: "int \<Rightarrow> EvidenceQuery \<Rightarrow> (Tables, StoredEvidenceRecord list) action" where
  "query_evidence archive_id query =
     (if archive_id \<le> 0 then throw_action (InvestigationStoreError Store_invalid_argument)
      else bind_action (validate_limit (eq_limit query)) (\<lambda>_.
      if (case (eq_minimum_observed_tick query, eq_maximum_observed_tick query) of
            (Some a, Some b) \<Rightarrow> a > b | _ \<Rightarrow> False)
      then throw_action (InvestigationStoreError Store_invalid_argument)
      else
        bind_action prepare_store (\<lambda>_.
        bind_action (bind_values (query_values archive_id query)) (\<lambda>_.
        bind_action (pure_action (checked_int64 (eq_limit query))) (\<lambda>bound.
        bind_action (bind_values [SQL_integer bound]) (\<lambda>_.
        step_rows (select_evidence archive_id query bound) (read_evidence_row archive_id)))))))"

text \<open>\<open>ORDER BY client_id ASC, session_id ASC\<close>\<close>

definition select_sessions :: "int \<Rightarrow> Tables \<Rightarrow> SessionRow list" where
  "select_sessions archive_id t =
     sort_key (\<lambda>r. (sn_client_id r, sn_session_id r)) (filter (\<lambda>r. sn_archive_id r = archive_id) (tb_sessions t))"

definition read_session_row :: "SessionRow \<Rightarrow> store_exception + EvidenceSessionSummary" where
  "read_session_row row =
     bind_result (decode_u64 (sn_client_id row)) (\<lambda>client_id.
     bind_result (decode_u64 (sn_session_id row)) (\<lambda>session_id.
     bind_result (decode_u64 (sn_first_ordinal row)) (\<lambda>first_ordinal.
     bind_result (decode_u64 (sn_last_ordinal row)) (\<lambda>last_ordinal.
     bind_result (decode_u64 (sn_first_observed_tick row)) (\<lambda>first_observed_tick.
     bind_result (decode_u64 (sn_last_observed_tick row)) (\<lambda>last_observed_tick.
     bind_result (store_checked_size (sn_accepted_count row)) (\<lambda>accepted_count.
     bind_result (store_checked_size (sn_rejected_count row)) (\<lambda>rejected_count.
     Inr \<lparr>ss_client_id = ClientId client_id, ss_session_id = SessionId session_id, ss_first_ordinal = first_ordinal,
          ss_last_ordinal = last_ordinal, ss_first_observed_tick = first_observed_tick,
          ss_last_observed_tick = last_observed_tick, ss_accepted_count = accepted_count,
          ss_rejected_count = rejected_count\<rparr>))))))))"

definition list_sessions :: "int \<Rightarrow> (Tables, EvidenceSessionSummary list) action" where
  "list_sessions archive_id =
     (if archive_id \<le> 0 then throw_action (InvestigationStoreError Store_invalid_argument)
      else
        bind_action prepare_store (\<lambda>_.
        bind_action (bind_values [SQL_integer archive_id]) (\<lambda>_.
        step_rows (select_sessions archive_id) read_session_row)))"

definition count_rows :: "(Tables \<Rightarrow> 'r list) \<Rightarrow> (Tables, nat) action" where
  "count_rows table =
     bind_action prepare_store (\<lambda>_.
     bind_action (step_row (\<lambda>t. [int (length (table t))])) (\<lambda>row. case row of
       None \<Rightarrow> throw_action (InvestigationStoreError Store_sqlite_failure)
     | Some n \<Rightarrow> pure_action (store_checked_size n)))"

definition archive_count :: "(Tables, nat) action" where
  "archive_count = count_rows tb_archives"

definition evidence_record_count :: "(Tables, nat) action" where
  "evidence_record_count = count_rows tb_evidence"

end
