(* ===== verification/Store_Correct.thy ===== *)
theory Store_Correct
  imports Store
begin

text \<open>
  The store keeps verified archives and nothing else: every operation is atomic under every
  schedule of failing calls, the tables of a reachable store are exactly what the imported
  archives determine, and the queries return what they say.
\<close>

section \<open>Stability\<close>

declare bind_values.simps [simp del]

lemma stable_choice [simp, intro]:
  "stable m \<Longrightarrow> stable m' \<Longrightarrow> stable (if b then m else m')"
  "stable m \<Longrightarrow> (\<And>x. stable (f x)) \<Longrightarrow> stable (case v of None \<Rightarrow> m | Some x \<Rightarrow> f x)"
  by (auto split: option.split)

lemma stable_prepare_store [simp, intro]: "stable prepare_store"
  by (simp add: prepare_store_def)

lemma meaning_prepare_store [simp]:
  "meaning prepare_store t = (if tb_created t then Inr ((), t) else Inl (InvestigationStoreError Store_sqlite_failure))"
  by (simp add: prepare_store_def)

lemma stable_from_command_layer [simp, intro]: "stable (from_command_layer r)"
  by (simp add: from_command_layer_def)

lemma meaning_from_command_layer [simp]: "meaning (from_command_layer (Inr x)) t = Inr (x, t)"
  by (simp add: from_command_layer_def)

lemma stable_import_records [simp, intro]: "stable (import_records i rs m)"
  by (induction rs arbitrary: m) (simp_all add: Let_def)

lemma stable_import_sessions [simp, intro]: "stable (import_sessions i m)"
  by (induction m) (simp_all add: Let_def)

lemma stable_import_body [simp, intro]:
  "stable (existing_archive archive d)" "stable (new_archive archive d i)" "stable (import_body now archive d head source)"
  by (auto simp: existing_archive_def new_archive_def import_body_def)

lemma stable_import_archive [simp, intro]: "stable (import_archive now bs head source)"
  by (auto simp: import_archive_def split: sum.split)

lemma stable_record_replay [simp, intro]: "stable (record_replay_result now i r)"
  by (simp add: record_replay_result_def Let_def)

lemma stable_queries [simp, intro]:
  "stable (replay_result i)" "stable (list_archives n b)" "stable (query_evidence i q)" "stable (list_sessions i)"
  "stable (count_rows table)"
  by (auto simp: replay_result_def list_archives_def query_evidence_def list_sessions_def count_rows_def validate_limit_def)

section \<open>Importing the records\<close>

definition row_of :: "int \<Rightarrow> CommandEvidenceRecord \<Rightarrow> EvidenceRow" where
  "row_of i r = evidence_row i r (record_digest r) (evidence_bytes r)"

lemma row_of_simps [simp]:
  "ev_archive_id (row_of i r) = i" "ev_ordinal (row_of i r) = encode_u64 (er_ordinal r)"
  "ev_record_digest (row_of i r) = digest_bytes (record_digest r)" "ev_encoded_record (row_of i r) = evidence_bytes r"
  "ev_client_id (row_of i r) = encode_u64 (cid_value (ce_client_id (en_envelope (er_entry r))))"
  "ev_session_id (row_of i r) = encode_u64 (sid_value (ce_session_id (en_envelope (er_entry r))))"
  "ev_rejection_code (row_of i r) = uint (rejection_code_value (en_rejection_code (er_entry r)))"
  "ev_queue_outcome (row_of i r) = uint (queue_outcome_value (en_queue_outcome (er_entry r)))"
  "ev_observed_tick (row_of i r) = encode_u64 (en_observed_tick (er_entry r))"
  by (simp_all add: row_of_def evidence_row_def Let_def)

lemma row_of_ok:
  assumes "digest_ok (er_previous_record_digest r)"
  shows "evidence_row_ok (row_of i r)" and "list_all bindable (evidence_values (row_of i r))"
  using assms length_evidence_bytes [OF assms] digest_ok_record_digest(1) [of r]
  by (simp_all add: evidence_row_ok_def evidence_values_def bindable_def row_of_def evidence_row_def Let_def digest_ok_def)

definition insertable :: "int \<Rightarrow> CommandEvidenceRecord list \<Rightarrow> Tables \<Rightarrow> bool" where
  "insertable i rs t \<longleftrightarrow> distinct (map er_ordinal rs) \<and> distinct (map record_digest rs) \<and>
     (\<forall>row \<in> set (tb_evidence t). ev_archive_id row = i \<longrightarrow>
        ev_ordinal row \<notin> set (map (\<lambda>r. encode_u64 (er_ordinal r)) rs) \<and>
        ev_record_digest row \<notin> set (map (\<lambda>r. digest_bytes (record_digest r)) rs))"

lemma insert_evidence_row:
  assumes "digest_ok (er_previous_record_digest r)" and "i \<in> set (map ea_archive_id (tb_archives t))"
  shows "insert_evidence (row_of i r) t =
    (if \<forall>row \<in> set (tb_evidence t). ev_archive_id row = i \<longrightarrow>
         ev_ordinal row \<noteq> encode_u64 (er_ordinal r) \<and> ev_record_digest row \<noteq> digest_bytes (record_digest r)
     then Some ((), t\<lparr>tb_evidence := tb_evidence t @ [row_of i r]\<rparr>) else None)"
  using row_of_ok(1) [OF assms(1), of i] assms(2) by (auto simp: insert_evidence_def image_def)

lemma digest_bytes_inject [simp]: "digest_bytes a = digest_bytes b \<longleftrightarrow> a = b"
  by (cases a; cases b) simp

lemma meaning_import_records:
  assumes "list_all (\<lambda>r. digest_ok (er_previous_record_digest r)) rs" and "i \<in> set (map ea_archive_id (tb_archives t))"
  shows "meaning (import_records i rs m) t =
    (if insertable i rs t then Inr (fold aggregate_record rs m, t\<lparr>tb_evidence := tb_evidence t @ map (row_of i) rs\<rparr>)
     else Inl (InvestigationStoreError Store_sqlite_failure))"
  using assms
proof (induction rs arbitrary: m t)
  case Nil
  then show ?case by (simp add: insertable_def)
next
  case (Cons r rs)
  let ?t = "t\<lparr>tb_evidence := tb_evidence t @ [row_of i r]\<rparr>"
  have ok: "digest_ok (er_previous_record_digest r)" using Cons.prems(1) by simp
  have row: "evidence_row i r (record_digest r) (evidence_bytes r) = row_of i r"
    by (simp add: row_of_def)
  have "meaning (import_records i (r # rs) m) t =
      (case insert_evidence (row_of i r) t of
         None \<Rightarrow> Inl (InvestigationStoreError Store_sqlite_failure)
       | Some (x, t') \<Rightarrow> meaning (import_records i rs (aggregate_record r m)) t')"
    using ok row_of_ok(2) [OF ok, of i]
    by (auto simp: encode_command_evidence_eq digest_command_evidence_eq row Let_def split: option.split)
  moreover have "insertable i (r # rs) t \<longleftrightarrow> insert_evidence (row_of i r) t = Some ((), ?t) \<and> insertable i rs ?t"
    using ok Cons.prems(2) by (auto simp: insert_evidence_row insertable_def)
  moreover have "insert_evidence (row_of i r) t \<in> {None, Some ((), ?t)}"
    using ok Cons.prems(2) by (auto simp: insert_evidence_row)
  ultimately show ?case
    using Cons.IH [of ?t "aggregate_record r m"] Cons.prems by auto
qed

section \<open>Session summaries\<close>

text \<open>What the summary of a session should be, from the records of the session.\<close>

definition of_session :: "session_key \<Rightarrow> CommandEvidenceRecord list \<Rightarrow> CommandEvidenceRecord list" where
  "of_session k rs = filter (\<lambda>r. session_key r = k) rs"

definition accepted_record :: "CommandEvidenceRecord \<Rightarrow> bool" where
  "accepted_record r \<longleftrightarrow> en_rejection_code (er_entry r) = Reject_none"

definition summarise :: "CommandEvidenceRecord list \<Rightarrow> SessionAggregate" where
  "summarise xs = \<lparr>sg_first_ordinal = er_ordinal (hd xs), sg_last_ordinal = er_ordinal (last xs),
     sg_first_observed_tick = en_observed_tick (er_entry (hd xs)),
     sg_last_observed_tick = en_observed_tick (er_entry (last xs)),
     sg_accepted_count = length (filter accepted_record xs),
     sg_rejected_count = length (filter (\<lambda>r. \<not> accepted_record r) xs)\<rparr>"

lemma aggregate_record_lookup:
  assumes "omap_ok m"
  shows "map_of (aggregate_record r m) = (map_of m)(session_key r \<mapsto>
    (let a = (case map_of m (session_key r) of
         None \<Rightarrow> summarise [r] \<lparr>sg_accepted_count := 0, sg_rejected_count := 0\<rparr>
       | Some a \<Rightarrow> a\<lparr>sg_last_ordinal := er_ordinal r, sg_last_observed_tick := en_observed_tick (er_entry r)\<rparr>)
     in if accepted_record r then a\<lparr>sg_accepted_count := sg_accepted_count a + 1\<rparr>
        else a\<lparr>sg_rejected_count := sg_rejected_count a + 1\<rparr>))"
  using assms
  by (auto simp: aggregate_record_def Let_def map_of_omap_emplace omap_contains_def accepted_record_def summarise_def
    split: option.split)

lemma omap_ok_aggregate: "omap_ok m \<Longrightarrow> omap_ok (aggregate_record r m)"
  by (auto simp: aggregate_record_def Let_def omap_ok_emplace split: option.split)

lemma omap_ok_aggregates: "omap_ok m \<Longrightarrow> omap_ok (fold aggregate_record rs m)"
  by (induction rs arbitrary: m) (auto simp: omap_ok_aggregate)

lemma aggregates_lookup:
  "map_of (fold aggregate_record rs []) k = (if of_session k rs = [] then None else Some (summarise (of_session k rs)))"
proof (induction rs rule: rev_induct)
  case Nil
  then show ?case by (simp add: of_session_def)
next
  case (snoc r rs)
  have ok: "omap_ok (fold aggregate_record rs [])"
    by (rule omap_ok_aggregates) (simp add: omap_ok_def)
  show ?case
  proof (cases "session_key r = k")
    case True
    then show ?thesis
      using snoc by (auto simp: aggregate_record_lookup [OF ok] of_session_def summarise_def Let_def hd_append filter_empty_conv)
  next
    case False
    then show ?thesis
      using snoc by (auto simp: aggregate_record_lookup [OF ok] of_session_def)
  qed
qed

lemma aggregates_summarise:
  assumes "(k, a) \<in> set (fold aggregate_record rs [])"
  shows "a = summarise (of_session k rs)" and "of_session k rs \<noteq> []"
proof -
  have "distinct (map fst (fold aggregate_record rs []))"
    using omap_ok_aggregates [of "[]" rs] by (simp add: omap_ok_def strict_sorted_iff)
  then have "map_of (fold aggregate_record rs []) k = Some a"
    using assms by (rule map_of_is_SomeI)
  then show "a = summarise (of_session k rs)" "of_session k rs \<noteq> []"
    by (simp_all add: aggregates_lookup split: if_split_asm)
qed

lemma summarise_counts:
  "sg_accepted_count (summarise (of_session k rs)) \<le> length rs" "sg_rejected_count (summarise (of_session k rs)) \<le> length rs"
  unfolding summarise_def of_session_def SessionAggregate.simps
  by (meson le_trans length_filter_le)+

lemma session_row_simps [simp]:
  "sn_archive_id (session_row i p) = i" "sn_client_id (session_row i p) = encode_u64 (fst (fst p))"
  "sn_session_id (session_row i p) = encode_u64 (snd (fst p))"
  by (simp_all add: session_row_def split: prod.split)

lemma session_row_ok: "session_row_ok (session_row i p)"
  by (simp add: session_row_ok_def session_row_def split: prod.split)

lemma meaning_import_sessions:
  assumes "i \<in> set (map ea_archive_id (tb_archives t))" and "distinct (map fst m)"
    and "\<forall>row \<in> set (tb_sessions t). sn_archive_id row = i \<longrightarrow>
      (sn_client_id row, sn_session_id row) \<notin> set (map (\<lambda>(k, a). (encode_u64 (fst k), encode_u64 (snd k))) m)"
    and "\<forall>(k, a) \<in> set m. int (sg_accepted_count a) \<le> i64_max \<and> int (sg_rejected_count a) \<le> i64_max"
  shows "meaning (import_sessions i m) t = Inr ((), t\<lparr>tb_sessions := tb_sessions t @ map (session_row i) m\<rparr>)"
  using assms
proof (induction m arbitrary: t)
  case (Cons p m)
  obtain k a where p: "p = (k, a)" by (cases p)
  let ?t = "t\<lparr>tb_sessions := tb_sessions t @ [session_row i p]\<rparr>"
  have ins: "insert_session (session_row i p) t = Some ((), ?t)"
    using Cons.prems(1,3) session_row_ok [of i p] by (auto simp: insert_session_def p)
  have rest: "meaning (import_sessions i m) ?t =
      Inr ((), ?t\<lparr>tb_sessions := tb_sessions ?t @ map (session_row i) m\<rparr>)"
  proof (rule Cons.IH)
    show "\<forall>row \<in> set (tb_sessions ?t). sn_archive_id row = i \<longrightarrow>
        (sn_client_id row, sn_session_id row) \<notin> set (map (\<lambda>(k, a). (encode_u64 (fst k), encode_u64 (snd k))) m)"
      using Cons.prems(2,3) by (auto simp: p prod_eq_iff image_iff)
  qed (use Cons.prems in auto)
  have "list_all bindable [SQL_integer i, SQL_blob (sn_client_id (session_row i p)), SQL_blob (sn_session_id (session_row i p)),
       SQL_blob (sn_first_ordinal (session_row i p)), SQL_blob (sn_last_ordinal (session_row i p)),
       SQL_blob (sn_first_observed_tick (session_row i p)), SQL_blob (sn_last_observed_tick (session_row i p))]"
    by (simp add: bindable_def session_row_def p split: prod.split)
  moreover have "checked_int64 (sg_accepted_count a) = Inr (int (sg_accepted_count a))"
      "checked_int64 (sg_rejected_count a) = Inr (int (sg_rejected_count a))"
    using Cons.prems(4) by (auto simp: checked_int64_def p)
  ultimately show ?case
    using ins rest by (simp add: p Let_def bindable_def)
qed simp

section \<open>The invariant\<close>

text \<open>A row of \<open>evidence_archives\<close> together with everything the other tables hold for it.\<close>

definition archive_stored :: "Tables \<Rightarrow> ArchiveRow \<Rightarrow> bytes \<Rightarrow> CommandEvidenceArchive \<Rightarrow> bool" where
  "archive_stored t row encoded archive \<longleftrightarrow>
     decode_command_evidence_archive encoded (ca_head_digest archive) = Inr (Inr archive) \<and>
     0 < ea_archive_id row \<and>
     ea_archive_digest row = digest_bytes (sha256 encoded) \<and>
     ea_trusted_head row = digest_bytes (ca_head_digest archive) \<and>
     ea_declared_head row = digest_bytes (ca_head_digest archive) \<and>
     ea_record_count row = int (length (ca_records archive)) \<and>
     filter (\<lambda>r. ev_archive_id r = ea_archive_id row) (tb_evidence t) = map (row_of (ea_archive_id row)) (ca_records archive) \<and>
     filter (\<lambda>r. sn_archive_id r = ea_archive_id row) (tb_sessions t) =
       map (session_row (ea_archive_id row)) (fold aggregate_record (ca_records archive) [])"

definition storable :: "CommandEvidenceReplayResult \<Rightarrow> bool" where
  "storable r \<longleftrightarrow> int (rr_processed_records r) \<le> i64_max \<and> rr_final_pending_command_count r < u64_limit \<and>
     digest_ok (rr_replayed_head_digest r)"

definition replay_stored :: "ReplayRow \<Rightarrow> bool" where
  "replay_stored row \<longleftrightarrow> (\<exists>now r. storable r \<and> row = replay_row now (rt_archive_id row) (int (rr_processed_records r)) r)"

definition archive_ids :: "Tables \<Rightarrow> int set" where
  "archive_ids t = set (map ea_archive_id (tb_archives t))"

definition store_ok :: "Tables \<Rightarrow> bool" where
  "store_ok t \<longleftrightarrow> tb_created t \<and> tb_migrations t = Some [investigation_schema_version] \<and>
     distinct (map ea_archive_id (tb_archives t)) \<and> distinct (map ea_archive_digest (tb_archives t)) \<and>
     (\<forall>row \<in> set (tb_archives t). \<exists>encoded archive. archive_stored t row encoded archive) \<and>
     ev_archive_id ` set (tb_evidence t) \<subseteq> archive_ids t \<and> sn_archive_id ` set (tb_sessions t) \<subseteq> archive_ids t \<and>
     distinct (map rt_archive_id (tb_replays t)) \<and>
     (\<forall>row \<in> set (tb_replays t). rt_archive_id row \<in> archive_ids t \<and> replay_stored row)"

definition unopened :: Tables where
  "unopened = \<lparr>tb_migrations = None, tb_created = False, tb_archives = [], tb_evidence = [], tb_sessions = [], tb_replays = []\<rparr>"

lemma decoded_archive:
  assumes "decode_command_evidence_archive encoded head = Inr (Inr archive)"
  shows "ca_head_digest archive = head" and "digest_ok head" and "list_all record_ok (ca_records archive)"
    and "list_all (\<lambda>r. digest_ok (er_previous_record_digest r)) (ca_records archive)"
    and "length (ca_records archive) \<le> max_archive_records" and "distinct (map er_ordinal (ca_records archive))"
    and "numbered 0 (ca_records archive)" and "int (length (ca_records archive)) \<le> i64_max"
proof -
  have a: "archive_ok (ca_records archive) head" and h: "ca_head_digest archive = head"
    using assms by (simp_all add: decode_archive_iff)
  show "ca_head_digest archive = head" by (rule h)
  show "digest_ok head" "list_all (\<lambda>r. digest_ok (er_previous_record_digest r)) (ca_records archive)"
    "list_all record_ok (ca_records archive)" "length (ca_records archive) \<le> max_archive_records"
    using a verified_digests [of "ca_records archive" head] by (simp_all add: archive_ok_def)
  then show "int (length (ca_records archive)) \<le> i64_max" by simp
  show n: "numbered 0 (ca_records archive)"
    using a by (simp add: archive_ok_def verify_chain_eq)
  then show "distinct (map er_ordinal (ca_records archive))"
    by (auto simp: distinct_conv_nth numbered_def of_nat_u64_inject)
qed

lemma fold_max_upper: "x \<in> set xs \<Longrightarrow> x \<le> fold max xs (a :: int)" "a \<le> fold max xs (a :: int)"
proof -
  show upper: "a \<le> fold max xs a" for xs and a :: int
    by (induction xs arbitrary: a) (auto intro: order_trans [OF max.cobounded2])
  show "x \<in> set xs \<Longrightarrow> x \<le> fold max xs a"
    by (induction xs arbitrary: a) (auto intro: order_trans [OF _ upper])
qed

lemma next_rowid_fresh:
  assumes "next_rowid ids = Some i"
  shows "i \<notin> set ids" and "0 < i"
  using assms fold_max_upper(1) [of i ids 0] fold_max_upper(2) [of 0 ids]
  by (auto simp: next_rowid_def Let_def split: if_split_asm)

section \<open>What an import does\<close>

definition imported_row :: "string \<Rightarrow> bytes \<Rightarrow> CommandEvidenceArchive \<Rightarrow> string \<Rightarrow> int \<Rightarrow> ArchiveRow" where
  "imported_row now encoded archive source i =
     \<lparr>ea_archive_id = i, ea_archive_digest = digest_bytes (sha256 encoded),
      ea_trusted_head = digest_bytes (ca_head_digest archive), ea_declared_head = digest_bytes (ca_head_digest archive),
      ea_archive_schema = 1, ea_record_schema = 2, ea_record_count = int (length (ca_records archive)),
      ea_source = bound_text source, ea_imported_at_utc = now\<rparr>"

definition import_tables :: "string \<Rightarrow> bytes \<Rightarrow> CommandEvidenceArchive \<Rightarrow> string \<Rightarrow> int \<Rightarrow> Tables \<Rightarrow> Tables" where
  "import_tables now encoded archive source i t = t\<lparr>
     tb_archives := tb_archives t @ [imported_row now encoded archive source i],
     tb_evidence := tb_evidence t @ map (row_of i) (ca_records archive),
     tb_sessions := tb_sessions t @ map (session_row i) (fold aggregate_record (ca_records archive) [])\<rparr>"

definition import_report :: "bytes \<Rightarrow> CommandEvidenceArchive \<Rightarrow> int \<Rightarrow> bool \<Rightarrow> EvidenceArchiveImportResult" where
  "import_report encoded archive i inserted = \<lparr>ir_archive_id = i, ir_inserted = inserted,
     ir_record_count = length (ca_records archive), ir_archive_digest = sha256 encoded,
     ir_chain_head = ca_head_digest archive\<rparr>"

text \<open>The text SQLite accepts as a source: not empty before the first zero character.\<close>

definition source_ok :: "string \<Rightarrow> bool" where
  "source_ok source \<longleftrightarrow> takeWhile (\<lambda>c. c \<noteq> CHR 0x00) (bound_text source) \<noteq> []"

lemma bindable_digest [simp]: "digest_ok d \<Longrightarrow> bindable (SQL_blob (digest_bytes d))"
  by (simp add: bindable_def digest_ok_def)

lemma bindable_simps [simp]:
  "bindable (SQL_integer n)" "bindable (SQL_text s)" "bindable SQL_null" "bindable (SQL_blob (encode_u64 v))"
  by (simp_all add: bindable_def)

definition existing_row :: "bytes \<Rightarrow> Tables \<Rightarrow> ArchiveRow option" where
  "existing_row encoded t = find (\<lambda>r. ea_archive_digest r = digest_bytes (sha256 encoded)) (tb_archives t)"

lemma existing_row_None:
  "existing_row encoded t = None \<longleftrightarrow> digest_bytes (sha256 encoded) \<notin> set (map ea_archive_digest (tb_archives t))"
  by (auto simp: existing_row_def find_None_iff image_def)

lemma find_filter: "(case filter P xs of [] \<Rightarrow> None | r # _ \<Rightarrow> Some r) = find P xs"
  by (induction xs) auto

lemma meaning_existing_archive:
  assumes "store_ok t" and "digest_ok (ca_head_digest archive)"
  shows "meaning (existing_archive archive (sha256 encoded)) t = (case existing_row encoded t of
      None \<Rightarrow> Inl (InvestigationStoreError Store_sqlite_failure)
    | Some row \<Rightarrow> if ea_record_count row = int (length (ca_records archive)) \<and>
          ea_declared_head row = digest_bytes (ca_head_digest archive)
        then Inr (import_report encoded archive (ea_archive_id row) False, t)
        else Inl (InvestigationStoreError Store_sqlite_failure))"
proof (cases "existing_row encoded t")
  case None
  then show ?thesis
    using assms by (simp add: existing_archive_def store_ok_def find_filter existing_row_def)
next
  case (Some row)
  then have "row \<in> set (tb_archives t)"
    by (auto simp: existing_row_def find_Some_iff)
  then obtain encoded' archive' where st: "archive_stored t row encoded' archive'"
    using assms(1) by (auto simp: store_ok_def)
  note d = decoded_archive [of encoded' "ca_head_digest archive'" archive']
  have dec: "decode_command_evidence_archive encoded' (ca_head_digest archive') = Inr (Inr archive')"
    using st by (simp add: archive_stored_def)
  have size: "store_checked_size (ea_record_count row) = Inr (length (ca_records archive'))"
      "ea_record_count row = int (length (ca_records archive'))"
    using st d(8) [OF dec] by (simp_all add: archive_stored_def store_checked_size_def)
  have head: "decode_digest (ea_declared_head row) = Inr (ca_head_digest archive')"
      "ea_declared_head row = digest_bytes (ca_head_digest archive')"
    using st d(2) [OF dec] by (simp_all add: archive_stored_def decode_digest_def digest_ok_def)
  show ?thesis
    using assms Some size head
    by (simp add: existing_archive_def store_ok_def find_filter existing_row_def import_report_def)
qed

lemma insertable_new:
  assumes "store_ok t" and "i \<notin> archive_ids t" and "distinct (map er_ordinal rs)" and "tb_evidence t' = tb_evidence t"
  shows "insertable i rs t' \<longleftrightarrow> distinct (map record_digest rs)"
  using assms by (auto simp: insertable_def store_ok_def)

lemma meaning_new_archive:
  assumes "store_ok t" and "decode_command_evidence_archive encoded head = Inr (Inr archive)"
    and "i \<notin> archive_ids t"
  shows "meaning (new_archive archive (sha256 encoded) i)
      (t\<lparr>tb_archives := tb_archives t @ [imported_row now encoded archive source i]\<rparr>) =
    (if distinct (map record_digest (ca_records archive))
     then Inr (import_report encoded archive i True, import_tables now encoded archive source i t)
     else Inl (InvestigationStoreError Store_sqlite_failure))"
proof -
  let ?t = "t\<lparr>tb_archives := tb_archives t @ [imported_row now encoded archive source i]\<rparr>"
  let ?m = "fold aggregate_record (ca_records archive) []"
  note d = decoded_archive [OF assms(2)]
  have in_ids: "i \<in> set (map ea_archive_id (tb_archives ?t))"
    by (simp add: imported_row_def)
  have created: "tb_created t"
    using assms(1) by (simp add: store_ok_def)
  have ins: "insertable i (ca_records archive) ?t \<longleftrightarrow> distinct (map record_digest (ca_records archive))"
    by (rule insertable_new [OF assms(1,3) d(6)]) simp
  have "\<forall>(k, a) \<in> set ?m. int (sg_accepted_count a) \<le> i64_max \<and> int (sg_rejected_count a) \<le> i64_max"
  proof (clarify, goal_cases)
    case (1 k1 k2 a)
    then have "a = summarise (of_session (k1, k2) (ca_records archive))" by (rule aggregates_summarise)
    then have "sg_accepted_count a \<le> length (ca_records archive)" "sg_rejected_count a \<le> length (ca_records archive)"
      using summarise_counts by blast+
    with d(8) show ?case by linarith
  qed
  moreover have "distinct (map fst ?m)"
    using omap_ok_aggregates [of "[]" "ca_records archive"] by (simp add: omap_ok_def strict_sorted_iff)
  moreover have "\<forall>row \<in> set (tb_sessions t). sn_archive_id row \<noteq> i"
    using assms(1,3) by (auto simp: store_ok_def)
  ultimately have "meaning (import_sessions i ?m) (?t\<lparr>tb_evidence := tb_evidence ?t @ map (row_of i) (ca_records archive)\<rparr>) =
      Inr ((), import_tables now encoded archive source i t)"
    using in_ids by (subst meaning_import_sessions) (simp_all add: import_tables_def)
  then show ?thesis
    using meaning_import_records [OF d(4) in_ids, of "[]"] ins created
    by (simp add: new_archive_def import_report_def)
qed

lemma meaning_import_body:
  assumes "store_ok t" and "decode_command_evidence_archive encoded head = Inr (Inr archive)"
  shows "meaning (import_body now archive (sha256 encoded) head source) t =
    (if existing_row encoded t \<noteq> None \<or> \<not> source_ok source
     then meaning (existing_archive archive (sha256 encoded)) t
     else case next_rowid (map ea_archive_id (tb_archives t)) of
       None \<Rightarrow> Inl (InvestigationStoreError Store_sqlite_failure)
     | Some i \<Rightarrow> if distinct (map record_digest (ca_records archive))
         then Inr (import_report encoded archive i True, import_tables now encoded archive source i t)
         else Inl (InvestigationStoreError Store_sqlite_failure))"
proof -
  note d = decoded_archive [OF assms(2)]
  have created: "tb_created t"
    using assms(1) by (simp add: store_ok_def)
  have count: "checked_int64 (length (ca_records archive)) = Inr (int (length (ca_records archive)))"
    using d(8) by (simp add: checked_int64_def)
  let ?row = "imported_row now encoded archive source 0"
  have row_ok: "archive_row_ok ?row \<longleftrightarrow> source_ok source"
    using d(1,2) digest_ok_sha256 [of encoded] by (auto simp: archive_row_ok_def imported_row_def source_ok_def digest_ok_def)
  have "meaning (import_body now archive (sha256 encoded) head source) t =
      (case insert_archive ?row t of
         None \<Rightarrow> Inl (InvestigationStoreError Store_sqlite_failure)
       | Some (None, t') \<Rightarrow> meaning (existing_archive archive (sha256 encoded)) t'
       | Some (Some i, t') \<Rightarrow> meaning (new_archive archive (sha256 encoded) i) t')"
    using created count d(1,2)
    by (simp add: import_body_def imported_row_def split: option.split)
  then show ?thesis
    using next_rowid_fresh(1) [of "map ea_archive_id (tb_archives t)"] row_ok
      meaning_new_archive [OF assms, of _ now source]
    by (auto simp: insert_archive_def existing_row_None archive_ids_def imported_row_def split: option.split)
qed

section \<open>Reachable stores\<close>

lemma archive_stored_import:
  assumes "store_ok t" and "decode_command_evidence_archive encoded head = Inr (Inr archive)"
    and "i \<notin> archive_ids t" and "0 < i"
  shows "archive_stored (import_tables now encoded archive source i t) (imported_row now encoded archive source i) encoded archive"
    and "row \<in> set (tb_archives t) \<Longrightarrow> archive_stored t row e a \<Longrightarrow>
      archive_stored (import_tables now encoded archive source i t) row e a"
proof -
  have none: "filter (\<lambda>r. ev_archive_id r = i) (tb_evidence t) = []" "filter (\<lambda>r. sn_archive_id r = i) (tb_sessions t) = []"
    using assms(1,3) by (auto simp: store_ok_def filter_empty_conv)
  have same: "filter (\<lambda>r. ev_archive_id r = j) (map (row_of i) rs) = (if j = i then map (row_of i) rs else [])"
      "filter (\<lambda>r. sn_archive_id r = j) (map (session_row i) m) = (if j = i then map (session_row i) m else [])" for j rs m
    by (auto simp: filter_empty_conv)
  show "archive_stored (import_tables now encoded archive source i t) (imported_row now encoded archive source i) encoded archive"
    using assms(2,4) none same [of i] decoded_archive(1) [OF assms(2)]
    by (simp add: archive_stored_def import_tables_def imported_row_def)
  assume "row \<in> set (tb_archives t)" "archive_stored t row e a"
  moreover from this(1) have "ea_archive_id row \<noteq> i"
    using assms(3) by (auto simp: archive_ids_def)
  ultimately show "archive_stored (import_tables now encoded archive source i t) row e a"
    using same [of "ea_archive_id row"] by (simp add: archive_stored_def import_tables_def)
qed

lemma store_ok_import:
  assumes "store_ok t" and "decode_command_evidence_archive encoded head = Inr (Inr archive)"
    and "i \<notin> archive_ids t" and "0 < i" and "existing_row encoded t = None"
  shows "store_ok (import_tables now encoded archive source i t)"
proof -
  let ?t = "import_tables now encoded archive source i t"
  have ids: "archive_ids ?t = insert i (archive_ids t)"
    by (auto simp: archive_ids_def import_tables_def imported_row_def)
  have old: "tb_created t" "tb_migrations t = Some [investigation_schema_version]"
      "distinct (map ea_archive_id (tb_archives t))" "distinct (map ea_archive_digest (tb_archives t))"
      "ev_archive_id ` set (tb_evidence t) \<subseteq> archive_ids t" "sn_archive_id ` set (tb_sessions t) \<subseteq> archive_ids t"
      "distinct (map rt_archive_id (tb_replays t))"
      "\<And>row. row \<in> set (tb_archives t) \<Longrightarrow> \<exists>e a. archive_stored t row e a"
      "\<And>row. row \<in> set (tb_replays t) \<Longrightarrow> rt_archive_id row \<in> archive_ids t \<and> replay_stored row"
    using assms(1) by (simp_all add: store_ok_def)
  have "\<exists>e a. archive_stored ?t row e a" if row: "row \<in> set (tb_archives ?t)" for row
  proof (cases "row \<in> set (tb_archives t)")
    case True
    then show ?thesis
      using old(8) archive_stored_import(2) [OF assms(1-4)] by blast
  next
    case False
    then have "row = imported_row now encoded archive source i"
      using row by (simp add: import_tables_def)
    then show ?thesis
      using archive_stored_import(1) [OF assms(1-4)] by blast
  qed
  moreover have "distinct (map ea_archive_id (tb_archives ?t))" "distinct (map ea_archive_digest (tb_archives ?t))"
    using old(3,4) assms(3,5) by (simp_all add: import_tables_def imported_row_def archive_ids_def existing_row_None)
  moreover have "ev_archive_id ` set (tb_evidence ?t) \<subseteq> archive_ids ?t" "sn_archive_id ` set (tb_sessions ?t) \<subseteq> archive_ids ?t"
    using old(5,6) unfolding ids by (auto simp: import_tables_def)
  ultimately show ?thesis
    using old(1,2,7,9) unfolding store_ok_def ids by (simp add: import_tables_def)
qed

lemma store_ok_upsert:
  assumes "store_ok t" and "storable r" and "upsert_replay (replay_row now i (int (rr_processed_records r)) r) t = Some (x, t')"
  shows "store_ok t'"
proof -
  let ?row = "replay_row now i (int (rr_processed_records r)) r"
  have i: "rt_archive_id ?row = i" by (simp add: replay_row_def)
  have t': "i \<in> archive_ids t" "\<exists>rows. t' = t\<lparr>tb_replays := rows\<rparr> \<and> set rows \<subseteq> insert ?row (set (tb_replays t)) \<and>
      distinct (map rt_archive_id rows)"
    using assms(1,3) i
    by (auto simp: upsert_replay_def archive_ids_def store_ok_def split: if_split_asm) (auto simp: map_idI comp_def if_distrib cong: if_cong map_cong)
  then obtain rows where rows: "t' = t\<lparr>tb_replays := rows\<rparr>" "set rows \<subseteq> insert ?row (set (tb_replays t))"
      "distinct (map rt_archive_id rows)" by blast
  have "replay_stored ?row"
    using assms(2) i unfolding replay_stored_def by (intro exI [of _ now] exI [of _ r]) simp
  then have "rt_archive_id row \<in> archive_ids t \<and> replay_stored row" if "row \<in> set rows" for row
    using that rows(2) assms(1) t'(1) i by (auto simp: store_ok_def)
  moreover have "archive_stored t' = archive_stored t" "archive_ids t' = archive_ids t"
    by (simp_all add: rows(1) archive_stored_def [abs_def] archive_ids_def)
  ultimately show ?thesis
    using assms(1) rows(3) unfolding store_ok_def by (simp add: rows(1))
qed

section \<open>Atomicity under failing calls\<close>

text \<open>Actions that never change the tables, and actions that do not when they throw.\<close>

definition reading :: "('t Connection \<Rightarrow> 'r \<times> 't Connection) \<Rightarrow> bool" where
  "reading m \<longleftrightarrow> (\<forall>c. cn_tables (snd (m c)) = cn_tables c)"

definition atomic :: "('t, 'a) action \<Rightarrow> bool" where
  "atomic m \<longleftrightarrow> (\<forall>c e c'. m c = (Inl e, c') \<longrightarrow> cn_tables c' = cn_tables c)"

lemma reading_basic [simp, intro]:
  "reading (return_action x)" "reading (throw_action e)" "reading (pure_action r)" "reading (check_call code)"
  by (simp_all add: reading_def return_action_def throw_action_def pure_action_def check_call_def)

lemma reading_bind [simp, intro]: "reading m \<Longrightarrow> (\<And>x. reading (f x)) \<Longrightarrow> reading (bind_action m f)"
  by (auto simp: reading_def bind_action_def split: prod.split sum.split) (metis snd_conv)+

lemma reading_choice [simp, intro]:
  "reading m \<Longrightarrow> reading m' \<Longrightarrow> reading (if b then m else m')"
  "reading m \<Longrightarrow> (\<And>x. reading (f x)) \<Longrightarrow> reading (case v of None \<Rightarrow> m | Some x \<Rightarrow> f x)"
  by (auto split: option.split)

lemma reading_prepare_store [simp, intro]: "reading prepare_store"
proof -
  have "reading (apply_statement code (\<lambda>t :: Tables. if tb_created t then Some ((), t) else None))" for code
    by (auto simp: reading_def apply_statement_def split: option.split)
  then show ?thesis
    by (simp add: prepare_store_def prepare_statement_def)
qed

lemma reading_bind_values [simp, intro]: "reading (bind_values vs)"
  by (induction vs) (auto simp: bind_values.simps bind_value_def split: sql_value.split)

lemma reading_step_row [simp, intro]: "reading (step_row rows)"
  by (simp add: reading_def step_row_def bind_action_def check_call_def)

lemma reading_step_each [simp, intro]: "reading (step_each convert rs)"
  by (induction rs) auto

lemma reading_step_rows [simp, intro]: "reading (step_rows rows convert)"
proof -
  have "cn_tables (snd (step_each convert (rows (cn_tables c)) c)) = cn_tables c" for c
    by (rule reading_step_each [unfolded reading_def, THEN spec])
  then show ?thesis by (simp add: reading_def step_rows_def)
qed

lemma reading_queries [simp, intro]:
  "reading (replay_result i)" "reading (list_archives n b)" "reading (query_evidence i q)" "reading (list_sessions i)"
  "reading (count_rows table)"
  by (auto simp: replay_result_def list_archives_def query_evidence_def list_sessions_def count_rows_def validate_limit_def)

lemma atomic_reading [simp, intro]: "reading m \<Longrightarrow> atomic m"
  by (auto simp: reading_def atomic_def) (metis snd_conv)

lemma atomic_transaction [simp, intro]: "atomic (transaction body)"
  by (auto simp: atomic_def dest: transaction_atomic)

lemma atomic_bind: "reading m \<Longrightarrow> (\<And>x. atomic (f x)) \<Longrightarrow> atomic (bind_action m f)"
  by (auto simp: reading_def atomic_def bind_action_def split: prod.split_asm sum.split_asm) (metis snd_conv)+

lemma atomic_choice: "atomic m \<Longrightarrow> atomic m' \<Longrightarrow> atomic (if b then m else m')"
  by simp

lemma atomic_import: "atomic (import_archive now bs head source)"
  by (simp add: import_archive_def split: sum.split)

lemma atomic_record_replay: "atomic (record_replay_result now i r)"
  unfolding record_replay_result_def
  by (intro atomic_choice atomic_bind) simp_all

lemma open_store_cases:
  assumes "open_store c = (r, c')"
  obtains (failed) "cn_tables c' = cn_tables c" "\<exists>e. r = Inl e"
  | (opened) "r = Inr ()" "meaning migration_body (cn_tables c) = Inr ((), cn_tables c')"
proof -
  have st: "stable migration_body" 
    by (auto simp: migration_body_def read_version_def)
  have call: "check_call code d = (x, d') \<Longrightarrow> cn_tables d' = cn_tables d" for code d x d'
    by (auto simp: check_call_def)
  have mig: "cn_tables d' = cn_tables d \<and> (\<exists>e. x = Inl e) \<or> x = Inr () \<and> meaning migration_body (cn_tables d) = Inr ((), cn_tables d')"
    if m: "migrate d = (x, d')" for d x d'
  proof -
    obtain y d1 where y: "transaction migration_body d = (y, d1)" by (cases "transaction migration_body d")
    show ?thesis
    proof (cases y)
      case (Inl e)
      then show ?thesis
        using m y transaction_atomic [of migration_body d e d1] by (cases e) (auto simp: migrate_def)
    next
      case (Inr u)
      then show ?thesis
        using m y stableD(2) [OF stable_transaction [OF st] y [unfolded Inr]] st by (auto simp: migrate_def)
    qed
  qed
  obtain x1 c1 where c1: "check_call Store_open_failed c = (x1, c1)" by (cases "check_call Store_open_failed c")
  obtain x2 c2 where c2: "check_call Store_open_failed c1 = (x2, c2)" by (cases "check_call Store_open_failed c1")
  obtain x3 c3 where c3: "migrate c2 = (x3, c3)" by (cases "migrate c2")
  have t: "cn_tables c1 = cn_tables c" "cn_tables c2 = cn_tables c"
    using call [OF c1] call [OF c2] by simp_all
  have "open_store c = (case x1 of Inl e \<Rightarrow> (Inl e, c1) | Inr _ \<Rightarrow>
      (case x2 of Inl e \<Rightarrow> (Inl e, c2) | Inr _ \<Rightarrow> (x3, c3)))"
    using c1 c2 c3
    by (auto simp: open_store_def execute_sql_def apply_statement_def bind_action_def split: sum.split)
  then show thesis
    using assms failed opened mig [OF c3] t by (auto split: sum.split_asm)
qed

section \<open>The store as a state machine\<close>

text \<open>
  The operations that can change the tables, on any connection and with any schedule of
  failing calls, including the operations that fail.
\<close>

inductive store_step :: "Tables \<Rightarrow> Tables \<Rightarrow> bool" where
  step_open: "open_store c = (r, c') \<Longrightarrow> store_step (cn_tables c) (cn_tables c')"
| step_import: "import_archive now encoded head source c = (r, c') \<Longrightarrow> store_step (cn_tables c) (cn_tables c')"
| step_replay: "record_replay_result now i result c = (r, c') \<Longrightarrow> store_step (cn_tables c) (cn_tables c')"

definition store_init :: "Tables \<Rightarrow> bool" where
  "store_init t \<longleftrightarrow> t = unopened"

definition store_inv :: "Tables \<Rightarrow> bool" where
  "store_inv t \<longleftrightarrow> t = unopened \<or> store_ok t"

lemma migration_unopened: "meaning migration_body unopened =
    Inr ((), unopened\<lparr>tb_migrations := Some [investigation_schema_version], tb_created := True\<rparr>)"
  by (simp add: migration_body_def read_version_def create_ledger_def select_version_def schema_sql_def record_migration_def
    unopened_def column_int_def)

lemma migration_opened:
  assumes "store_ok t"
  shows "meaning migration_body t = Inr ((), t)"
proof -
  have "tb_migrations t = Some [1]"
    using assms by (simp add: store_ok_def)
  then show ?thesis
    by (simp add: migration_body_def read_version_def create_ledger_def select_version_def column_int_def)
qed

lemma store_ok_opened: "store_ok (unopened\<lparr>tb_migrations := Some [investigation_schema_version], tb_created := True\<rparr>)"
  by (simp add: store_ok_def unopened_def archive_ids_def)

lemma import_Inr:
  assumes "import_archive now encoded head source c = (Inr r, c')"
  obtains archive where "decode_command_evidence_archive encoded head = Inr (Inr archive)"
    "meaning (import_body now archive (sha256 encoded) head source) (cn_tables c) = Inr (r, cn_tables c')"
proof -
  have "meaning (import_archive now encoded head source) (cn_tables c) = Inr (r, cn_tables c')"
    using stableD(2) [OF stable_import_archive assms] .
  then show thesis
    using that by (auto simp: import_archive_def split: if_split_asm sum.split_asm)
qed

lemma import_body_Inr:
  assumes "store_ok t" and "decode_command_evidence_archive encoded head = Inr (Inr archive)"
    and "meaning (import_body now archive (sha256 encoded) head source) t = Inr (r, t')"
  obtains (existing) row where "existing_row encoded t = Some row" "r = import_report encoded archive (ea_archive_id row) False" "t' = t"
  | (inserted) i where "existing_row encoded t = None" "next_rowid (map ea_archive_id (tb_archives t)) = Some i"
      "r = import_report encoded archive i True" "t' = import_tables now encoded archive source i t"
proof -
  have "digest_ok (ca_head_digest archive)"
    using decoded_archive(1,2) [OF assms(2)] by simp
  then show thesis
    using assms(3) existing inserted
    by (auto simp: meaning_import_body [OF assms(1,2)] meaning_existing_archive [OF assms(1)]
      split: if_split_asm option.split_asm)
qed

lemma not_created_import:
  assumes "\<not> tb_created t"
  shows "meaning (import_body now archive d head source) t = Inl (InvestigationStoreError Store_sqlite_failure)"
  using assms by (simp add: import_body_def)

lemma meaning_bind_values_eq:
  "meaning (bind_values vs) t = (if list_all bindable vs then Inr ((), t) else Inl (InvestigationStoreError Store_invalid_argument))"
  by (induction vs) (auto simp: bind_values.simps bind_value_def bindable_def split: sql_value.splits)

lemma record_replay_Inr:
  assumes "record_replay_result now i result c = (Inr u, c')"
  shows "storable result \<and> tb_created (cn_tables c) \<and> 0 < i \<and>
    upsert_replay (replay_row now i (int (rr_processed_records result)) result) (cn_tables c) = Some ((), cn_tables c')"
proof -
  have "meaning (record_replay_result now i result) (cn_tables c) = Inr (u, cn_tables c')"
    using stableD(2) [OF stable_record_replay assms] .
  then have *: "tb_created (cn_tables c)" "0 < i" "\<not> rr_final_pending_command_count result > u64_limit - 1"
      "int (rr_processed_records result) \<le> i64_max"
      "upsert_replay (replay_row now i (int (rr_processed_records result)) result) (cn_tables c) = Some ((), cn_tables c')"
    by (auto simp: record_replay_result_def Let_def meaning_bind_values_eq checked_int64_def result_simps
      split: if_split_asm option.split_asm)
  then have "digest_ok (rr_replayed_head_digest result)"
    by (auto simp: upsert_replay_def replay_row_ok_def replay_row_def digest_ok_def split: if_split_asm)
  with * show ?thesis
    by (simp add: storable_def)
qed

interpretation store: system_invariant store_init store_step store_inv
proof
  show "store_inv t" if "store_init t" for t
    using that by (simp add: store_inv_def store_init_def)
  show "store_inv t'" if "store_inv t" "store_step t t'" for t t'
    using that(2)
  proof cases
    case (step_open c r c')
    from step_open(3) show ?thesis
    proof (cases rule: open_store_cases)
      case opened
      then show ?thesis
        using that(1) step_open store_ok_opened by (auto simp: store_inv_def migration_unopened migration_opened)
    qed (use that(1) step_open in simp)
  next
    case (step_import now encoded head source c r c')
    show ?thesis
    proof (cases r)
      case (Inl e)
      then show ?thesis
        using that(1) step_import atomic_import [of now encoded head source] by (auto simp: atomic_def)
    next
      case (Inr x)
      obtain archive where a: "decode_command_evidence_archive encoded head = Inr (Inr archive)"
          "meaning (import_body now archive (sha256 encoded) head source) t = Inr (x, t')"
        using import_Inr [of now encoded head source c x c'] step_import Inr by auto
      then have ok: "store_ok t"
        using that(1) not_created_import [of t] by (auto simp: store_inv_def unopened_def)
      from ok a show ?thesis
      proof (cases rule: import_body_Inr)
        case (inserted i)
        then show ?thesis
          using store_ok_import [OF ok a(1), of i] next_rowid_fresh [OF inserted(2)]
          by (simp add: store_inv_def archive_ids_def)
      qed (use ok in \<open>simp add: store_inv_def\<close>)
    qed
  next
    case (step_replay now i result c r c')
    show ?thesis
    proof (cases r)
      case (Inl e)
      then show ?thesis
        using that(1) step_replay atomic_record_replay [of now i result] by (auto simp: atomic_def)
    next
      case (Inr x)
      then have u: "storable result" "tb_created t" "upsert_replay (replay_row now i (int (rr_processed_records result)) result) t = Some ((), t')"
        using record_replay_Inr [of now i result c x c'] step_replay by auto
      then have "store_ok t"
        using that(1) by (auto simp: store_inv_def unopened_def)
      then show ?thesis
        using store_ok_upsert [OF _ u(1,3)] by (simp add: store_inv_def)
    qed
  qed
qed

end
