(* ===== verification/Store_Properties.thy ===== *)
theory Store_Properties
  imports Store_Correct
begin

text \<open>
  The properties of the investigation store: what an import does under every schedule of
  failing calls, that it succeeds when no call fails, and that the queries return exactly
  the records, summaries and replay results of the stored archives.
\<close>

section \<open>Import\<close>

lemma import_rejected:
  assumes "\<nexists>archive. decode_command_evidence_archive encoded head = Inr (Inr archive)"
  shows "\<exists>e. import_archive now encoded head source c = (Inl e, c)"
  using assms by (auto simp: import_archive_def throw_action_def split: sum.split)

text \<open>C9: An import is all or nothing, whichever calls of SQLite fail. Bytes that do not verify
  against the trusted head are refused before any call is made; an import that throws, or
  that finds the archive stored already, leaves every table as it was; otherwise the tables
  are extended by exactly the row of the archive, one row for each record of the decoded
  archive, and one for each of its sessions.\<close>

theorem store_import_all_or_nothing:
  assumes "reachable store_init store_step (cn_tables c)"
    and "import_archive now encoded head source c = (r, c')"
  shows "(case r of
      Inl e \<Rightarrow> cn_tables c' = cn_tables c
    | Inr x \<Rightarrow> (\<exists>archive. decode_command_evidence_archive encoded head = Inr (Inr archive) \<and>
        x = import_report encoded archive (ir_archive_id x) (ir_inserted x) \<and>
        cn_tables c' = (if ir_inserted x then import_tables now encoded archive source (ir_archive_id x) (cn_tables c)
          else cn_tables c))) \<and>
    ((\<exists>archive. decode_command_evidence_archive encoded head = Inr (Inr archive)) \<or> c' = c)"
proof (intro conjI)
  show "(\<exists>archive. decode_command_evidence_archive encoded head = Inr (Inr archive)) \<or> c' = c"
    using import_rejected [of encoded head now source c] assms(2) by auto
  show "case r of
      Inl e \<Rightarrow> cn_tables c' = cn_tables c
    | Inr x \<Rightarrow> (\<exists>archive. decode_command_evidence_archive encoded head = Inr (Inr archive) \<and>
        x = import_report encoded archive (ir_archive_id x) (ir_inserted x) \<and>
        cn_tables c' = (if ir_inserted x then import_tables now encoded archive source (ir_archive_id x) (cn_tables c)
          else cn_tables c))"
  proof (cases r)
    case (Inl e)
    then show ?thesis
      using assms(2) atomic_import [of now encoded head source] by (auto simp: atomic_def)
  next
    case (Inr x)
    obtain archive where a: "decode_command_evidence_archive encoded head = Inr (Inr archive)"
        "meaning (import_body now archive (sha256 encoded) head source) (cn_tables c) = Inr (x, cn_tables c')"
      using import_Inr [of now encoded head source c x c'] assms(2) Inr by auto
    have ok: "store_ok (cn_tables c)"
      using store.inv_reachable [OF assms(1)] not_created_import [of "cn_tables c" now archive] a(2)
      by (auto simp: store_inv_def unopened_def)
    from ok a show ?thesis
      by (cases rule: import_body_Inr) (auto simp: Inr a(1) import_report_def)
  qed
qed

lemma decode_determined:
  assumes "decode_command_evidence_archive encoded head = Inr (Inr a)" and "decode_command_evidence_archive encoded head' = Inr (Inr a')"
  shows "a = a'"
proof -
  have "archive_ok (ca_records a) head" "encoded = archive_bytes (ca_records a) head"
      "archive_ok (ca_records a') head'" "encoded = archive_bytes (ca_records a') head'"
    using assms by (simp_all only: decode_archive_iff)
  then have "head = head'"
    using archive_checks_bytes(3) by metis
  then show ?thesis
    using assms by simp
qed

lemma find_snoc: "find P xs = None \<Longrightarrow> find P (xs @ [y]) = (if P y then Some y else None)"
  by (induction xs) (auto split: if_split_asm)

lemma meaning_import_existing:
  assumes "store_ok t" and "decode_command_evidence_archive encoded head = Inr (Inr archive)"
    and "existing_row encoded t = Some row" and "ea_record_count row = int (length (ca_records archive))"
    and "ea_declared_head row = digest_bytes (ca_head_digest archive)"
  shows "meaning (import_body now archive (sha256 encoded) head source) t =
    Inr (import_report encoded archive (ea_archive_id row) False, t)"
  using assms(3-5) decoded_archive(1,2) [OF assms(2)]
  by (simp add: meaning_import_body [OF assms(1,2)] meaning_existing_archive [OF assms(1)])

lemma import_body_succeeds:
  assumes "store_ok t" and "decode_command_evidence_archive encoded head = Inr (Inr archive)"
    and "source_ok source" and "next_rowid (map ea_archive_id (tb_archives t)) \<noteq> None"
    and "distinct (map record_digest (ca_records archive))"
    and "\<And>row e a. row \<in> set (tb_archives t) \<Longrightarrow> archive_stored t row e a \<Longrightarrow> sha256 e = sha256 encoded \<Longrightarrow> e = encoded"
  obtains i inserted t' where
    "meaning (import_body now archive (sha256 encoded) head source) t = Inr (import_report encoded archive i inserted, t')"
    "\<And>now. meaning (import_body now archive (sha256 encoded) head source) t' = Inr (import_report encoded archive i False, t')"
proof (cases "existing_row encoded t")
  case None
  then obtain i where i: "next_rowid (map ea_archive_id (tb_archives t)) = Some i"
    using assms(4) by auto
  let ?row = "imported_row now encoded archive source i" and ?t = "import_tables now encoded archive source i t"
  have row: "existing_row encoded ?t = Some ?row"
    using None by (simp add: existing_row_def import_tables_def find_snoc) (simp add: imported_row_def)
  have "store_ok ?t"
    using store_ok_import [OF assms(1,2), of i] next_rowid_fresh [OF i] None by (simp add: archive_ids_def)
  from meaning_import_existing [OF this assms(2) row]
  have "meaning (import_body now' archive (sha256 encoded) head source) ?t = Inr (import_report encoded archive i False, ?t)" for now'
    by (simp add: imported_row_def)
  then show thesis
    using that [of i True ?t] None i assms(3,5) by (simp add: meaning_import_body [OF assms(1,2)])
next
  case (Some row)
  then have row: "row \<in> set (tb_archives t)" "ea_archive_digest row = digest_bytes (sha256 encoded)"
    by (auto simp: existing_row_def find_Some_iff)
  then obtain e a where st: "archive_stored t row e a"
    using assms(1) by (auto simp: store_ok_def)
  then have "sha256 e = sha256 encoded"
    using row(2) by (simp add: archive_stored_def)
  then have "e = encoded"
    using assms(6) row(1) st by blast
  then have "a = archive"
    using st assms(2) decode_determined unfolding archive_stored_def by blast
  then have "meaning (import_body now' archive (sha256 encoded) head source) t =
      Inr (import_report encoded archive (ea_archive_id row) False, t)" for now'
    using meaning_import_existing [OF assms(1,2) Some] st by (simp add: archive_stored_def)
  then show thesis
    using that [of "ea_archive_id row" False t] by simp
qed

lemma store_opened:
  "reachable store_init store_step t \<Longrightarrow> tb_created t \<Longrightarrow> store_ok t"
  by (drule store.inv_reachable) (auto simp: store_inv_def unopened_def)

lemma decoded_nonempty: "decode_command_evidence_archive encoded head = Inr (Inr archive) \<Longrightarrow> encoded \<noteq> []"
  by (auto simp: decode_archive_iff archive_bytes_def archive_header_def archive_magic_def)

lemma import_meaning:
  "decode_command_evidence_archive encoded head = Inr (Inr archive) \<Longrightarrow> source \<noteq> [] \<Longrightarrow>
   meaning (import_archive now encoded head source) t = meaning (import_body now archive (sha256 encoded) head source) t"
  using decoded_nonempty [of encoded head archive] by (simp add: import_archive_def)

lemma source_ok_nonempty: "source_ok source \<Longrightarrow> source \<noteq> []"
  by (auto simp: source_ok_def bound_text_def Let_def)

lemma healthy_run:
  assumes "stable m" and "healthy c" and "meaning m (cn_tables c) = Inr (x, t)"
  obtains c' where "m c = (Inr x, c')" "cn_tables c' = t" "healthy c'"
proof -
  obtain n where "m c = (Inr x, c\<lparr>cn_tables := t, cn_calls := n\<rparr>)"
    using stable_healthy(2) [OF assms] by blast
  then show thesis
    using that assms(2) by (simp add: healthy_def)
qed

text \<open>C25: An import succeeds and is idempotent. On an opened store, when no call of SQLite fails,
  there is a free identifier and the table can hold the source (a text that is not empty
  before its first zero character), an archive that verifies is imported, and importing the
  same bytes again reports the same identifier and changes nothing; unless two records of
  the archive, or this archive and a different stored one, have the same SHA-256 digest.\<close>

theorem store_import_idempotent:
  assumes "reachable store_init store_step (cn_tables c)" and "tb_created (cn_tables c)" and "healthy c"
    and "decode_command_evidence_archive encoded head = Inr (Inr archive)" and "source_ok source"
    and "next_rowid (map ea_archive_id (tb_archives (cn_tables c))) \<noteq> None"
  shows "(\<exists>i inserted c' c''. import_archive now encoded head source c = (Inr (import_report encoded archive i inserted), c') \<and>
      import_archive now' encoded head source c' = (Inr (import_report encoded archive i False), c'') \<and>
      cn_tables c'' = cn_tables c') \<or>
    \<not> distinct (map record_digest (ca_records archive)) \<or>
    (\<exists>row e a. row \<in> set (tb_archives (cn_tables c)) \<and> archive_stored (cn_tables c) row e a \<and>
       e \<noteq> encoded \<and> sha256 e = sha256 encoded)"
proof (rule ccontr)
  assume no: "\<not> ?thesis"
  have src: "source \<noteq> []"
    using assms(5) by (rule source_ok_nonempty)
  obtain i inserted t' where m:
    "meaning (import_archive now encoded head source) (cn_tables c) = Inr (import_report encoded archive i inserted, t')"
    "\<And>now. meaning (import_archive now encoded head source) t' = Inr (import_report encoded archive i False, t')"
    using import_body_succeeds [OF store_opened [OF assms(1,2)] assms(4-6), of now] no
    unfolding import_meaning [OF assms(4) src] by blast
  obtain c' where c': "import_archive now encoded head source c = (Inr (import_report encoded archive i inserted), c')"
      "cn_tables c' = t'" "healthy c'"
    using healthy_run [OF stable_import_archive assms(3) m(1)] .
  obtain c'' where "import_archive now' encoded head source c' = (Inr (import_report encoded archive i False), c'')"
      "cn_tables c'' = t'"
    using healthy_run [OF stable_import_archive c'(3), of now' encoded head source] m(2) [of now'] c'(2) by metis
  with c' no show False
    by blast
qed

text \<open>
  A source that passes the check for an empty text can still violate the constraint of the
  table; the archive is then skipped by \<open>INSERT OR IGNORE\<close> and reported as an unreadable
  duplicate.
\<close>

lemma zero_source: "\<not> source_ok (CHR 0x00 # source)"
  by (cases "nat (signed_take_bit 31 (int (length (CHR 0x00 # source))))") (auto simp: source_ok_def bound_text_def Let_def)

lemma import_unusable_source:
  assumes "store_ok (cn_tables c)" and "healthy c" and "source \<noteq> []" and "\<not> source_ok source"
    and "decode_command_evidence_archive encoded head = Inr (Inr archive)" and "existing_row encoded (cn_tables c) = None"
  shows "fst (import_archive now encoded head source c) = Inl (InvestigationStoreError Store_sqlite_failure)"
proof -
  have "digest_ok (ca_head_digest archive)"
    using decoded_archive(1,2) [OF assms(5)] by simp
  then have "meaning (import_archive now encoded head source) (cn_tables c) =
      Inl (InvestigationStoreError Store_sqlite_failure)"
    using assms(3,4,6)
    by (simp add: import_meaning [OF assms(5)] meaning_import_body [OF assms(1,5)] meaning_existing_archive [OF assms(1)])
  then show ?thesis
    using stable_healthy(1) [OF stable_import_archive assms(2)] by simp
qed

text \<open>C39: How an import fails. An empty archive or source is an invalid argument, and other
  bytes that do not verify under the trusted head are refused as such, both before any call
  of SQLite and with nothing changed. A source the table cannot hold is not caught by these
  checks: with an archive that verifies and is not stored, and no failing call, the import is
  refused as a failure of SQLite, and the tables stay as they were. A source that begins with
  a zero character is such a source.\<close>

theorem store_import_errors:
  assumes "reachable store_init store_step (cn_tables c)" and "tb_created (cn_tables c)" and "healthy c"
    and "import_archive now encoded head source c = (r, c')"
  shows "(encoded = [] \<or> source = [] \<longrightarrow> r = Inl (InvestigationStoreError Store_invalid_argument) \<and> c' = c) \<and>
    (encoded \<noteq> [] \<and> source \<noteq> [] \<and> (\<nexists>archive. decode_command_evidence_archive encoded head = Inr (Inr archive)) \<longrightarrow>
      r = Inl (InvestigationStoreError Store_archive_verification_failed) \<and> c' = c) \<and>
    (source \<noteq> [] \<and> \<not> source_ok source \<and>
        (\<exists>archive. decode_command_evidence_archive encoded head = Inr (Inr archive)) \<and>
        digest_bytes (sha256 encoded) \<notin> set (map ea_archive_digest (tb_archives (cn_tables c))) \<longrightarrow>
      r = Inl (InvestigationStoreError Store_sqlite_failure) \<and> cn_tables c' = cn_tables c) \<and>
    \<not> source_ok (CHR 0x00 # rest)"
proof (intro conjI impI; (elim conjE exE)?)
  have run: "fst (import_archive now encoded head source c) = r" "snd (import_archive now encoded head source c) = c'"
    using assms(4) by simp_all
  show "r = Inl (InvestigationStoreError Store_invalid_argument)" "c' = c" if "encoded = [] \<or> source = []"
    using that run by (auto simp: import_archive_def throw_action_def split: if_split_asm)
  show "r = Inl (InvestigationStoreError Store_archive_verification_failed)" "c' = c"
    if "encoded \<noteq> []" "source \<noteq> []" "\<nexists>archive. decode_command_evidence_archive encoded head = Inr (Inr archive)"
    using that run decode_archive_total [of encoded head]
    by (auto simp: import_archive_def throw_action_def split: sum.split_asm)
  show failed: "r = Inl (InvestigationStoreError Store_sqlite_failure)"
    if "source \<noteq> []" "\<not> source_ok source" "decode_command_evidence_archive encoded head = Inr (Inr archive)"
      "digest_bytes (sha256 encoded) \<notin> set (map ea_archive_digest (tb_archives (cn_tables c)))" for archive
    using import_unusable_source [OF store_opened [OF assms(1,2)] assms(3) that(1-3)] that(4) run
    by (simp add: existing_row_None)
  show "cn_tables c' = cn_tables c"
    if "source \<noteq> []" "\<not> source_ok source" "decode_command_evidence_archive encoded head = Inr (Inr archive)"
      "digest_bytes (sha256 encoded) \<notin> set (map ea_archive_digest (tb_archives (cn_tables c)))" for archive
    using failed [OF that] assms(4) atomic_import [of now encoded head source] by (auto simp: atomic_def)
qed (rule zero_source)

section \<open>Queries\<close>

text \<open>The condition of a query on the records themselves.\<close>

definition record_matches :: "EvidenceQuery \<Rightarrow> CommandEvidenceRecord \<Rightarrow> bool" where
  "record_matches q r \<longleftrightarrow>
     (case eq_client_id q of None \<Rightarrow> True | Some c \<Rightarrow> ce_client_id (en_envelope (er_entry r)) = c) \<and>
     (case eq_session_id q of None \<Rightarrow> True | Some c \<Rightarrow> ce_session_id (en_envelope (er_entry r)) = c) \<and>
     (case eq_rejection_code q of None \<Rightarrow> True | Some c \<Rightarrow> en_rejection_code (er_entry r) = c) \<and>
     (case eq_queue_outcome q of None \<Rightarrow> True | Some c \<Rightarrow> en_queue_outcome (er_entry r) = c) \<and>
     (case eq_minimum_observed_tick q of None \<Rightarrow> True | Some v \<Rightarrow> v \<le> en_observed_tick (er_entry r)) \<and>
     (case eq_maximum_observed_tick q of None \<Rightarrow> True | Some v \<Rightarrow> en_observed_tick (er_entry r) \<le> v) \<and>
     (case eq_after_ordinal q of None \<Rightarrow> True | Some v \<Rightarrow> v < er_ordinal r)"

definition query_ok :: "EvidenceQuery \<Rightarrow> bool" where
  "query_ok q \<longleftrightarrow> 1 \<le> eq_limit q \<and> eq_limit q \<le> 1000 \<and>
     (case (eq_minimum_observed_tick q, eq_maximum_observed_tick q) of (Some a, Some b) \<Rightarrow> a \<le> b | _ \<Rightarrow> True)"

definition stored_record :: "int \<Rightarrow> CommandEvidenceRecord \<Rightarrow> StoredEvidenceRecord" where
  "stored_record i r = \<lparr>se_archive_id = i, se_record_digest = record_digest r, se_record = r\<rparr>"

lemma code_values_inject [simp]:
  "uint (rejection_code_value a) = uint (rejection_code_value b) \<longleftrightarrow> a = b"
  "uint (queue_outcome_value x) = uint (queue_outcome_value y) \<longleftrightarrow> x = y"
proof -
  show "uint (rejection_code_value a) = uint (rejection_code_value b) \<longleftrightarrow> a = b"
    using known_rejection_code_value [of a] known_rejection_code_value [of b] by (metis option.inject word_uint_eqI)
  show "uint (queue_outcome_value x) = uint (queue_outcome_value y) \<longleftrightarrow> x = y"
    using known_queue_outcome_value [of x] known_queue_outcome_value [of y] by (metis option.inject word_uint_eqI)
qed

lemma id_values_inject [simp]: "cid_value a = cid_value b \<longleftrightarrow> a = b" "sid_value x = sid_value y \<longleftrightarrow> x = y"
  by (auto intro: ClientId.expand SessionId.expand)

lemma evidence_matches_row: "evidence_matches i q (row_of j r) \<longleftrightarrow> j = i \<and> record_matches q r"
  by (auto simp: evidence_matches_def record_matches_def split: option.split)

lemma numbered_ascending: "numbered 0 rs \<Longrightarrow> sorted_wrt (<) (map er_ordinal rs)"
  by (auto simp: sorted_wrt_iff_nth_less numbered_def word_less_nat_alt unsigned_of_nat take_bit_nat_eq_self)

lemma select_evidence_eq:
  assumes "archive_stored t row e a" and "ea_archive_id row = i"
  shows "select_evidence i q n t = take (nat n) (map (row_of i) (filter (record_matches q) (ca_records a)))"
proof -
  have dec: "decode_command_evidence_archive e (ca_head_digest a) = Inr (Inr a)"
    using assms(1) by (simp add: archive_stored_def)
  have "filter (evidence_matches i q) (tb_evidence t) =
      filter (evidence_matches i q) (filter (\<lambda>r. ev_archive_id r = i) (tb_evidence t))"
    by (auto simp: evidence_matches_def intro!: filter_cong)
  also have "\<dots> = map (row_of i) (filter (record_matches q) (ca_records a))"
    using assms by (simp add: archive_stored_def filter_map comp_def evidence_matches_row)
  finally have rows: "filter (evidence_matches i q) (tb_evidence t) = map (row_of i) (filter (record_matches q) (ca_records a))" .
  have "sorted_wrt (\<lambda>x y. er_ordinal x < er_ordinal y) (filter (record_matches q) (ca_records a))"
    using numbered_ascending [OF decoded_archive(7) [OF dec]] by (simp add: sorted_wrt_map sorted_wrt_filter)
  then have "sorted (map ev_ordinal (map (row_of i) (filter (record_matches q) (ca_records a))))"
    unfolding sorted_map map_map comp_def row_of_simps
    by (auto simp: sorted_wrt_map elim: sorted_wrt_mono_rel [rotated])
  then show ?thesis
    by (simp add: select_evidence_def rows sort_key_id_if_sorted)
qed

lemma read_row_of:
  assumes "record_ok r"
  shows "read_evidence_row i (row_of j r) = Inr (stored_record i r)"
proof -
  have "decode_command_evidence (evidence_bytes r) = Inr (Inr r)" "digest_ok (er_previous_record_digest r)"
    using assms by (simp_all add: decode_command_evidence_iff record_ok_def)
  moreover have "decode_digest (digest_bytes (record_digest r)) = Inr (record_digest r)"
    using digest_ok_record_digest(1) [of r] by (simp add: decode_digest_def digest_ok_def)
  ultimately show ?thesis
    by (simp add: read_evidence_row_def digest_command_evidence_eq stored_record_def)
qed

lemma meaning_query:
  assumes "tb_created t" and "archive_stored t row e a" and "query_ok q"
  shows "meaning (query_evidence (ea_archive_id row) q) t =
    Inr (map (stored_record (ea_archive_id row)) (take (eq_limit q) (filter (record_matches q) (ca_records a))), t)"
proof -
  let ?i = "ea_archive_id row"
  have dec: "decode_command_evidence_archive e (ca_head_digest a) = Inr (Inr a)" and pos: "0 < ?i"
    using assms(2) by (simp_all add: archive_stored_def)
  have ok: "record_ok r" if "r \<in> set (take n (filter (record_matches q) (ca_records a)))" for r n
    using decoded_archive(3) [OF dec] that by (auto simp: list_all_iff dest: in_set_takeD)
  have "map_rows (read_evidence_row ?i) (select_evidence ?i q (int (eq_limit q)) t) =
      Inr (map (stored_record ?i) (take (eq_limit q) (filter (record_matches q) (ca_records a))))"
    unfolding select_evidence_eq [OF assms(2) refl] nat_int take_map
    by (subst map_rows_Inr [where f = "\<lambda>x. projr (read_evidence_row ?i x)"]) (auto simp: read_row_of ok)
  moreover have "list_all bindable (query_values ?i q)"
    by (auto simp: query_values_def split: option.split)
  moreover have "checked_int64 (eq_limit q) = Inr (int (eq_limit q))"
    using assms(3) by (simp add: checked_int64_def query_ok_def)
  ultimately show ?thesis
    using assms(1,3) pos
    by (auto simp: query_evidence_def validate_limit_def query_ok_def split: option.split_asm)
qed

text \<open>C24: A query returns exactly what it asks for. On every reachable store and for every
  stored archive, when no call fails, the result is the first records of the archive, in
  ascending order of their ordinals and up to the limit, that satisfy every given filter;
  each is returned with its digest and as it was when the archive was verified.\<close>

theorem store_query_exact:
  assumes "reachable store_init store_step (cn_tables c)" and "row \<in> set (tb_archives (cn_tables c))"
    and "healthy c" and "query_ok q"
  shows "\<exists>encoded archive c'. sha256 encoded = Sha256Digest (ea_archive_digest row) \<and>
    decode_command_evidence_archive encoded (Sha256Digest (ea_trusted_head row)) = Inr (Inr archive) \<and>
    query_evidence (ea_archive_id row) q c =
      (Inr (map (stored_record (ea_archive_id row)) (take (eq_limit q) (filter (record_matches q) (ca_records archive)))), c') \<and>
    cn_tables c' = cn_tables c"
proof -
  have ok: "store_ok (cn_tables c)"
    using store.inv_reachable [OF assms(1)] assms(2) by (auto simp: store_inv_def unopened_def)
  then obtain e a where st: "archive_stored (cn_tables c) row e a"
    using assms(2) by (auto simp: store_ok_def)
  have "tb_created (cn_tables c)"
    using ok by (simp add: store_ok_def)
  from meaning_query [OF this st assms(4)] obtain c' where
    "query_evidence (ea_archive_id row) q c =
      (Inr (map (stored_record (ea_archive_id row)) (take (eq_limit q) (filter (record_matches q) (ca_records a)))), c')"
    "cn_tables c' = cn_tables c"
    using healthy_run [OF stable_queries(3) assms(3)] by metis
  moreover have "sha256 e = Sha256Digest (ea_archive_digest row)"
      "decode_command_evidence_archive e (Sha256Digest (ea_trusted_head row)) = Inr (Inr a)"
    using st by (simp_all add: archive_stored_def)
  ultimately show ?thesis
    by blast
qed

section \<open>Sessions\<close>

definition session_summary :: "session_key \<Rightarrow> CommandEvidenceRecord list \<Rightarrow> EvidenceSessionSummary" where
  "session_summary k rs = (let xs = of_session k rs in
     \<lparr>ss_client_id = ClientId (fst k), ss_session_id = SessionId (snd k),
      ss_first_ordinal = er_ordinal (hd xs), ss_last_ordinal = er_ordinal (last xs),
      ss_first_observed_tick = en_observed_tick (er_entry (hd xs)),
      ss_last_observed_tick = en_observed_tick (er_entry (last xs)),
      ss_accepted_count = length (filter accepted_record xs),
      ss_rejected_count = length (filter (\<lambda>r. \<not> accepted_record r) xs)\<rparr>)"

lemma read_session_row_of:
  assumes "int (sg_accepted_count a) \<le> i64_max" and "int (sg_rejected_count a) \<le> i64_max"
  shows "read_session_row (session_row i (k, a)) = Inr \<lparr>ss_client_id = ClientId (fst k), ss_session_id = SessionId (snd k),
      ss_first_ordinal = sg_first_ordinal a, ss_last_ordinal = sg_last_ordinal a,
      ss_first_observed_tick = sg_first_observed_tick a, ss_last_observed_tick = sg_last_observed_tick a,
      ss_accepted_count = sg_accepted_count a, ss_rejected_count = sg_rejected_count a\<rparr>"
  using assms by (simp add: read_session_row_def session_row_def store_checked_size_def split: prod.split)

text \<open>A container with one entry for every session of the records lists the sessions in order.\<close>

lemma keys_of_sessions:
  assumes "omap_ok m" and "\<And>k. map_of m k = None \<longleftrightarrow> of_session k rs = []"
  shows "map fst m = sorted_list_of_set (session_key ` set rs)"
proof (rule sorted_distinct_set_unique)
  show "sorted (map fst m)" "distinct (map fst m)"
    using assms(1) by (simp_all add: omap_ok_def strict_sorted_iff)
  have "k \<in> set (map fst m) \<longleftrightarrow> of_session k rs \<noteq> []" for k
    using assms(2) [of k] map_of_eq_None_iff [of m k] by auto
  moreover have "of_session k rs \<noteq> [] \<longleftrightarrow> k \<in> session_key ` set rs" for k
    by (auto simp: of_session_def filter_empty_conv)
  ultimately show "set (map fst m) = set (sorted_list_of_set (session_key ` set rs))"
    by (intro set_eqI) simp
qed simp_all

lemma session_keys: "map fst (fold aggregate_record rs []) = sorted_list_of_set (session_key ` set rs)"
  by (rule keys_of_sessions, rule omap_ok_aggregates) (simp_all add: aggregates_lookup omap_ok_def)

lemma select_sessions_eq:
  assumes "archive_stored t row e a" and "ea_archive_id row = i"
  shows "select_sessions i t = map (session_row i) (fold aggregate_record (ca_records a) [])"
proof -
  let ?m = "fold aggregate_record (ca_records a) []"
  have "sorted_wrt (<) (map fst ?m)"
    using omap_ok_aggregates [of "[]" "ca_records a"] by (simp add: omap_ok_def)
  then have "sorted_wrt (\<lambda>p q. fst p < fst q) ?m"
    by (simp add: sorted_wrt_map)
  then have "sorted_wrt (\<lambda>p q. (encode_u64 (fst (fst p)), encode_u64 (snd (fst p))) \<le> (encode_u64 (fst (fst q)), encode_u64 (snd (fst q)))) ?m"
    by (rule sorted_wrt_mono_rel [rotated]) (auto simp: less_prod_def less_eq_prod_def)
  then have "sorted (map (\<lambda>r. (sn_client_id r, sn_session_id r)) (map (session_row i) ?m))"
    by (simp add: sorted_wrt_map)
  then show ?thesis
    using assms by (simp add: select_sessions_def archive_stored_def sort_key_id_if_sorted)
qed

lemma meaning_list_sessions:
  assumes "tb_created t" and "archive_stored t row e a"
  shows "meaning (list_sessions (ea_archive_id row)) t =
    Inr (map (\<lambda>k. session_summary k (ca_records a)) (sorted_list_of_set (session_key ` set (ca_records a))), t)"
proof -
  let ?i = "ea_archive_id row" and ?m = "fold aggregate_record (ca_records a) []"
  have dec: "decode_command_evidence_archive e (ca_head_digest a) = Inr (Inr a)" and pos: "0 < ?i"
    using assms(2) by (simp_all add: archive_stored_def)
  have read: "read_session_row (session_row ?i p) = Inr (session_summary (fst p) (ca_records a))" if "p \<in> set ?m" for p
  proof -
    obtain k s where p: "p = (k, s)" by (cases p)
    have s: "s = summarise (of_session k (ca_records a))"
      using aggregates_summarise(1) that p by blast
    have "int (sg_accepted_count s) \<le> i64_max" "int (sg_rejected_count s) \<le> i64_max"
      using summarise_counts [of k "ca_records a"] decoded_archive(8) [OF dec] unfolding s by linarith+
    from read_session_row_of [OF this] show ?thesis
      by (simp add: p s session_summary_def summarise_def Let_def)
  qed
  have "map_rows read_session_row (select_sessions ?i t) = Inr (map (\<lambda>p. session_summary (fst p) (ca_records a)) ?m)"
    unfolding select_sessions_eq [OF assms(2) refl]
    by (subst map_rows_Inr [where f = "\<lambda>x. projr (read_session_row x)"]) (auto simp: read)
  moreover have "map (\<lambda>p. session_summary (fst p) (ca_records a)) ?m = map (\<lambda>k. session_summary k (ca_records a)) (map fst ?m)"
    by simp
  ultimately show ?thesis
    using assms(1) pos unfolding session_keys by (simp add: list_sessions_def)
qed

section \<open>Replay results\<close>

lemma replay_code_value_of [simp]: "replay_code_of (column_int (replay_code_value code)) = Inr code"
  by (cases code) (simp_all add: replay_code_of_def replay_code_value_def column_int_def)

lemma read_replay_row_of:
  assumes "storable r"
  shows "read_replay_row (replay_row now i (int (rr_processed_records r)) r) = Inr r"
proof -
  have "checked_size_u64 (of_nat (rr_final_pending_command_count r)) = Inr (rr_final_pending_command_count r)"
    using assms by (simp add: checked_size_u64_def storable_def of_nat_unat_u64)
  moreover have "store_checked_size (int (rr_processed_records r)) = Inr (rr_processed_records r)"
      "decode_digest (digest_bytes (rr_replayed_head_digest r)) = Inr (rr_replayed_head_digest r)"
    using assms by (simp_all add: store_checked_size_def storable_def decode_digest_def digest_ok_def)
  ultimately show ?thesis
    by (cases "rr_failed_ordinal r") (simp_all add: read_replay_row_def replay_row_def)
qed

lemma replay_row_valid: "storable r \<Longrightarrow> replay_row_ok (replay_row now i (int (rr_processed_records r)) r)"
  by (auto simp: replay_row_ok_def replay_row_def storable_def digest_ok_def split: option.split)

lemma meaning_record_replay:
  assumes "store_ok t" and "i \<in> archive_ids t" and "storable r"
  shows "meaning (record_replay_result now i r) t =
    Inr ((), snd (the (upsert_replay (replay_row now i (int (rr_processed_records r)) r) t)))"
    and "find (\<lambda>row. rt_archive_id row = i) (tb_replays (snd (the (upsert_replay (replay_row now i (int (rr_processed_records r)) r) t)))) =
      Some (replay_row now i (int (rr_processed_records r)) r)"
proof -
  let ?row = "replay_row now i (int (rr_processed_records r)) r"
  have i: "rt_archive_id ?row = i" by (simp add: replay_row_def)
  have pos: "0 < i" "\<exists>x. find (\<lambda>r. ea_archive_id r = i) (tb_archives t) = Some x"
    using assms(1,2) by (auto simp: store_ok_def archive_ids_def archive_stored_def find_None_iff
      simp flip: not_None_eq)
  have "upsert_replay ?row t \<noteq> None"
    using assms(2) replay_row_valid [OF assms(3), of now i] i by (simp add: upsert_replay_def archive_ids_def)
  then obtain t' where up: "upsert_replay ?row t = Some ((), t')"
    by auto
  have "list_all bindable [SQL_integer (int (rr_processed_records r)),
      (case rt_failed_ordinal ?row of None \<Rightarrow> SQL_null | Some bs \<Rightarrow> SQL_blob bs),
      SQL_blob (rt_performed_tick_advances ?row), SQL_blob (rt_final_tick ?row),
      SQL_blob (rt_final_session_sequence ?row), SQL_blob (rt_final_pending_command_count ?row),
      SQL_blob (rt_final_world_fingerprint ?row), SQL_blob (rt_replayed_head_digest ?row)]"
    using assms(3) by (auto simp: replay_row_def storable_def split: option.split)
  moreover have "checked_int64 (rr_processed_records r) = Inr (int (rr_processed_records r))"
    using assms(3) by (simp add: checked_int64_def storable_def)
  ultimately show "meaning (record_replay_result now i r) t = Inr ((), snd (the (upsert_replay ?row t)))"
    using pos up assms by (auto simp: record_replay_result_def store_ok_def find_filter storable_def Let_def)
  have replace: "find (\<lambda>row. rt_archive_id row = i) (map (\<lambda>r. if rt_archive_id r = i then ?row else r) rows) =
      (if i \<in> set (map rt_archive_id rows) then Some ?row else None)" for rows
    using i by (induction rows) auto
  have append: "find (\<lambda>row. rt_archive_id row = i) (rows @ [?row]) = Some ?row" if "i \<notin> set (map rt_archive_id rows)" for rows
    using that i by (induction rows) auto
  show "find (\<lambda>row. rt_archive_id row = i) (tb_replays (snd (the (upsert_replay ?row t)))) = Some ?row"
  proof (cases "i \<in> set (map rt_archive_id (tb_replays t))")
    case True
    then show ?thesis
      using assms(2) replay_row_valid [OF assms(3), of now i] i replace by (simp add: upsert_replay_def archive_ids_def)
  next
    case False
    then show ?thesis
      using assms(2) replay_row_valid [OF assms(3), of now i] i append by (simp add: upsert_replay_def archive_ids_def)
  qed
qed

lemma meaning_replay_result:
  assumes "tb_created t" and "0 < i"
  shows "meaning (replay_result i) t = (case find (\<lambda>row. rt_archive_id row = i) (tb_replays t) of
      None \<Rightarrow> Inr (None, t)
    | Some row \<Rightarrow> map_sum id (\<lambda>r. (Some r, t)) (read_replay_row row))"
proof (cases "find (\<lambda>row. rt_archive_id row = i) (tb_replays t)")
  case None
  then show ?thesis
    using assms by (simp add: replay_result_def find_filter)
next
  case (Some row)
  then show ?thesis
    using assms by (cases "read_replay_row row") (simp_all add: replay_result_def find_filter)
qed

text \<open>C30: The latest replay result of an archive is kept exactly. When no call fails, recording
  the result of a replay for a stored archive and reading it back returns that result, with
  every counter, digest and code as it was, whatever was recorded before.\<close>

theorem store_replay_roundtrip:
  assumes "reachable store_init store_step (cn_tables c)" and "i \<in> archive_ids (cn_tables c)"
    and "healthy c" and "storable r"
  shows "\<exists>c' c''. record_replay_result now i r c = (Inr (), c') \<and> replay_result i c' = (Inr (Some r), c'') \<and>
    cn_tables c'' = cn_tables c'"
proof -
  have ok: "store_ok (cn_tables c)"
    using store.inv_reachable [OF assms(1)] assms(2) by (auto simp: store_inv_def unopened_def archive_ids_def)
  obtain c' where c': "record_replay_result now i r c = (Inr (), c')"
      "cn_tables c' = snd (the (upsert_replay (replay_row now i (int (rr_processed_records r)) r) (cn_tables c)))" "healthy c'"
    using healthy_run [OF stable_record_replay assms(3) meaning_record_replay(1) [OF ok assms(2,4)]] .
  have up: "0 < i" "upsert_replay (replay_row now i (int (rr_processed_records r)) r) (cn_tables c) = Some ((), cn_tables c')"
    using record_replay_Inr [OF c'(1)] by simp_all
  note pos = up(1)
  have "tb_created (cn_tables c')"
    using store_ok_upsert [OF ok assms(4) up(2)] by (simp add: store_ok_def)
  then have "meaning (replay_result i) (cn_tables c') = Inr (Some r, cn_tables c')"
    using meaning_record_replay(2) [OF ok assms(2,4), of now] read_replay_row_of [OF assms(4)] pos
    by (simp add: meaning_replay_result c'(2))
  then show ?thesis
    using healthy_run [OF stable_queries(1) c'(3)] c'(1) by metis
qed

section \<open>Examples\<close>

definition demo_connection :: "Tables \<Rightarrow> Tables Connection" where
  "demo_connection t = \<lparr>cn_tables = t, cn_calls = 0, cn_fails = \<lambda>_. False\<rparr>"

definition demo_store :: Tables where
  "demo_store = unopened\<lparr>tb_migrations := Some [1], tb_created := True\<rparr>"

definition demo_encoded :: bytes where
  "demo_encoded = archive_bytes [demo_record] (record_digest demo_record)"

definition demo_archive :: CommandEvidenceArchive where
  "demo_archive = \<lparr>ca_records = [demo_record], ca_head_digest = record_digest demo_record\<rparr>"

lemma demo_connection_simps [simp]: "cn_tables (demo_connection t) = t" "healthy (demo_connection t)"
  by (simp_all add: demo_connection_def healthy_def)

lemma demo_decoded: "decode_command_evidence_archive demo_encoded (record_digest demo_record) = Inr (Inr demo_archive)"
  using demo_archive_ok by (simp add: decode_archive_iff demo_encoded_def demo_archive_def)

lemma demo_store_reachable: "reachable store_init store_step demo_store"
proof -
  have "fst (open_store (demo_connection unopened)) = Inr ()" "cn_tables (snd (open_store (demo_connection unopened))) = demo_store"
    by (simp_all add: open_store_def migrate_def transaction_cases with_commit_def migration_body_def read_version_def
      execute_sql_def prepare_statement_def step_done_def step_row_def bind_action_def check_call_def apply_statement_def return_action_def
      bind_values.simps bind_value_def demo_connection_def unopened_def create_ledger_def select_version_def schema_sql_def
      record_migration_def column_int_def demo_store_def)
  then obtain c' where "open_store (demo_connection unopened) = (Inr (), c')" "cn_tables c' = demo_store"
    by (cases "open_store (demo_connection unopened)") auto
  then have "store_step unopened demo_store"
    using step_open [of "demo_connection unopened"] by auto
  then show ?thesis
    using reachable_step [OF reachable_init [of store_init unopened store_step]] by (simp add: store_init_def)
qed

lemma demo_source: "source_ok ''s''"
  by (simp add: source_ok_def bound_text_def signed_take_bit_int_eq_self_iff)

lemma demo_rowid: "next_rowid (map ea_archive_id (tb_archives demo_store)) = Some 1"
  by (simp add: next_rowid_def demo_store_def unopened_def)

definition demo_filled :: Tables where
  "demo_filled = import_tables ''t'' demo_encoded demo_archive ''s'' 1 demo_store"

lemma demo_imported:
  obtains c' where "import_archive ''t'' demo_encoded (record_digest demo_record) ''s'' (demo_connection demo_store) =
    (Inr (import_report demo_encoded demo_archive 1 True), c')" "cn_tables c' = demo_filled"
proof -
  have "existing_row demo_encoded demo_store = None"
    by (simp add: existing_row_def demo_store_def unopened_def)
  then have "meaning (import_archive ''t'' demo_encoded (record_digest demo_record) ''s'') (cn_tables (demo_connection demo_store)) =
      Inr (import_report demo_encoded demo_archive 1 True, demo_filled)"
    using store_ok_opened demo_source demo_rowid
    by (simp add: import_meaning [OF demo_decoded] meaning_import_body [OF _ demo_decoded] demo_store_def [symmetric] demo_filled_def)
       (simp add: demo_archive_def)
  then show thesis
    using healthy_run [OF stable_import_archive demo_connection_simps(2)] that by metis
qed

lemma demo_filled_reachable: "reachable store_init store_step demo_filled"
proof -
  obtain c' where c': "import_archive ''t'' demo_encoded (record_digest demo_record) ''s'' (demo_connection demo_store) =
    (Inr (import_report demo_encoded demo_archive 1 True), c')" "cn_tables c' = demo_filled"
    by (rule demo_imported)
  then have "store_step demo_store demo_filled"
    using step_import [OF c'(1)] by simp
  then show ?thesis
    using demo_store_reachable by (rule reachable_step [rotated])
qed

theorem store_import_all_or_nothing_witness:
  "(\<exists>r c'. import_archive ''t'' [1, 2, 3] Sha256Digest_zero ''s'' (demo_connection demo_store) = (r, c') \<and>
     c' = demo_connection demo_store) \<and>
   (\<exists>c'. import_archive ''t'' demo_encoded (record_digest demo_record) ''s'' (demo_connection demo_store) =
       (Inr (import_report demo_encoded demo_archive 1 True), c') \<and>
     cn_tables c' = import_tables ''t'' demo_encoded demo_archive ''s'' 1 demo_store)"
proof (intro conjI)
  have c: "reachable store_init store_step (cn_tables (demo_connection demo_store))"
    using demo_store_reachable by simp
  obtain r c' where run: "import_archive ''t'' [1, 2, 3] Sha256Digest_zero ''s'' (demo_connection demo_store) = (r, c')"
    by (cases "import_archive ''t'' [1, 2, 3] Sha256Digest_zero ''s'' (demo_connection demo_store)")
  have "decode_command_evidence_archive [1, 2, 3] Sha256Digest_zero \<noteq> Inr (Inr archive)" for archive
    by (simp add: decode_archive_eq archive_checks_def)
  then show "\<exists>r c'. import_archive ''t'' [1, 2, 3] Sha256Digest_zero ''s'' (demo_connection demo_store) = (r, c') \<and>
     c' = demo_connection demo_store"
    using store_import_all_or_nothing [OF c run] run by blast
  obtain c' where stored: "import_archive ''t'' demo_encoded (record_digest demo_record) ''s'' (demo_connection demo_store) =
      (Inr (import_report demo_encoded demo_archive 1 True), c')"
    by (rule demo_imported)
  from store_import_all_or_nothing [OF c stored] stored
  show "\<exists>c'. import_archive ''t'' demo_encoded (record_digest demo_record) ''s'' (demo_connection demo_store) =
       (Inr (import_report demo_encoded demo_archive 1 True), c') \<and>
     cn_tables c' = import_tables ''t'' demo_encoded demo_archive ''s'' 1 demo_store"
    by (auto simp: import_report_def demo_decoded)
qed

theorem store_import_errors_witness:
  "(\<exists>c'. import_archive ''t'' demo_encoded (record_digest demo_record) [CHR 0x00] (demo_connection demo_store) =
      (Inl (InvestigationStoreError Store_sqlite_failure), c') \<and> cn_tables c' = demo_store) \<and>
   import_archive ''t'' [1, 2, 3] Sha256Digest_zero ''s'' (demo_connection demo_store) =
      (Inl (InvestigationStoreError Store_archive_verification_failed), demo_connection demo_store) \<and>
   \<not> source_ok [CHR 0x00]"
proof -
  have c: "reachable store_init store_step (cn_tables (demo_connection demo_store))" "tb_created (cn_tables (demo_connection demo_store))"
      "tb_archives demo_store = []"
    using demo_store_reachable by (simp_all add: demo_store_def unopened_def)
  have "decode_command_evidence_archive [1, 2, 3] Sha256Digest_zero \<noteq> Inr (Inr archive)" for archive
    by (simp add: decode_archive_eq archive_checks_def)
  moreover obtain r c' where run: "import_archive ''t'' demo_encoded (record_digest demo_record) [CHR 0x00] (demo_connection demo_store) = (r, c')"
    by (cases "import_archive ''t'' demo_encoded (record_digest demo_record) [CHR 0x00] (demo_connection demo_store)")
  moreover obtain r2 c2 where run2: "import_archive ''t'' [1, 2, 3] Sha256Digest_zero ''s'' (demo_connection demo_store) = (r2, c2)"
    by (cases "import_archive ''t'' [1, 2, 3] Sha256Digest_zero ''s'' (demo_connection demo_store)")
  ultimately show ?thesis
    using store_import_errors [OF c(1,2) demo_connection_simps(2) run, of "[]"] c(3) demo_decoded
      store_import_errors [OF c(1,2) demo_connection_simps(2) run2, of "[]"] by auto
qed

theorem store_import_idempotent_witness:
  "\<exists>i inserted c' c''. import_archive ''t'' demo_encoded (record_digest demo_record) ''s'' (demo_connection demo_store) =
      (Inr (import_report demo_encoded demo_archive i inserted), c') \<and>
    import_archive ''u'' demo_encoded (record_digest demo_record) ''s'' c' = (Inr (import_report demo_encoded demo_archive i False), c'')"
proof -
  have "reachable store_init store_step (cn_tables (demo_connection demo_store))" "tb_created (cn_tables (demo_connection demo_store))"
    using demo_store_reachable by (simp_all add: demo_store_def)
  moreover have "distinct (map record_digest (ca_records demo_archive))" "tb_archives demo_store = []"
    by (simp_all add: demo_archive_def demo_store_def unopened_def)
  ultimately show ?thesis
    using store_import_idempotent [OF _ _ demo_connection_simps(2) demo_decoded demo_source, of demo_store "''t''" "''u''"] demo_rowid
    by auto
qed

theorem store_query_exact_witness:
  "\<exists>c' (archive :: CommandEvidenceArchive). query_evidence 1 default_query (demo_connection demo_filled) =
     (Inr (map (stored_record 1) (take 100 (filter (record_matches default_query) (ca_records archive)))), c')"
proof -
  let ?row = "imported_row ''t'' demo_encoded demo_archive ''s'' 1" and ?c = "demo_connection demo_filled"
  have c: "reachable store_init store_step (cn_tables ?c)" "?row \<in> set (tb_archives (cn_tables ?c))"
    using demo_filled_reachable by (simp_all add: demo_filled_def import_tables_def)
  have q: "query_ok default_query" "eq_limit default_query = 100" "ea_archive_id ?row = 1"
    by (simp_all add: query_ok_def default_query_def imported_row_def)
  from store_query_exact [OF c demo_connection_simps(2) q(1)]
  obtain archive :: CommandEvidenceArchive and c' where "query_evidence (ea_archive_id ?row) default_query ?c = (Inr (map (stored_record (ea_archive_id ?row))
      (take (eq_limit default_query) (filter (record_matches default_query) (ca_records archive)))), c')"
    by blast
  then show ?thesis
    unfolding q(2,3) by blast
qed

definition demo_result :: CommandEvidenceReplayResult where
  "demo_result = \<lparr>rr_code = Replay_verified, rr_processed_records = 1, rr_failed_ordinal = None,
     rr_performed_tick_advances = 3, rr_final_tick = 3, rr_final_session_sequence = 1,
     rr_final_pending_command_count = 0, rr_final_world_fingerprint = StateFingerprint 9,
     rr_replayed_head_digest = Sha256Digest_zero\<rparr>"

theorem store_replay_roundtrip_witness:
  "\<exists>c' c''. record_replay_result ''t'' 1 demo_result (demo_connection demo_filled) = (Inr (), c') \<and>
     replay_result 1 c' = (Inr (Some demo_result), c'')"
proof -
  have "reachable store_init store_step (cn_tables (demo_connection demo_filled))" "1 \<in> archive_ids (cn_tables (demo_connection demo_filled))"
    using demo_filled_reachable by (simp_all add: demo_filled_def import_tables_def archive_ids_def imported_row_def)
  moreover have "storable demo_result"
    by (simp add: storable_def demo_result_def)
  ultimately show ?thesis
    using store_replay_roundtrip [OF _ _ demo_connection_simps(2), of demo_filled 1 demo_result "''t''"] by blast
qed

end
