(* ===== verification/Exporter.thy ===== *)
theory Exporter
  imports Store_Properties
begin

text \<open>
  The export of a stored archive as a JSON bundle,
  \<open>storage/investigation_bundle_exporter.cpp\<close>: the archive is located page by page, its
  evidence is loaded page by page and checked again (count, chain, heads, session totals),
  and the bundle is written as text.
\<close>

section \<open>JSON text\<close>

definition json_escape :: "char \<Rightarrow> string" where
  "json_escape c =
     (if c = CHR 0x22 then [CHR 0x5C, CHR 0x22]
      else if c = CHR 0x5C then [CHR 0x5C, CHR 0x5C]
      else if c = CHR 0x08 then [CHR 0x5C, CHR ''b'']
      else if c = CHR 0x0C then [CHR 0x5C, CHR ''f'']
      else if c = CHR 0x0A then [CHR 0x5C, CHR ''n'']
      else if c = CHR 0x0D then [CHR 0x5C, CHR ''r'']
      else if c = CHR 0x09 then [CHR 0x5C, CHR ''t'']
      else if of_char c < (0x20 :: nat)
      then [CHR 0x5C] @ ''u00'' @ [hex_digits ! (of_char c div 16), hex_digits ! (of_char c mod 16)]
      else [c])"

definition append_json_string :: "string \<Rightarrow> string \<Rightarrow> string" where
  "append_json_string output value =
     foldl (\<lambda>output c. output @ json_escape c) (output @ [CHR 0x22]) value @ [CHR 0x22]"

definition append_indent :: "string \<Rightarrow> nat \<Rightarrow> string" where
  "append_indent output n = output @ replicate n (CHR '' '')"

definition append_string_field :: "string \<Rightarrow> nat \<Rightarrow> string \<Rightarrow> string \<Rightarrow> bool \<Rightarrow> string" where
  "append_string_field output indent name value comma =
     (let output = append_indent output indent;
          output = append_json_string output name;
          output = output @ '': '';
          output = append_json_string output value
      in output @ (if comma then [CHR '','', CHR 0x0A] else [CHR 0x0A]))"

definition append_raw_field :: "string \<Rightarrow> nat \<Rightarrow> string \<Rightarrow> string \<Rightarrow> bool \<Rightarrow> string" where
  "append_raw_field output indent name value comma =
     (let output = append_indent output indent;
          output = append_json_string output name;
          output = output @ '': '';
          output = output @ value
      in output @ (if comma then [CHR '','', CHR 0x0A] else [CHR 0x0A]))"

definition normalize_timestamp :: "string \<Rightarrow> string" where
  "normalize_timestamp value =
     (if length value = 19 \<and> value ! 10 = CHR '' '' then value[10 := CHR ''T''] @ ''Z'' else value)"

text \<open>\<open>std::to_string\<close> of an unsigned value.\<close>

fun decimal :: "nat \<Rightarrow> string" where
  "decimal n = (if n < 10 then [hex_digits ! n] else decimal (n div 10) @ [hex_digits ! (n mod 10)])"

declare decimal.simps [simp del]

section \<open>Names and checks\<close>

definition command_type_name :: "CommandType \<Rightarrow> string" where
  "command_type_name t = (if t = Set_velocity then ''set_velocity'' else ''unknown'')"

definition record_was_accepted :: "CommandEvidenceRecord \<Rightarrow> bool" where
  "record_was_accepted r \<longleftrightarrow> en_rejection_code (er_entry r) = Reject_none \<and>
     en_queue_outcome (er_entry r) = Outcome_accepted"

definition rejection_name :: "CommandEvidenceRecord \<Rightarrow> string" where
  "rejection_name r =
     (if en_rejection_code (er_entry r) \<noteq> Reject_none then command_rejection_code_name (en_rejection_code (er_entry r))
      else if en_queue_outcome (er_entry r) \<noteq> Outcome_accepted
      then command_queue_outcome_name (en_queue_outcome (er_entry r))
      else ''none'')"

datatype InvestigationBundleExportErrorCode =
    Export_invalid_archive_id
  | Export_archive_not_found
  | Export_replay_result_missing
  | Export_evidence_count_mismatch
  | Export_evidence_chain_mismatch
  | Export_session_summary_mismatch
  | Export_json_integer_out_of_range

text \<open>An exporter error, or an exception of the store passing through.\<close>

datatype export_exception =
    InvestigationBundleExportError InvestigationBundleExportErrorCode
  | Export_store_exception store_exception

type_synonym 'a export = "Tables Connection \<Rightarrow> (export_exception + 'a) \<times> Tables Connection"

definition from_store :: "(Tables, 'a) action \<Rightarrow> 'a export" where
  "from_store m c = (case m c of (Inl e, c') \<Rightarrow> (Inl (Export_store_exception e), c') | (Inr x, c') \<Rightarrow> (Inr x, c'))"

definition require_json_integer :: "nat \<Rightarrow> export_exception + unit" where
  "require_json_integer value =
     (if value > 2147483647 then Inl (InvestigationBundleExportError Export_json_integer_out_of_range) else Inr ())"

section \<open>Loading\<close>

text \<open>
  The loop over the pages of archives. It ends because every page holds smaller identifiers
  than the one before, and reading does not change the tables.
\<close>

definition archives_before :: "int option \<Rightarrow> Tables \<Rightarrow> ArchiveRow list" where
  "archives_before before t =
     filter (\<lambda>r. case before of None \<Rightarrow> True | Some b \<Rightarrow> ea_archive_id r < b) (tb_archives t)"

lemma list_archives_page:
  assumes "list_archives n before c = (Inr page, c')" and "page \<noteq> []"
  shows "cn_tables c' = cn_tables c" and "\<exists>r \<in> set (archives_before before (cn_tables c)). ea_archive_id r = as_archive_id (last page)"
proof -
  show "cn_tables c' = cn_tables c"
    using reading_queries(2) [of n before] assms(1) unfolding reading_def by (metis snd_conv)
  have "meaning (list_archives n before) (cn_tables c) = Inr (page, cn_tables c')"
    using stableD(2) [OF stable_queries(2) assms(1)] .
  then obtain m where m: "map_rows read_archive_row (select_archives m before (cn_tables c)) = Inr page"
    by (cases "map_rows read_archive_row (select_archives (int n) before (cn_tables c))")
      (auto simp: list_archives_def validate_limit_def meaning_bind_values_eq checked_int64_def result_simps split: if_split_asm)
  have ids: "map as_archive_id page = map ea_archive_id rows" if "map_rows read_archive_row rows = Inr page" for rows page
    using that by (induction rows arbitrary: page) (auto simp: read_archive_row_def result_simps)
  have "as_archive_id (last page) \<in> set (map ea_archive_id (select_archives m before (cn_tables c)))"
    using ids [OF m] assms(2) by (metis last_in_set last_map map_is_Nil_conv)
  then show "\<exists>r \<in> set (archives_before before (cn_tables c)). ea_archive_id r = as_archive_id (last page)"
    by (auto simp: select_archives_def archives_before_def dest!: in_set_takeD)
qed

function find_archive_from :: "int \<Rightarrow> int option \<Rightarrow> EvidenceArchiveSummary export" where
  "find_archive_from archive_id before c = (case list_archives 100 before c of
     (Inl e, c') \<Rightarrow> (Inl (Export_store_exception e), c')
   | (Inr page, c') \<Rightarrow>
       if page = [] then (Inl (InvestigationBundleExportError Export_archive_not_found), c')
       else (case find (\<lambda>archive. as_archive_id archive = archive_id) page of
         Some archive \<Rightarrow> (Inr archive, c')
       | None \<Rightarrow> find_archive_from archive_id (Some (as_archive_id (last page))) c'))"
  by auto
termination
proof (relation "measure (\<lambda>(archive_id, before, c). length (archives_before before (cn_tables c)))", goal_cases)
  case (2 archive_id before c r c' page)
  then have p: "list_archives 100 before c = (Inr page, c')" "page \<noteq> []" by auto
  obtain x where x: "x \<in> set (archives_before before (cn_tables c))" "ea_archive_id x = as_archive_id (last page)"
    using list_archives_page(2) [OF p] by blast
  have "archives_before (Some (as_archive_id (last page))) (cn_tables c) =
      filter (\<lambda>r. ea_archive_id r < as_archive_id (last page)) (archives_before before (cn_tables c))"
    using x by (auto simp: archives_before_def intro!: filter_cong split: option.split)
  moreover have "length (filter (\<lambda>r. ea_archive_id r < as_archive_id (last page)) (archives_before before (cn_tables c))) <
      length (archives_before before (cn_tables c))"
    using x by (intro length_filter_less) auto
  ultimately show ?case
    using list_archives_page(1) [OF p] by simp
qed simp

declare find_archive_from.simps [simp del]

definition find_archive :: "int \<Rightarrow> EvidenceArchiveSummary export" where
  "find_archive archive_id = find_archive_from archive_id None"

fun append_page :: "StoredEvidenceRecord list \<Rightarrow> StoredEvidenceRecord list \<Rightarrow> export_exception + StoredEvidenceRecord list" where
  "append_page records [] = Inr records"
| "append_page records (stored # page) =
     (if records \<noteq> [] \<and> er_ordinal (se_record stored) \<le> er_ordinal (se_record (last records))
      then Inl (InvestigationBundleExportError Export_evidence_chain_mismatch)
      else append_page (records @ [stored]) page)"

lemma append_page_Inr:
  "append_page records page = Inr records' \<Longrightarrow> records' = records @ page \<and>
   (records \<noteq> [] \<and> page \<noteq> [] \<longrightarrow> er_ordinal (se_record (last records)) < er_ordinal (se_record (last page)))"
proof (induction records page rule: append_page.induct)
  case (2 records stored page)
  then show ?case by (cases "page = []") (auto split: if_split_asm)
qed simp

text \<open>
  The loop over the pages of evidence. It ends because the ordinals of the loaded records
  increase strictly, which the loop itself enforces.
\<close>

function load_evidence_from ::
  "int \<Rightarrow> StoredEvidenceRecord list \<Rightarrow> u64 option \<Rightarrow> StoredEvidenceRecord list export"
where
  "load_evidence_from archive_id records after_ordinal c =
     (case query_evidence archive_id (default_query\<lparr>eq_after_ordinal := after_ordinal, eq_limit := 100\<rparr>) c of
        (Inl e, c') \<Rightarrow> (Inl (Export_store_exception e), c')
      | (Inr page, c') \<Rightarrow>
          if page = [] then (Inr records, c')
          else (case append_page records page of
            Inl e \<Rightarrow> (Inl e, c')
          | Inr records' \<Rightarrow>
              if length page < 100 then (Inr records', c')
              else load_evidence_from archive_id records' (Some (er_ordinal (se_record (last page)))) c'))"
  by auto
termination
proof (relation "measure (\<lambda>(archive_id, records, after_ordinal, c).
    u64_limit - (if records = [] then 0 else unat (er_ordinal (se_record (last records))) + 1))", goal_cases)
  case (2 archive_id records after_ordinal c r c' page records')
  then have page: "page \<noteq> []" "append_page records page = Inr records'" by auto
  note a = append_page_Inr [OF page(2)]
  have "unat (er_ordinal (se_record (last page))) < u64_limit"
    using unsigned_less [of "er_ordinal (se_record (last page))", where 'a = nat] by simp
  then show ?case
    using a page(1) by (auto simp: word_less_nat_alt)
qed simp

declare load_evidence_from.simps [simp del]

definition load_all_evidence :: "int \<Rightarrow> StoredEvidenceRecord list export" where
  "load_all_evidence archive_id = load_evidence_from archive_id [] None"

section \<open>The bundle\<close>

record SessionProjection =
  pj_initialized :: bool
  pj_last_committed_sequence :: u64
  pj_first_target_tick :: u64
  pj_last_target_tick :: u64

text \<open>The running variables of the loop over the evidence.\<close>

record EvidenceScan =
  sc_expected_digest :: Sha256Digest
  sc_projections :: "(session_key, SessionProjection) omap"
  sc_accepted_count :: nat
  sc_rejected_count :: nat

definition project_record :: "CommandEvidenceRecord \<Rightarrow> (session_key, SessionProjection) omap \<Rightarrow> (session_key, SessionProjection) omap" where
  "project_record r m =
     (let key = session_key r; envelope = en_envelope (er_entry r);
          m = omap_emplace key \<lparr>pj_initialized = False, pj_last_committed_sequence = 0,
                pj_first_target_tick = 0, pj_last_target_tick = 0\<rparr> m
      in case map_of m key of
           None \<Rightarrow> m
         | Some p \<Rightarrow>
             let p = (if \<not> pj_initialized p
                   then p\<lparr>pj_initialized := True, pj_first_target_tick := ce_target_tick envelope\<rparr> else p);
                 p = p\<lparr>pj_last_target_tick := ce_target_tick envelope,
                       pj_last_committed_sequence := en_session_sequence_after (er_entry r)\<rparr>
             in omap_assign key p m)"

fun scan_evidence :: "StoredEvidenceRecord list \<Rightarrow> EvidenceScan \<Rightarrow> export_exception + EvidenceScan" where
  "scan_evidence [] s = Inr s"
| "scan_evidence (stored # evidence) s =
     (let r = se_record stored in
      bind_result (require_json_integer (unat (er_ordinal r))) (\<lambda>_.
      if er_previous_record_digest r \<noteq> sc_expected_digest s
      then Inl (InvestigationBundleExportError Export_evidence_chain_mismatch)
      else scan_evidence evidence
        \<lparr>sc_expected_digest = se_record_digest stored, sc_projections = project_record r (sc_projections s),
         sc_accepted_count = sc_accepted_count s + (if record_was_accepted r then 1 else 0),
         sc_rejected_count = sc_rejected_count s + (if record_was_accepted r then 0 else 1)\<rparr>))"

text \<open>The loop over the session summaries; the totals are of type \<open>std::size_t\<close>.\<close>

fun scan_sessions ::
  "(session_key, SessionProjection) omap \<Rightarrow> EvidenceSessionSummary list \<Rightarrow> nat \<times> nat \<Rightarrow> export_exception + nat \<times> nat"
where
  "scan_sessions projections [] totals = Inr totals"
| "scan_sessions projections (session # sessions) totals =
     (if \<not> omap_contains projections (cid_value (ss_client_id session), sid_value (ss_session_id session))
      then Inl (InvestigationBundleExportError Export_session_summary_mismatch)
      else bind_result (require_json_integer (ss_accepted_count session)) (\<lambda>_.
      bind_result (require_json_integer (ss_rejected_count session)) (\<lambda>_.
      scan_sessions projections sessions
        ((fst totals + ss_accepted_count session) mod u64_limit, (snd totals + ss_rejected_count session) mod u64_limit))))"

definition session_json :: "bool \<Rightarrow> EvidenceSessionSummary \<Rightarrow> SessionProjection \<Rightarrow> string \<Rightarrow> string" where
  "session_json followed session projection output =
     (let output = output @ ''    {'' @ [CHR 0x0A];
          output = append_string_field output 6 ''clientId'' (decimal (unat (cid_value (ss_client_id session)))) True;
          output = append_string_field output 6 ''sessionId'' (decimal (unat (sid_value (ss_session_id session)))) True;
          output = append_string_field output 6 ''lastCommittedSequence'' (decimal (unat (pj_last_committed_sequence projection))) True;
          output = append_string_field output 6 ''firstTargetTick'' (decimal (unat (pj_first_target_tick projection))) True;
          output = append_string_field output 6 ''lastTargetTick'' (decimal (unat (pj_last_target_tick projection))) True;
          output = append_raw_field output 6 ''acceptedCommands'' (decimal (ss_accepted_count session)) True;
          output = append_raw_field output 6 ''rejectedCommands'' (decimal (ss_rejected_count session)) False
      in output @ ''    }'' @ (if followed then [CHR '','', CHR 0x0A] else [CHR 0x0A]))"

text \<open>\<open>projections.at(key)\<close> throws \<open>std::out_of_range\<close> for a session without evidence.\<close>

fun sessions_json ::
  "(session_key, SessionProjection) omap \<Rightarrow> EvidenceSessionSummary list \<Rightarrow> string \<Rightarrow> export_exception + string"
where
  "sessions_json projections [] output = Inr output"
| "sessions_json projections (session # sessions) output =
     (case omap_at projections (cid_value (ss_client_id session), sid_value (ss_session_id session)) of
        Inl e \<Rightarrow> Inl (Export_store_exception (Store_cxx_error e))
      | Inr projection \<Rightarrow> sessions_json projections sessions (session_json (sessions \<noteq> []) session projection output))"

definition record_json :: "bool \<Rightarrow> StoredEvidenceRecord \<Rightarrow> string \<Rightarrow> string" where
  "record_json followed stored output =
     (let r = se_record stored; envelope = en_envelope (er_entry r);
          output = output @ ''    {'' @ [CHR 0x0A];
          output = append_raw_field output 6 ''ordinal'' (decimal (unat (er_ordinal r))) True;
          output = append_string_field output 6 ''clientId'' (decimal (unat (cid_value (ce_client_id envelope)))) True;
          output = append_string_field output 6 ''sessionId'' (decimal (unat (sid_value (ce_session_id envelope)))) True;
          output = append_string_field output 6 ''sessionSequence'' (decimal (unat (ce_sequence envelope))) True;
          output = append_string_field output 6 ''targetTick'' (decimal (unat (ce_target_tick envelope))) True;
          output = append_string_field output 6 ''commandType'' (command_type_name (ce_type envelope)) True;
          output = append_string_field output 6 ''outcome'' (if record_was_accepted r then ''accepted'' else ''rejected'') True;
          output = append_string_field output 6 ''rejectionCode'' (rejection_name r) True;
          output = append_string_field output 6 ''previousDigest'' (digest_to_hex (er_previous_record_digest r)) True;
          output = append_string_field output 6 ''recordDigest'' (digest_to_hex (se_record_digest stored)) False
      in output @ ''    }'' @ (if followed then [CHR '','', CHR 0x0A] else [CHR 0x0A]))"

fun records_json :: "StoredEvidenceRecord list \<Rightarrow> string \<Rightarrow> string" where
  "records_json [] output = output"
| "records_json (stored # evidence) output = records_json evidence (record_json (evidence \<noteq> []) stored output)"

definition quoted_line :: "string \<Rightarrow> string \<Rightarrow> string" where
  "quoted_line name rest = ''  '' @ [CHR 0x22] @ name @ [CHR 0x22] @ '': '' @ rest @ [CHR 0x0A]"

definition header_json :: "EvidenceArchiveSummary \<Rightarrow> Sha256Digest \<Rightarrow> string" where
  "header_json archive initial_head =
     (let output = ''{'' @ [CHR 0x0A];
          output = append_raw_field output 2 ''schemaVersion'' ''1'' True;
          output = append_string_field output 2 ''archiveDigest'' (digest_to_hex (as_archive_digest archive)) True;
          output = append_string_field output 2 ''initialHeadDigest'' (digest_to_hex initial_head) True;
          output = append_string_field output 2 ''trustedHeadDigest'' (digest_to_hex (as_trusted_head archive)) True
      in append_string_field output 2 ''importedAtUtc'' (normalize_timestamp (as_imported_at_utc archive)) True)"

definition replay_json :: "CommandEvidenceReplayResult \<Rightarrow> nat \<Rightarrow> nat \<Rightarrow> string \<Rightarrow> string" where
  "replay_json result accepted_count rejected_count output =
     (let output = output @ quoted_line ''replay'' ''{'';
          output = append_raw_field output 4 ''verified'' (if replay_verified result then ''true'' else ''false'') True;
          output = append_string_field output 4 ''finalTick'' (decimal (unat (rr_final_tick result))) True;
          output = append_string_field output 4 ''finalWorldFingerprint''
                     (decimal (unat (fp_value (rr_final_world_fingerprint result)))) True;
          output = append_raw_field output 4 ''acceptedCommands'' (decimal accepted_count) True;
          output = append_raw_field output 4 ''rejectedCommands'' (decimal rejected_count) False
      in output @ ''  }'' @ [CHR 0x0A] @ ''}'' @ [CHR 0x0A])"

definition bundle_json ::
  "EvidenceArchiveSummary \<Rightarrow> Sha256Digest \<Rightarrow> EvidenceSessionSummary list \<Rightarrow> EvidenceScan \<Rightarrow>
   StoredEvidenceRecord list \<Rightarrow> CommandEvidenceReplayResult \<Rightarrow> export_exception + string"
where
  "bundle_json archive initial_head sessions s evidence result =
     (let output = header_json archive initial_head;
          output = output @ quoted_line ''sessions'' ''[''
      in bind_result (sessions_json (sc_projections s) sessions output) (\<lambda>output.
      let output = output @ ''  ],'' @ [CHR 0x0A];
          output = output @ quoted_line ''evidence'' ''['';
          output = records_json evidence output;
          output = output @ ''  ],'' @ [CHR 0x0A]
      in Inr (replay_json result (sc_accepted_count s) (sc_rejected_count s) output)))"

definition initial_head :: "StoredEvidenceRecord list \<Rightarrow> Sha256Digest" where
  "initial_head evidence = (case evidence of [] \<Rightarrow> Sha256Digest_zero | stored # _ \<Rightarrow> er_previous_record_digest (se_record stored))"

definition scan_start :: "StoredEvidenceRecord list \<Rightarrow> EvidenceScan" where
  "scan_start evidence = \<lparr>sc_expected_digest = initial_head evidence, sc_projections = [],
     sc_accepted_count = 0, sc_rejected_count = 0\<rparr>"

definition export_investigation_bundle_json :: "int \<Rightarrow> string export" where
  "export_investigation_bundle_json archive_id =
     (if archive_id \<le> 0 then throw_action (InvestigationBundleExportError Export_invalid_archive_id)
      else
        bind_action (find_archive archive_id) (\<lambda>archive.
        bind_action (from_store (replay_result archive_id)) (\<lambda>recorded. case recorded of
          None \<Rightarrow> throw_action (InvestigationBundleExportError Export_replay_result_missing)
        | Some result \<Rightarrow>
        bind_action (load_all_evidence archive_id) (\<lambda>evidence.
        if length evidence \<noteq> as_record_count archive
        then throw_action (InvestigationBundleExportError Export_evidence_count_mismatch)
        else
        bind_action (pure_action (scan_evidence evidence (scan_start evidence))) (\<lambda>s.
        if sc_expected_digest s \<noteq> as_chain_head archive \<or> as_trusted_head archive \<noteq> as_chain_head archive
        then throw_action (InvestigationBundleExportError Export_evidence_chain_mismatch)
        else
        bind_action (from_store (list_sessions archive_id)) (\<lambda>sessions.
        if length sessions \<noteq> length (sc_projections s)
        then throw_action (InvestigationBundleExportError Export_session_summary_mismatch)
        else
        bind_action (pure_action (scan_sessions (sc_projections s) sessions (0, 0))) (\<lambda>totals.
        if fst totals \<noteq> sc_accepted_count s \<or> snd totals \<noteq> sc_rejected_count s
        then throw_action (InvestigationBundleExportError Export_session_summary_mismatch)
        else
        bind_action (pure_action (require_json_integer (sc_accepted_count s))) (\<lambda>_.
        bind_action (pure_action (require_json_integer (sc_rejected_count s))) (\<lambda>_.
        pure_action (bundle_json archive (initial_head evidence) sessions s evidence result))))))))))"

end
