(* ===== verification/Json.thy ===== *)
theory Json
  imports Tickline_Prelude
begin

text \<open>
  The JSON grammar of RFC 8259, as far as the exported bundles use it, written independently
  of the code that prints them: a reader of string literals that resolves the escapes, the
  value of a number, and the texts a JSON value may have, with white space wherever the
  grammar allows it. Texts are sequences of bytes; a byte above \<open>0x7f\<close> stands for itself.
\<close>

datatype json =
    JString string
  | JNumber nat
  | JBool bool
  | JArray "json list"
  | JObject "(string \<times> json) list"

section \<open>Strings\<close>

definition hex_value :: "char \<Rightarrow> nat option" where
  "hex_value c = (let n = of_char c in
     if 48 \<le> n \<and> n \<le> 57 then Some (n - 48)
     else if 97 \<le> n \<and> n \<le> 102 then Some (n - 87)
     else if 65 \<le> n \<and> n \<le> 70 then Some (n - 55)
     else None)"

definition simple_escape :: "char \<Rightarrow> char option" where
  "simple_escape e =
     (if e = CHR 0x22 \<or> e = CHR 0x5C \<or> e = CHR 0x2F then Some e
      else if e = CHR ''b'' then Some (CHR 0x08)
      else if e = CHR ''f'' then Some (CHR 0x0C)
      else if e = CHR ''n'' then Some (CHR 0x0A)
      else if e = CHR ''r'' then Some (CHR 0x0D)
      else if e = CHR ''t'' then Some (CHR 0x09)
      else None)"

text \<open>The code unit of a \<open>\u\<close> escape, for the ASCII range.\<close>

definition unicode_escape :: "char \<Rightarrow> char \<Rightarrow> char \<Rightarrow> char \<Rightarrow> char option" where
  "unicode_escape a b c d = (case (hex_value a, hex_value b, hex_value c, hex_value d) of
     (Some w, Some x, Some y, Some z) \<Rightarrow>
       let n = 4096 * w + 256 * x + 16 * y + z in if n < 128 then Some (char_of n) else None
   | _ \<Rightarrow> None)"

text \<open>The string after an opening quote, up to the quote that ends it, and what follows it.\<close>

fun read_json_string :: "string \<Rightarrow> (string \<times> string) option" where
  "read_json_string [] = None"
| "read_json_string (c # s) =
     (if c = CHR 0x22 then Some ([], s)
      else if c = CHR 0x5C then
        (case s of
           [] \<Rightarrow> None
         | e # s' \<Rightarrow>
             if e = CHR ''u'' then
               (case s' of
                  a # b # x # y # s'' \<Rightarrow>
                    (case unicode_escape a b x y of
                       None \<Rightarrow> None
                     | Some v \<Rightarrow> map_option (apfst (Cons v)) (read_json_string s''))
                | _ \<Rightarrow> None)
             else (case simple_escape e of
                None \<Rightarrow> None
              | Some v \<Rightarrow> map_option (apfst (Cons v)) (read_json_string s')))
      else if of_char c < (32 :: nat) then None
      else map_option (apfst (Cons c)) (read_json_string s))"

definition json_string :: "string \<Rightarrow> string \<Rightarrow> bool" where
  "json_string v t \<longleftrightarrow> (case t of [] \<Rightarrow> False | q # s \<Rightarrow> q = CHR 0x22 \<and> read_json_string s = Some (v, []))"

section \<open>Numbers and white space\<close>

definition is_digit :: "char \<Rightarrow> bool" where
  "is_digit c \<longleftrightarrow> 48 \<le> (of_char c :: nat) \<and> of_char c \<le> (57 :: nat)"

definition digits_value :: "string \<Rightarrow> nat" where
  "digits_value t = foldl (\<lambda>n c. 10 * n + (of_char c - 48)) 0 t"

definition json_number :: "nat \<Rightarrow> string \<Rightarrow> bool" where
  "json_number n t \<longleftrightarrow> t \<noteq> [] \<and> list_all is_digit t \<and> (hd t = CHR ''0'' \<longrightarrow> length t = 1) \<and> digits_value t = n"

definition blank :: "string \<Rightarrow> bool" where
  "blank t \<longleftrightarrow> list_all (\<lambda>c. c = CHR 0x20 \<or> c = CHR 0x09 \<or> c = CHR 0x0A \<or> c = CHR 0x0D) t"

lemma blank_simps [simp]:
  "blank []" "blank (CHR 0x20 # t) \<longleftrightarrow> blank t" "blank (CHR 0x0A # t) \<longleftrightarrow> blank t" "blank (a @ b) \<longleftrightarrow> blank a \<and> blank b"
  "blank (replicate n (CHR 0x20))"
  by (auto simp: blank_def list_all_iff)

section \<open>Values\<close>

text \<open>\<open>json_text v t\<close>: the text \<open>t\<close> denotes the value \<open>v\<close>.\<close>

inductive json_text :: "json \<Rightarrow> string \<Rightarrow> bool"
  and json_elements :: "json list \<Rightarrow> string \<Rightarrow> bool"
  and json_members :: "(string \<times> json) list \<Rightarrow> string \<Rightarrow> bool"
where
  text_string: "json_string v t \<Longrightarrow> json_text (JString v) t"
| text_number: "json_number n t \<Longrightarrow> json_text (JNumber n) t"
| text_true: "json_text (JBool True) ''true''"
| text_false: "json_text (JBool False) ''false''"
| text_empty_array: "blank w \<Longrightarrow> json_text (JArray []) (''['' @ w @ '']'')"
| text_array: "json_elements vs t \<Longrightarrow> json_text (JArray vs) (''['' @ t @ '']'')"
| text_empty_object: "blank w \<Longrightarrow> json_text (JObject []) (''{'' @ w @ ''}'')"
| text_object: "json_members ms t \<Longrightarrow> json_text (JObject ms) (''{'' @ t @ ''}'')"
| elements_last: "blank a \<Longrightarrow> json_text v t \<Longrightarrow> blank b \<Longrightarrow> json_elements [v] (a @ t @ b)"
| elements_more: "blank a \<Longrightarrow> json_text v t \<Longrightarrow> blank b \<Longrightarrow> json_elements vs u \<Longrightarrow>
    json_elements (v # vs) (a @ t @ b @ '','' @ u)"
| members_last: "blank a \<Longrightarrow> json_string k s \<Longrightarrow> blank b \<Longrightarrow> blank c \<Longrightarrow> json_text v t \<Longrightarrow> blank d \<Longrightarrow>
    json_members [(k, v)] (a @ s @ b @ '':'' @ c @ t @ d)"
| members_more: "blank a \<Longrightarrow> json_string k s \<Longrightarrow> blank b \<Longrightarrow> blank c \<Longrightarrow> json_text v t \<Longrightarrow> blank d \<Longrightarrow>
    json_members ms u \<Longrightarrow> json_members ((k, v) # ms) (a @ s @ b @ '':'' @ c @ t @ d @ '','' @ u)"

definition json_document :: "json \<Rightarrow> string \<Rightarrow> bool" where
  "json_document v t \<longleftrightarrow> (\<exists>a b s. blank a \<and> blank b \<and> json_text v s \<and> t = a @ s @ b)"

section \<open>Assembling texts\<close>

lemma document_text: "json_text v t \<Longrightarrow> blank b \<Longrightarrow> json_document v (t @ b)"
  unfolding json_document_def by (intro exI [of _ "[]"] exI [of _ b] exI [of _ t]) simp

lemma object_text:
  assumes "json_members ms t"
  shows "json_text (JObject ms) (CHR ''{'' # t @ [CHR ''}''])"
  using text_object [OF assms] by simp

lemma elements_leading: "json_elements vs t \<Longrightarrow> blank w \<Longrightarrow> json_elements vs (w @ t)"
proof (cases rule: json_elements.cases, assumption)
  fix a v t' b
  assume "blank w" "vs = [v]" "t = a @ t' @ b" "blank a" "json_text v t'" "blank b"
  then show ?thesis
    using elements_last [of "w @ a" v t' b] by simp
next
  fix a v t' b vs' u
  assume "blank w" "vs = v # vs'" "t = a @ t' @ b @ '','' @ u" "blank a" "json_text v t'" "blank b" "json_elements vs' u"
  then show ?thesis
    using elements_more [of "w @ a" v t' b vs' u] by simp
qed

lemma elements_trailing: "json_elements vs t \<Longrightarrow> blank w \<Longrightarrow> json_elements vs (t @ w)"
proof (induction vs arbitrary: t)
  case Nil
  then show ?case by (auto elim: json_elements.cases)
next
  case (Cons v vs)
  from Cons.prems(1) show ?case
  proof (cases rule: json_elements.cases)
    case (elements_last a t' b)
    then show ?thesis
      using json_text_json_elements_json_members.elements_last [of a v t' "b @ w"] Cons.prems(2) by simp
  next
    case (elements_more a t' b u)
    then show ?thesis
      using json_text_json_elements_json_members.elements_more [of a v t' b vs "u @ w"] Cons by simp
  qed
qed

lemma members_leading: "json_members ms t \<Longrightarrow> blank w \<Longrightarrow> json_members ms (w @ t)"
proof (cases rule: json_members.cases, assumption)
  fix a k s b c v t' d
  assume "blank w" "ms = [(k, v)]" "t = a @ s @ b @ '':'' @ c @ t' @ d" "blank a" "json_string k s" "blank b" "blank c"
    "json_text v t'" "blank d"
  then show ?thesis
    using members_last [of "w @ a" k s b c v t' d] by simp
next
  fix a k s b c v t' d ms' u
  assume "blank w" "ms = (k, v) # ms'" "t = a @ s @ b @ '':'' @ c @ t' @ d @ '','' @ u" "blank a" "json_string k s" "blank b"
    "blank c" "json_text v t'" "blank d" "json_members ms' u"
  then show ?thesis
    using members_more [of "w @ a" k s b c v t' d ms' u] by simp
qed

end
