(* ===== verification/Bundle_Text.thy ===== *)
theory Bundle_Text
  imports Exporter Json
begin

text \<open>
  The exported text is JSON: string literals are read back exactly, whatever bytes they
  hold, and the text the exporter assembles denotes the value it is meant to denote.
\<close>

section \<open>String literals\<close>

definition quoted :: "string \<Rightarrow> string" where
  "quoted v = CHR 0x22 # concat (map json_escape v) @ [CHR 0x22]"

lemma append_json_string_eq: "append_json_string output v = output @ quoted v"
proof -
  have "foldl (\<lambda>output c. output @ json_escape c) s v = s @ concat (map json_escape v)" for s
    by (induction v arbitrary: s) simp_all
  then show ?thesis
    by (simp add: append_json_string_def quoted_def)
qed

lemma hex_value_digit:
  assumes "i < 16"
  shows "hex_value (hex_digits ! i) = Some i"
proof -
  have "list_all (\<lambda>i. hex_value (hex_digits ! i) = Some i) [0..<16]"
    by code_simp
  then show ?thesis
    using assms by (simp add: list_all_iff)
qed

lemma unicode_escape_digits:
  assumes "n < 128"
  shows "unicode_escape (CHR ''0'') (CHR ''0'') (hex_digits ! (n div 16)) (hex_digits ! (n mod 16)) = Some (char_of n)"
proof -
  have "n div 16 < 16"
    using assms by simp
  moreover have "hex_value (CHR ''0'') = Some 0"
    by (simp add: hex_value_def)
  ultimately show ?thesis
    using assms by (simp add: unicode_escape_def hex_value_digit)
qed

lemma read_escape: "read_json_string (json_escape c @ s) = map_option (apfst (Cons c)) (read_json_string s)"
  by (auto simp: json_escape_def simple_escape_def unicode_escape_digits)

lemma read_escapes: "read_json_string (concat (map json_escape v) @ CHR 0x22 # s) = Some (v, s)"
  by (induction v) (simp_all add: read_escape)

lemma quoted_text: "json_string v (quoted v)"
  by (simp add: json_string_def quoted_def read_escapes)

section \<open>Numbers\<close>

lemma digit_char:
  assumes "n < 10"
  shows "is_digit (hex_digits ! n) \<and> of_char (hex_digits ! n) - 48 = n \<and> (hex_digits ! n = CHR ''0'' \<longleftrightarrow> n = 0)"
proof -
  have "list_all (\<lambda>n. is_digit (hex_digits ! n) \<and> of_char (hex_digits ! n) - 48 = n \<and>
      (hex_digits ! n = CHR ''0'' \<longleftrightarrow> n = 0)) [0..<10]"
    by code_simp
  then show ?thesis
    using assms by (simp add: list_all_iff)
qed

lemma decimal_number: "json_number n (decimal n)"
proof (induction n rule: decimal.induct)
  case (1 n)
  show ?case
  proof (cases "n < 10")
    case True
    then show ?thesis
      using digit_char [of n] by (simp add: decimal.simps [of n] json_number_def digits_value_def)
  next
    case False
    then have IH: "json_number (n div 10) (decimal (n div 10))" "n div 10 \<noteq> 0"
      using 1 by auto
    have "hd (decimal (n div 10)) \<noteq> CHR ''0''"
    proof
      assume z: "hd (decimal (n div 10)) = CHR ''0''"
      then have "decimal (n div 10) = [CHR ''0'']"
        using IH(1) by (cases "decimal (n div 10)") (auto simp: json_number_def)
      then show False
        using IH by (simp add: json_number_def digits_value_def)
    qed
    then show ?thesis
      using False IH digit_char [of "n mod 10"]
      by (simp add: decimal.simps [of n] json_number_def digits_value_def)
  qed
qed

section \<open>Fields\<close>

definition line_end :: "bool \<Rightarrow> string" where
  "line_end followed = (if followed then [CHR '','', CHR 0x0A] else [CHR 0x0A])"

definition field_text :: "nat \<Rightarrow> string \<Rightarrow> string \<Rightarrow> bool \<Rightarrow> string" where
  "field_text indent name t followed = replicate indent (CHR '' '') @ quoted name @ '': '' @ t @ line_end followed"

lemma append_fields:
  "append_string_field output indent name v followed = output @ field_text indent name (quoted v) followed"
  "append_raw_field output indent name t followed = output @ field_text indent name t followed"
  by (simp_all add: append_string_field_def append_raw_field_def append_indent_def append_json_string_eq field_text_def
    line_end_def Let_def)

lemma field_last:
  assumes "json_text v t" and "blank w"
  shows "json_members [(name, v)] (field_text indent name t False @ w)"
  using members_last [OF _ quoted_text _ _ assms(1), where a = "replicate indent (CHR '' '')" and b = "[]" and c = "'' ''" and d = "CHR 0x0A # w" and k = name] assms(2)
  by (simp add: field_text_def line_end_def)

lemma field_more:
  assumes "json_text v t" and "json_members ms u"
  shows "json_members ((name, v) # ms) (field_text indent name t True @ u)"
  using members_more [OF _ quoted_text _ _ assms(1) _ members_leading [OF assms(2), of "[CHR 0x0A]"], where a = "replicate indent (CHR '' '')" and b = "[]" and c = "'' ''" and d = "[]" and k = name]
  by (simp add: field_text_def line_end_def)

lemmas field_values = text_string [OF quoted_text] text_number [OF decimal_number] text_true text_false

section \<open>Objects and arrays\<close>

definition object_lines :: "nat \<Rightarrow> string \<Rightarrow> string" where
  "object_lines indent body = ''{'' @ [CHR 0x0A] @ body @ replicate indent (CHR '' '') @ ''}''"

lemma object_lines_text: "json_members ms (body @ replicate indent (CHR '' '')) \<Longrightarrow> json_text (JObject ms) (object_lines indent body)"
  using text_object [OF members_leading [of ms "body @ replicate indent (CHR '' '')" "[CHR 0x0A]"]] by (simp add: object_lines_def)

fun item_lines :: "string list \<Rightarrow> string" where
  "item_lines [] = []"
| "item_lines (t # ts) = ''    '' @ t @ line_end (ts \<noteq> []) @ item_lines ts"

lemma item_lines_elements: "list_all2 json_text vs ts \<Longrightarrow> vs \<noteq> [] \<Longrightarrow> json_elements vs (item_lines ts)"
proof (induction rule: list_all2_induct)
  case (Cons v vs t ts)
  show ?case
  proof (cases "vs = []")
    case True
    then have "ts = []" using Cons by simp
    then show ?thesis
      using elements_last [OF _ Cons(1), of "''    ''" "[CHR 0x0A]"] True by (simp add: line_end_def)
  next
    case False
    then have "ts \<noteq> []" using Cons by auto
    then show ?thesis
      using elements_more [OF _ Cons(1) _ elements_leading [OF Cons(3) [OF False], of "[CHR 0x0A]"], of "''    ''" "[]"]
      by (simp add: line_end_def)
  qed
qed simp

definition array_lines :: "string list \<Rightarrow> string" where
  "array_lines ts = ''['' @ [CHR 0x0A] @ item_lines ts @ ''  ]''"

lemma array_lines_text:
  assumes "list_all2 json_text vs ts"
  shows "json_text (JArray vs) (array_lines ts)"
proof (cases "vs = []")
  case True
  then show ?thesis
    using assms text_empty_array [of "[CHR 0x0A] @ ''  ''"] by (simp add: array_lines_def)
next
  case False
  then show ?thesis
    using text_array [OF elements_leading [OF elements_trailing [OF item_lines_elements [OF assms False], of "''  ''"], of "[CHR 0x0A]"]]
    by (simp add: array_lines_def)
qed

section \<open>The bundle\<close>

definition text_of :: "nat \<Rightarrow> json" where
  "text_of n = JString (decimal n)"

definition session_value :: "EvidenceSessionSummary \<Rightarrow> SessionProjection \<Rightarrow> json" where
  "session_value session projection = JObject
     [(''clientId'', text_of (unat (cid_value (ss_client_id session)))),
      (''sessionId'', text_of (unat (sid_value (ss_session_id session)))),
      (''lastCommittedSequence'', text_of (unat (pj_last_committed_sequence projection))),
      (''firstTargetTick'', text_of (unat (pj_first_target_tick projection))),
      (''lastTargetTick'', text_of (unat (pj_last_target_tick projection))),
      (''acceptedCommands'', JNumber (ss_accepted_count session)),
      (''rejectedCommands'', JNumber (ss_rejected_count session))]"

definition record_value :: "StoredEvidenceRecord \<Rightarrow> json" where
  "record_value stored = (let r = se_record stored; envelope = en_envelope (er_entry r) in JObject
     [(''ordinal'', JNumber (unat (er_ordinal r))),
      (''clientId'', text_of (unat (cid_value (ce_client_id envelope)))),
      (''sessionId'', text_of (unat (sid_value (ce_session_id envelope)))),
      (''sessionSequence'', text_of (unat (ce_sequence envelope))),
      (''targetTick'', text_of (unat (ce_target_tick envelope))),
      (''commandType'', JString (command_type_name (ce_type envelope))),
      (''outcome'', JString (if record_was_accepted r then ''accepted'' else ''rejected'')),
      (''rejectionCode'', JString (rejection_name r)),
      (''previousDigest'', JString (digest_to_hex (er_previous_record_digest r))),
      (''recordDigest'', JString (digest_to_hex (se_record_digest stored)))])"

definition bundle_value ::
  "EvidenceArchiveSummary \<Rightarrow> Sha256Digest \<Rightarrow> json list \<Rightarrow> StoredEvidenceRecord list \<Rightarrow>
   CommandEvidenceReplayResult \<Rightarrow> nat \<Rightarrow> nat \<Rightarrow> json"
where
  "bundle_value archive head sessions evidence result accepted rejected = JObject
     [(''schemaVersion'', JNumber 1),
      (''archiveDigest'', JString (digest_to_hex (as_archive_digest archive))),
      (''initialHeadDigest'', JString (digest_to_hex head)),
      (''trustedHeadDigest'', JString (digest_to_hex (as_trusted_head archive))),
      (''importedAtUtc'', JString (normalize_timestamp (as_imported_at_utc archive))),
      (''sessions'', JArray sessions),
      (''evidence'', JArray (map record_value evidence)),
      (''replay'', JObject
        [(''verified'', JBool (replay_verified result)),
         (''finalTick'', text_of (unat (rr_final_tick result))),
         (''finalWorldFingerprint'', text_of (unat (fp_value (rr_final_world_fingerprint result)))),
         (''acceptedCommands'', JNumber accepted),
         (''rejectedCommands'', JNumber rejected)])]"

lemma session_json_text:
  obtains t where "json_text (session_value session projection) t"
    "\<And>followed output. session_json followed session projection output = output @ ''    '' @ t @ line_end followed"
proof
  let ?fields = "field_text 6 ''clientId'' (quoted (decimal (unat (cid_value (ss_client_id session))))) True @
    field_text 6 ''sessionId'' (quoted (decimal (unat (sid_value (ss_session_id session))))) True @
    field_text 6 ''lastCommittedSequence'' (quoted (decimal (unat (pj_last_committed_sequence projection)))) True @
    field_text 6 ''firstTargetTick'' (quoted (decimal (unat (pj_first_target_tick projection)))) True @
    field_text 6 ''lastTargetTick'' (quoted (decimal (unat (pj_last_target_tick projection)))) True @
    field_text 6 ''acceptedCommands'' (decimal (ss_accepted_count session)) True @
    field_text 6 ''rejectedCommands'' (decimal (ss_rejected_count session)) False"
  show "json_text (session_value session projection) (object_lines 4 ?fields)"
    unfolding session_value_def text_of_def append_assoc [symmetric]
    by (rule object_lines_text) (simp only: append_assoc, intro field_more field_last field_values blank_simps)
  show "session_json followed session projection prior = prior @ ''    '' @ object_lines 4 ?fields @ line_end followed" for followed prior
    by (simp add: session_json_def append_fields object_lines_def line_end_def numeral_eq_Suc)
qed

lemma record_json_text:
  obtains t where "json_text (record_value stored) t"
    "\<And>followed output. record_json followed stored output = output @ ''    '' @ t @ line_end followed"
proof
  let ?r = "se_record stored" and ?envelope = "en_envelope (er_entry (se_record stored))"
  let ?fields = "field_text 6 ''ordinal'' (decimal (unat (er_ordinal ?r))) True @
    field_text 6 ''clientId'' (quoted (decimal (unat (cid_value (ce_client_id ?envelope))))) True @
    field_text 6 ''sessionId'' (quoted (decimal (unat (sid_value (ce_session_id ?envelope))))) True @
    field_text 6 ''sessionSequence'' (quoted (decimal (unat (ce_sequence ?envelope)))) True @
    field_text 6 ''targetTick'' (quoted (decimal (unat (ce_target_tick ?envelope)))) True @
    field_text 6 ''commandType'' (quoted (command_type_name (ce_type ?envelope))) True @
    field_text 6 ''outcome'' (quoted (if record_was_accepted ?r then ''accepted'' else ''rejected'')) True @
    field_text 6 ''rejectionCode'' (quoted (rejection_name ?r)) True @
    field_text 6 ''previousDigest'' (quoted (digest_to_hex (er_previous_record_digest ?r))) True @
    field_text 6 ''recordDigest'' (quoted (digest_to_hex (se_record_digest stored))) False"
  show "json_text (record_value stored) (object_lines 4 ?fields)"
    unfolding record_value_def text_of_def Let_def
    by (rule object_lines_text) (simp only: append_assoc, intro field_more field_last field_values blank_simps)
  show "record_json followed stored prior = prior @ ''    '' @ object_lines 4 ?fields @ line_end followed" for followed prior
    by (simp add: record_json_def append_fields object_lines_def line_end_def numeral_eq_Suc Let_def)
qed

lemma sessions_json_text:
  assumes "\<And>session. session \<in> set sessions \<Longrightarrow>
    map_of m (cid_value (ss_client_id session), sid_value (ss_session_id session)) = Some (projection session)"
  obtains ts where "list_all2 json_text (map (\<lambda>session. session_value session (projection session)) sessions) ts"
    "\<And>output. sessions_json m sessions output = Inr (output @ item_lines ts)"
  using assms
proof (induction sessions arbitrary: thesis)
  case Nil
  show ?case by (rule Nil(1) [of "[]"]) simp_all
next
  case (Cons session sessions)
  obtain ts where ts: "list_all2 json_text (map (\<lambda>session. session_value session (projection session)) sessions) ts"
      "\<And>output. sessions_json m sessions output = Inr (output @ item_lines ts)"
    using Cons.IH Cons.prems(2) by (metis list.set_intros(2))
  obtain t where t: "json_text (session_value session (projection session)) t"
      "\<And>followed output. session_json followed session (projection session) output = output @ ''    '' @ t @ line_end followed"
    using session_json_text by blast
  have "sessions = [] \<longleftrightarrow> ts = []"
    using ts(1) by auto
  then show ?case
    using Cons.prems(2) [of session] ts t by (intro Cons.prems(1) [of "t # ts"]) (simp_all add: omap_at_Some)
qed

lemma records_json_text:
  obtains ts where "list_all2 json_text (map record_value evidence) ts"
    "\<And>output. records_json evidence output = output @ item_lines ts"
proof (induction evidence arbitrary: thesis)
  case Nil
  show ?case by (rule Nil [of "[]"]) simp_all
next
  case (Cons stored evidence)
  obtain ts where ts: "list_all2 json_text (map record_value evidence) ts"
      "\<And>output. records_json evidence output = output @ item_lines ts"
    using Cons.IH by blast
  obtain t where t: "json_text (record_value stored) t"
      "\<And>followed output. record_json followed stored output = output @ ''    '' @ t @ line_end followed"
    using record_json_text by blast
  have "evidence = [] \<longleftrightarrow> ts = []"
    using ts(1) by auto
  then show ?case
    using ts t by (intro Cons.prems [of "t # ts"]) simp_all
qed

lemma block_fields:
  "field_text 2 ''sessions'' (array_lines ts) True = quoted_line ''sessions'' ''['' @ item_lines ts @ ''  ],'' @ [CHR 0x0A]"
  "field_text 2 ''evidence'' (array_lines ts) True = quoted_line ''evidence'' ''['' @ item_lines ts @ ''  ],'' @ [CHR 0x0A]"
  "field_text 2 ''replay'' (object_lines 2 body) False = quoted_line ''replay'' ''{'' @ body @ ''  }'' @ [CHR 0x0A]"
  "field_text 2 ''schemaVersion'' (decimal 1) True = field_text 2 ''schemaVersion'' ''1'' True"
  by (simp_all add: field_text_def quoted_line_def quoted_def json_escape_def array_lines_def object_lines_def line_end_def
    decimal.simps hex_digits_def numeral_eq_Suc)

lemma bundle_json_text:
  assumes "\<And>session. session \<in> set sessions \<Longrightarrow>
    map_of (sc_projections s) (cid_value (ss_client_id session), sid_value (ss_session_id session)) = Some (projection session)"
  shows "\<exists>t. bundle_json archive head sessions s evidence result = Inr t \<and>
    json_document (bundle_value archive head (map (\<lambda>session. session_value session (projection session)) sessions)
      evidence result (sc_accepted_count s) (sc_rejected_count s)) t"
proof -
  obtain ts where ts: "list_all2 json_text (map (\<lambda>session. session_value session (projection session)) sessions) ts"
      "\<And>output. sessions_json (sc_projections s) sessions output = Inr (output @ item_lines ts)"
    using sessions_json_text [OF assms] by blast
  obtain us where us: "list_all2 json_text (map record_value evidence) us"
      "\<And>output. records_json evidence output = output @ item_lines us"
    using records_json_text by blast
  let ?replay = "field_text 4 ''verified'' (if replay_verified result then ''true'' else ''false'') True @
    field_text 4 ''finalTick'' (quoted (decimal (unat (rr_final_tick result)))) True @
    field_text 4 ''finalWorldFingerprint'' (quoted (decimal (unat (fp_value (rr_final_world_fingerprint result))))) True @
    field_text 4 ''acceptedCommands'' (decimal (sc_accepted_count s)) True @
    field_text 4 ''rejectedCommands'' (decimal (sc_rejected_count s)) False"
  let ?fields = "field_text 2 ''schemaVersion'' (decimal 1) True @
    field_text 2 ''archiveDigest'' (quoted (digest_to_hex (as_archive_digest archive))) True @
    field_text 2 ''initialHeadDigest'' (quoted (digest_to_hex head)) True @
    field_text 2 ''trustedHeadDigest'' (quoted (digest_to_hex (as_trusted_head archive))) True @
    field_text 2 ''importedAtUtc'' (quoted (normalize_timestamp (as_imported_at_utc archive))) True @
    field_text 2 ''sessions'' (array_lines ts) True @
    field_text 2 ''evidence'' (array_lines us) True @
    field_text 2 ''replay'' (object_lines 2 ?replay) False"
  have verified: "json_text (JBool b) (if b then ''true'' else ''false'')" for b
    by (simp add: text_true text_false)
  have "bundle_json archive head sessions s evidence result = Inr (object_lines 0 ?fields @ [CHR 0x0A])"
    unfolding object_lines_def [of 0] block_fields bundle_json_def header_json_def replay_json_def append_fields ts(2) us(2) Let_def by simp
  moreover have "json_text (bundle_value archive head (map (\<lambda>session. session_value session (projection session)) sessions)
      evidence result (sc_accepted_count s) (sc_rejected_count s)) (object_lines 0 ?fields)"
    unfolding bundle_value_def text_of_def
    by (rule object_lines_text)
      (simp only: append_assoc, intro field_more field_last field_values blank_simps verified array_lines_text ts us object_lines_text;
        simp only: append_assoc; intro field_more field_last field_values blank_simps verified)
  ultimately show ?thesis
    using document_text by fastforce
qed

end
