(* ===== verification/Bundle_Correct.thy ===== *)
theory Bundle_Correct
  imports Exporter
begin

text \<open>
  The loops of the exporter on a store that satisfies its invariant, when no call fails: the
  archive is found on whichever page it is, all pages of the evidence together are exactly
  the records of the archive, and the checks over the evidence and the session summaries
  compute what the records determine.
\<close>

section \<open>Reading never changes the tables\<close>

lemma from_store_eq: "from_store m c = (case m c of (r, c') \<Rightarrow> (map_sum Export_store_exception id r, c'))"
  by (auto simp: from_store_def split: prod.split sum.split)

lemma reading_tables: "reading m \<Longrightarrow> m c = (r, c') \<Longrightarrow> cn_tables c' = cn_tables c"
  by (metis reading_def snd_conv)

lemma find_archive_reading: "cn_tables (snd (find_archive_from i before c)) = cn_tables c"
proof (induction i before c rule: find_archive_from.induct)
  case (1 i before c)
  obtain r c' where m: "list_archives 100 before c = (r, c')" by (cases "list_archives 100 before c")
  then have "cn_tables c' = cn_tables c"
    using reading_tables [OF reading_queries(2)] by blast
  then show ?case
    using 1 m by (subst find_archive_from.simps) (auto split: sum.split option.split)
qed

lemma load_evidence_reading: "cn_tables (snd (load_evidence_from i rs after c)) = cn_tables c"
proof (induction i rs after c rule: load_evidence_from.induct)
  case (1 i rs after c)
  let ?q = "default_query\<lparr>eq_after_ordinal := after, eq_limit := 100\<rparr>"
  obtain r c' where m: "query_evidence i ?q c = (r, c')" by (cases "query_evidence i ?q c")
  then have "cn_tables c' = cn_tables c"
    using reading_tables [OF reading_queries(3)] by blast
  then show ?case
    using 1 m by (subst load_evidence_from.simps) (auto split: sum.split)
qed

section \<open>Finding the archive\<close>

definition archive_summary :: "ArchiveRow \<Rightarrow> EvidenceArchiveSummary" where
  "archive_summary row = \<lparr>as_archive_id = ea_archive_id row, as_source = ea_source row,
     as_imported_at_utc = ea_imported_at_utc row, as_record_count = nat (ea_record_count row),
     as_archive_digest = Sha256Digest (ea_archive_digest row), as_trusted_head = Sha256Digest (ea_trusted_head row),
     as_chain_head = Sha256Digest (ea_declared_head row)\<rparr>"

lemma read_archive_row_stored:
  assumes "archive_stored t row e a"
  shows "read_archive_row row = Inr (archive_summary row)"
proof -
  have dec: "decode_command_evidence_archive e (ca_head_digest a) = Inr (Inr a)"
    using assms by (simp add: archive_stored_def)
  have "digest_ok (ca_head_digest a)" "int (length (ca_records a)) \<le> i64_max" "digest_ok (sha256 e)"
    using decoded_archive(2,8) [OF dec] by simp_all
  then show ?thesis
    using assms
    by (simp add: read_archive_row_def archive_summary_def archive_stored_def store_checked_size_def decode_digest_def digest_ok_def)
qed

lemma meaning_list_archives:
  assumes "store_ok t" and "1 \<le> n" and "n \<le> 1000" and "case before of None \<Rightarrow> True | Some b \<Rightarrow> 0 < b"
  shows "meaning (list_archives n before) t =
    Inr (map archive_summary (take n (rev (sort_key ea_archive_id (archives_before before t)))), t)"
proof -
  have "read_archive_row r = Inr (archive_summary r)" if "r \<in> set (select_archives (int n) before t)" for r
  proof -
    have "r \<in> set (tb_archives t)"
      using that by (auto simp: select_archives_def dest!: in_set_takeD)
    then show ?thesis
      using assms(1) read_archive_row_stored by (auto simp: store_ok_def)
  qed
  then have "map_rows read_archive_row (select_archives (int n) before t) = Inr (map archive_summary (select_archives (int n) before t))"
    by (rule map_rows_Inr)
  moreover have "checked_int64 n = Inr (int n)"
    using assms(3) by (simp add: checked_int64_def)
  ultimately show ?thesis
    using assms
    by (auto simp: list_archives_def validate_limit_def store_ok_def select_archives_def archives_before_def
      meaning_bind_values_eq bindable_def split: option.split)
qed

lemma find_key:
  "distinct (map f xs) \<Longrightarrow> find (\<lambda>x. f x = k) xs = Some x \<longleftrightarrow> x \<in> set xs \<and> f x = k"
  by (induction xs) auto

lemma option_eqI: "(\<And>x. a = Some x \<longleftrightarrow> b = Some x) \<Longrightarrow> a = b"
  by (cases a; cases b) auto

lemma find_map: "find P (map f xs) = map_option f (find (\<lambda>x. P (f x)) xs)"
  by (induction xs) simp_all

text \<open>The archives after a page are those with smaller identifiers than its last one.\<close>

lemma archives_after_page:
  assumes "distinct (map ea_archive_id (tb_archives t))" and "0 < n"
    and "L = rev (sort_key ea_archive_id (archives_before before t))" and "L \<noteq> []" and "k = ea_archive_id (last (take n L))"
  shows "r \<in> set (archives_before (Some k) t) \<longleftrightarrow> r \<in> set (drop n L)"
proof -
  have set_L: "set L = set (archives_before before t)"
    by (simp add: assms(3))
  have d: "distinct (map ea_archive_id L)"
    using assms(1,3) by (auto simp: archives_before_def distinct_map intro: inj_on_subset)
  have "sorted_wrt (\<lambda>x y. ea_archive_id y \<le> ea_archive_id x) L"
    using sorted_sort_key [of ea_archive_id "archives_before before t"]
    by (simp add: assms(3) sorted_wrt_rev sorted_wrt_map)
  then have desc: "sorted_wrt (\<lambda>x y. ea_archive_id y < ea_archive_id x) L"
    using d by (auto simp: sorted_wrt_iff_nth_less distinct_conv_nth order_le_less)
  have nonempty: "take n L \<noteq> []"
    using assms(2,4) by simp
  have split: "L = butlast (take n L) @ last (take n L) # drop n L"
    using append_take_drop_id [of n L] append_butlast_last_id [OF nonempty] by (metis append.assoc append_Cons append_Nil)
  have last: "last (take n L) \<in> set (archives_before before t)"
    using nonempty set_L by (metis in_set_takeD last_in_set)
  have le: "k \<le> ea_archive_id x" if "x \<in> set (butlast (take n L))" for x
    using desc that unfolding assms(5) by (subst (asm) split) (auto simp: sorted_wrt_append)
  have less: "ea_archive_id x < k" if "x \<in> set (drop n L)" for x
    using desc that unfolding assms(5) by (subst (asm) split) (auto simp: sorted_wrt_append)
  have "r \<in> set (archives_before (Some k) t) \<longleftrightarrow> r \<in> set L \<and> ea_archive_id r < k"
    using last unfolding set_L assms(5) by (auto simp: archives_before_def split: option.split_asm)
  moreover have "set L = set (butlast (take n L)) \<union> {last (take n L)} \<union> set (drop n L)"
    by (subst split) auto
  ultimately show ?thesis
    using le less assms(5) by (auto simp: not_less [symmetric])
qed

lemma find_archive_run:
  assumes "store_ok (cn_tables c)" and "healthy c" and "case before of None \<Rightarrow> True | Some b \<Rightarrow> 0 < b"
  shows "\<exists>c'. find_archive_from i before c =
    ((case find (\<lambda>r. ea_archive_id r = i) (archives_before before (cn_tables c)) of
        None \<Rightarrow> Inl (InvestigationBundleExportError Export_archive_not_found)
      | Some row \<Rightarrow> Inr (archive_summary row)), c') \<and> cn_tables c' = cn_tables c \<and> healthy c'"
  using assms
proof (induction i before c rule: find_archive_from.induct)
  case (1 i before c)
  define L where "L = rev (sort_key ea_archive_id (archives_before before (cn_tables c)))"
  let ?page = "map archive_summary (take 100 L)"
  have set_L: "set L = set (archives_before before (cn_tables c))"
    by (simp add: L_def)
  have ids: "distinct (map ea_archive_id (tb_archives (cn_tables c)))"
    using "1.prems"(1) by (simp add: store_ok_def)
  then have d: "distinct (map ea_archive_id (archives_before b (cn_tables c)))" for b
    by (simp add: archives_before_def distinct_map_filter)
  have dL: "distinct (map ea_archive_id (take 100 L))"
    using d [of before] by (simp add: L_def rev_map distinct_map take_map [symmetric])
  have m: "meaning (list_archives 100 before) (cn_tables c) = Inr (?page, cn_tables c)"
    unfolding L_def by (rule meaning_list_archives) (use "1.prems" in simp_all)
  obtain c' where page: "list_archives 100 before c = (Inr ?page, c')" "cn_tables c' = cn_tables c" "healthy c'"
    using healthy_run [OF stable_queries(2) "1.prems"(2) m] .
  show ?case
  proof (cases "L = []")
    case True
    then have "archives_before before (cn_tables c) = []"
      using set_L by simp
    then show ?thesis
      using True page by (subst find_archive_from.simps) simp
  next
    case False
    show ?thesis
    proof (cases "find (\<lambda>r. ea_archive_id r = i) (take 100 L)")
      case (Some row)
      then have "row \<in> set (archives_before before (cn_tables c))" "ea_archive_id row = i"
        using find_key [OF dL] set_L by (auto dest: in_set_takeD)
      then have "find (\<lambda>r. ea_archive_id r = i) (archives_before before (cn_tables c)) = Some row"
        using find_key [OF d] by blast
      then show ?thesis
        using Some False page by (subst find_archive_from.simps) (simp add: find_map archive_summary_def)
    next
      case None
      let ?k = "ea_archive_id (last (take 100 L))"
      have last: "last ?page = archive_summary (last (take 100 L))" "last (take 100 L) \<in> set L"
        using False by (simp_all add: last_map) (metis False in_set_takeD last_in_set take_eq_Nil zero_neq_numeral)
      then have "0 < ?k"
        using "1.prems"(1) set_L by (auto simp: store_ok_def archives_before_def archive_stored_def)
      have "find (\<lambda>r. ea_archive_id r = i) (archives_before (Some ?k) (cn_tables c)) =
          find (\<lambda>r. ea_archive_id r = i) (archives_before before (cn_tables c))"
      proof (rule option_eqI)
        fix r
        have "r \<in> set L \<longleftrightarrow> r \<in> set (take 100 L) \<or> r \<in> set (drop 100 L)"
          by (metis Un_iff append_take_drop_id set_append)
        moreover have "r \<in> set (take 100 L) \<Longrightarrow> ea_archive_id r \<noteq> i"
          using None by (auto simp: find_None_iff)
        ultimately show "find (\<lambda>r. ea_archive_id r = i) (archives_before (Some ?k) (cn_tables c)) = Some r \<longleftrightarrow>
            find (\<lambda>r. ea_archive_id r = i) (archives_before before (cn_tables c)) = Some r"
          unfolding find_key [OF d] archives_after_page [OF ids _ L_def False refl, of 100, simplified] set_L [symmetric] by blast
      qed
      moreover have "find_archive_from i before c = find_archive_from i (Some ?k) c'"
        using None False page(1) last(1) by (subst find_archive_from.simps) (simp add: find_map archive_summary_def)
      moreover have "\<exists>d. find_archive_from i (Some ?k) c' =
          ((case find (\<lambda>r. ea_archive_id r = i) (archives_before (Some ?k) (cn_tables c')) of
              None \<Rightarrow> Inl (InvestigationBundleExportError Export_archive_not_found)
            | Some row \<Rightarrow> Inr (archive_summary row)), d) \<and> cn_tables d = cn_tables c' \<and> healthy d"
      proof -
        have "as_archive_id (last ?page) = ?k"
          using last(1) by (simp add: archive_summary_def)
        then show ?thesis
          using "1.IH" [OF page(1) [symmetric] refl] False None page "1.prems"(1) \<open>0 < ?k\<close>
          by (simp add: find_map archive_summary_def)
      qed
      ultimately show ?thesis
        using page(2) by simp
    qed
  qed
qed

section \<open>Loading the evidence\<close>

lemma numbered_nth: "numbered 0 rs \<Longrightarrow> k < length rs \<Longrightarrow> unat (er_ordinal (rs ! k)) = k"
  by (simp add: numbered_def unsigned_of_nat take_bit_nat_eq_self)

lemma ordinals_after:
  assumes "numbered 0 rs" and "k < length rs"
  shows "filter (record_matches (default_query\<lparr>eq_after_ordinal := Some (er_ordinal (rs ! k)), eq_limit := n\<rparr>)) rs = drop (Suc k) rs"
proof -
  let ?P = "record_matches (default_query\<lparr>eq_after_ordinal := Some (er_ordinal (rs ! k)), eq_limit := n\<rparr>)"
  have P: "?P r \<longleftrightarrow> unat (er_ordinal (rs ! k)) < unat (er_ordinal r)" for r
    by (simp add: record_matches_def default_query_def word_less_nat_alt)
  have idx: "?P (rs ! j) \<longleftrightarrow> k < j" if "j < length rs" for j
    using numbered_nth [OF assms(1)] that assms(2) by (simp add: P)
  have "filter ?P (take (Suc k) rs) = []"
    using idx assms(2) by (auto simp: filter_empty_conv in_set_conv_nth)
  moreover have "filter ?P (drop (Suc k) rs) = drop (Suc k) rs"
    using idx by (auto simp: filter_id_conv in_set_conv_nth)
  ultimately show ?thesis
    by (metis append_take_drop_id append_Nil filter_append)
qed

lemma append_page_ascending:
  "sorted_wrt (\<lambda>a b. er_ordinal (se_record a) < er_ordinal (se_record b)) (xs @ page) \<Longrightarrow> append_page xs page = Inr (xs @ page)"
proof (induction xs page rule: append_page.induct)
  case (2 xs stored page)
  then have "xs \<noteq> [] \<Longrightarrow> er_ordinal (se_record (last xs)) < er_ordinal (se_record stored)"
    by (auto simp: sorted_wrt_append)
  then show ?case
    using 2 by auto
qed simp

lemma stored_ascending:
  "numbered 0 rs \<Longrightarrow> sorted_wrt (\<lambda>a b. er_ordinal (se_record a) < er_ordinal (se_record b)) (map (stored_record i) rs)"
  using numbered_ascending [of rs] by (simp add: sorted_wrt_map stored_record_def)

text \<open>With the first \<open>k\<close> records loaded, the loop loads the rest.\<close>

lemma load_evidence_run:
  assumes "tb_created (cn_tables c)" and "archive_stored (cn_tables c) row e a" and "healthy c"
    and "k \<le> length (ca_records a)"
    and "after_ordinal = (if k = 0 then None else Some (er_ordinal (ca_records a ! (k - 1))))"
  shows "\<exists>c'. load_evidence_from (ea_archive_id row) (map (stored_record (ea_archive_id row)) (take k (ca_records a))) after_ordinal c =
    (Inr (map (stored_record (ea_archive_id row)) (ca_records a)), c') \<and> cn_tables c' = cn_tables c \<and> healthy c'"
  using assms
proof (induction "length (ca_records a) - k" arbitrary: k after_ordinal c rule: less_induct)
  case less
  let ?i = "ea_archive_id row" and ?rs = "ca_records a"
  let ?q = "default_query\<lparr>eq_after_ordinal := after_ordinal, eq_limit := 100\<rparr>"
  let ?page = "map (stored_record ?i) (take 100 (drop k ?rs))"
  have num: "numbered 0 ?rs"
    using less.prems(2) decoded_archive(7) unfolding archive_stored_def by blast
  have "filter (record_matches ?q) ?rs = drop k ?rs"
  proof (cases k)
    case 0
    then show ?thesis
      using less.prems(5) by (simp add: record_matches_def default_query_def)
  next
    case (Suc j)
    then show ?thesis
      using ordinals_after [OF num, of j] less.prems(4,5) by simp
  qed
  moreover have "query_ok ?q"
    by (simp add: query_ok_def default_query_def)
  ultimately have m: "meaning (query_evidence ?i ?q) (cn_tables c) = Inr (?page, cn_tables c)"
    using meaning_query [OF less.prems(1,2), of ?q] by simp
  obtain c' where page: "query_evidence ?i ?q c = (Inr ?page, c')" "cn_tables c' = cn_tables c" "healthy c'"
    using healthy_run [OF stable_queries(3) less.prems(3) m] .
  have split: "take (k + 100) ?rs = take k ?rs @ take 100 (drop k ?rs)"
    by (simp add: take_add)
  have app: "append_page (map (stored_record ?i) (take k ?rs)) ?page = Inr (map (stored_record ?i) (take (k + 100) ?rs))"
    using append_page_ascending [of "map (stored_record ?i) (take k ?rs)" ?page]
      sorted_wrt_take [OF stored_ascending [OF num, of ?i], of "k + 100"]
    by (simp add: take_map split)
  show ?case
  proof (cases "k + 100 \<le> length ?rs")
    case False
    then have "take (k + 100) ?rs = ?rs" "drop k ?rs = [] \<Longrightarrow> take k ?rs = ?rs"
      using less.prems(4) by simp_all
    then show ?thesis
      using page app False by (subst load_evidence_from.simps) auto
  next
    case True
    have last: "er_ordinal (se_record (last ?page)) = er_ordinal (?rs ! (k + 100 - 1))"
      using True by (simp add: last_conv_nth stored_record_def add.commute)
    have "load_evidence_from ?i (map (stored_record ?i) (take k ?rs)) after_ordinal c =
        load_evidence_from ?i (map (stored_record ?i) (take (k + 100) ?rs)) (Some (er_ordinal (se_record (last ?page)))) c'"
      using page app True by (subst load_evidence_from.simps) auto
    moreover have "\<exists>d. load_evidence_from ?i (map (stored_record ?i) (take (k + 100) ?rs)) (Some (er_ordinal (se_record (last ?page)))) c' =
        (Inr (map (stored_record ?i) ?rs), d) \<and> cn_tables d = cn_tables c' \<and> healthy d"
      using less.prems(1,2) page(2,3) True last by (intro less.hyps) auto
    ultimately show ?thesis
      using page(2) by simp
  qed
qed

section \<open>Checking the evidence\<close>

lemma accepted_iff: "record_ok r \<Longrightarrow> record_was_accepted r \<longleftrightarrow> accepted_record r"
  by (auto simp: record_ok_def entry_invariants_def answer_code_def record_was_accepted_def accepted_record_def split: if_split_asm)

definition json_range :: export_exception where
  "json_range = InvestigationBundleExportError Export_json_integer_out_of_range"

lemma require_json_integer_eq: "require_json_integer n = (if n \<le> 2147483647 then Inr () else Inl json_range)"
  by (simp add: require_json_integer_def json_range_def)

lemma scan_evidence_linked:
  assumes "links record_digest er_previous_record_digest (sc_expected_digest s) rs h"
  shows "scan_evidence (map (stored_record i) rs) s =
    (if \<exists>r \<in> set rs. unat (er_ordinal r) > 2147483647 then Inl json_range
     else Inr \<lparr>sc_expected_digest = h, sc_projections = fold project_record rs (sc_projections s),
       sc_accepted_count = sc_accepted_count s + length (filter record_was_accepted rs),
       sc_rejected_count = sc_rejected_count s + length (filter (\<lambda>r. \<not> record_was_accepted r) rs)\<rparr>)"
  using assms
proof (induction rs arbitrary: s)
  case (Cons r rs)
  then show ?case
    by (auto simp: require_json_integer_eq stored_record_def Let_def)
qed simp

text \<open>What the projection of a session should be, from the records of the session.\<close>

definition projection_of :: "CommandEvidenceRecord list \<Rightarrow> SessionProjection" where
  "projection_of xs = \<lparr>pj_initialized = True,
     pj_last_committed_sequence = en_session_sequence_after (er_entry (last xs)),
     pj_first_target_tick = ce_target_tick (en_envelope (er_entry (hd xs))),
     pj_last_target_tick = ce_target_tick (en_envelope (er_entry (last xs)))\<rparr>"

lemma omap_ok_projections: "omap_ok m \<Longrightarrow> omap_ok (fold project_record rs m)"
proof (induction rs arbitrary: m)
  case (Cons r rs)
  then show ?case
    by (auto simp: project_record_def Let_def omap_ok_emplace split: option.split)
qed simp

lemma project_record_lookup:
  assumes "omap_ok m" and "pred_option pj_initialized (map_of m (session_key r))"
  shows "map_of (project_record r m) = (map_of m)(session_key r \<mapsto>
    (case map_of m (session_key r) of
       None \<Rightarrow> projection_of [r]
     | Some p \<Rightarrow> p\<lparr>pj_last_target_tick := ce_target_tick (en_envelope (er_entry r)),
         pj_last_committed_sequence := en_session_sequence_after (er_entry r)\<rparr>))"
  using assms by (auto simp: project_record_def Let_def map_of_omap_emplace projection_of_def split: option.split)

lemma projections_lookup:
  "map_of (fold project_record rs []) k = (if of_session k rs = [] then None else Some (projection_of (of_session k rs)))"
proof (induction rs arbitrary: k rule: rev_induct)
  case (snoc r rs)
  have ok: "omap_ok (fold project_record rs [])"
    by (rule omap_ok_projections) (simp add: omap_ok_def)
  have "pred_option pj_initialized (map_of (fold project_record rs []) (session_key r))"
    using snoc [of "session_key r"] by (simp add: projection_of_def)
  note lookup = project_record_lookup [OF ok this]
  show ?case
  proof (cases "session_key r = k")
    case True
    then show ?thesis
      using snoc [of k] by (auto simp: lookup of_session_def projection_of_def hd_append)
  next
    case False
    then show ?thesis
      using snoc [of k] by (auto simp: lookup of_session_def)
  qed
qed (simp add: of_session_def)

lemma projection_keys: "map fst (fold project_record rs []) = sorted_list_of_set (session_key ` set rs)"
  by (rule keys_of_sessions, rule omap_ok_projections) (simp_all add: projections_lookup omap_ok_def)

section \<open>Checking the sessions\<close>

lemma scan_sessions_counts:
  assumes "\<And>session. session \<in> set sessions \<Longrightarrow> omap_contains m (cid_value (ss_client_id session), sid_value (ss_session_id session))"
    and "fst totals < u64_limit" and "snd totals < u64_limit"
  shows "scan_sessions m sessions totals =
    (if \<exists>session \<in> set sessions. ss_accepted_count session > 2147483647 \<or> ss_rejected_count session > 2147483647
     then Inl json_range
     else Inr ((fst totals + sum_list (map ss_accepted_count sessions)) mod u64_limit,
               (snd totals + sum_list (map ss_rejected_count sessions)) mod u64_limit))"
  using assms
proof (induction sessions arbitrary: totals)
  case (Cons session sessions)
  then show ?case
    by (auto simp: require_json_integer_eq mod_add_left_eq add.assoc)
qed simp

text \<open>Splitting the records by session loses none.\<close>

lemma sessions_partition:
  "(\<Sum>k \<in> session_key ` set rs. length (filter P (of_session k rs))) = length (filter P rs)"
proof -
  have "(\<Sum>k \<in> K. length (filter P (of_session k rs))) = length (filter P rs)" if "finite K" "session_key ` set rs \<subseteq> K" for K
    using that(2)
  proof (induction rs)
    case (Cons r rs)
    have "length (filter P (of_session k (r # rs))) =
        (if k = session_key r \<and> P r then 1 else 0) + length (filter P (of_session k rs))" for k
      by (auto simp: of_session_def)
    then show ?case
      using Cons that(1) by (simp add: sum.distrib)
  qed (simp add: of_session_def)
  then show ?thesis by simp
qed

end
