(* ===== verification/Json_Reader.thy ===== *)
theory Json_Reader
  imports Json
begin

text \<open>
  A JSON text denotes at most one value. The reader below consumes one value from the front
  of a text; whenever the grammar lets a text denote a value, the reader returns that value
  and leaves what follows, given enough steps. It accepts more than the grammar (a number
  may have leading zeros), which does not matter for this purpose.
\<close>

definition is_blank :: "char \<Rightarrow> bool" where
  "is_blank c \<longleftrightarrow> c = CHR 0x20 \<or> c = CHR 0x09 \<or> c = CHR 0x0A \<or> c = CHR 0x0D"

definition skip :: "string \<Rightarrow> string" where
  "skip s = dropWhile is_blank s"

definition starts :: "char \<Rightarrow> string \<Rightarrow> bool" where
  "starts c s \<longleftrightarrow> s \<noteq> [] \<and> hd s = c"

fun read_value :: "nat \<Rightarrow> string \<Rightarrow> (json \<times> string) option"
  and read_elements :: "nat \<Rightarrow> string \<Rightarrow> (json list \<times> string) option"
  and read_members :: "nat \<Rightarrow> string \<Rightarrow> ((string \<times> json) list \<times> string) option"
where
  "read_value 0 s = None"
| "read_value (Suc n) s0 = (let s = skip s0 in
     if starts (CHR 0x22) s then map_option (apfst JString) (read_json_string (tl s))
     else if starts (CHR ''['') s then
       (if starts (CHR '']'') (skip (tl s)) then Some (JArray [], tl (skip (tl s)))
        else map_option (apfst JArray) (read_elements n (tl s)))
     else if starts (CHR ''{'') s then
       (if starts (CHR ''}'') (skip (tl s)) then Some (JObject [], tl (skip (tl s)))
        else map_option (apfst JObject) (read_members n (tl s)))
     else if starts (CHR ''t'') s then Some (JBool True, drop 4 s)
     else if starts (CHR ''f'') s then Some (JBool False, drop 5 s)
     else Some (JNumber (digits_value (takeWhile is_digit s)), dropWhile is_digit s))"
| "read_elements 0 s = None"
| "read_elements (Suc n) s = (case read_value n s of
     None \<Rightarrow> None
   | Some (v, r0) \<Rightarrow> (let r = skip r0 in
       if starts (CHR '','') r then map_option (apfst (Cons v)) (read_elements n (tl r))
       else if starts (CHR '']'') r then Some ([v], tl r) else None))"
| "read_members 0 s = None"
| "read_members (Suc n) s0 = (let s = skip s0 in
     if \<not> starts (CHR 0x22) s then None
     else case read_json_string (tl s) of
       None \<Rightarrow> None
     | Some (k, r) \<Rightarrow>
         if \<not> starts (CHR '':'') (skip r) then None
         else (case read_value n (tl (skip r)) of
           None \<Rightarrow> None
         | Some (v, r0) \<Rightarrow> (let r = skip r0 in
             if starts (CHR '','') r then map_option (apfst (Cons (k, v))) (read_members n (tl r))
             else if starts (CHR ''}'') r then Some ([(k, v)], tl r) else None)))"

section \<open>Blanks and literals\<close>

lemma skip_blank [simp]: "blank w \<Longrightarrow> skip (w @ s) = skip s"
  by (induction w) (auto simp: skip_def blank_def is_blank_def)

lemma skip_char [simp]: "skip (c # s) = (if is_blank c then skip s else c # s)"
  by (simp add: skip_def)

lemma is_blank_simps [simp]:
  "\<not> is_blank (CHR 0x22)" "\<not> is_blank (CHR ''['')" "\<not> is_blank (CHR '']'')" "\<not> is_blank (CHR ''{'')" "\<not> is_blank (CHR ''}'')"
  "\<not> is_blank (CHR '','')" "\<not> is_blank (CHR '':'')" "\<not> is_blank (CHR ''t'')" "\<not> is_blank (CHR ''f'')"
  by (simp_all add: is_blank_def)

lemma starts_Cons [simp]: "starts c (d # s) \<longleftrightarrow> d = c"
  by (simp add: starts_def)

lemma read_string_append:
  "read_json_string s = Some (v, r) \<Longrightarrow> read_json_string (s @ u) = Some (v, r @ u)"
proof (induction s arbitrary: v rule: read_json_string.induct)
  case (2 c s)
  then show ?case
    by (auto split: if_split_asm list.split_asm option.split_asm)
qed simp

lemma json_string_read:
  assumes "json_string v t"
  obtains s where "t = CHR 0x22 # s" "\<forall>u. read_json_string (s @ u) = Some (v, u)"
  using assms read_string_append [of _ v "[]"] by (cases t) (auto simp: json_string_def)

section \<open>The reader follows the grammar\<close>

text \<open>What may follow a value: a digit would be read as part of a number.\<close>

definition ends :: "string \<Rightarrow> bool" where
  "ends s \<longleftrightarrow> (s \<noteq> [] \<longrightarrow> \<not> is_digit (hd s))"

lemma ends_simps [simp]: "ends []" "ends (c # s) \<longleftrightarrow> \<not> is_digit c"
  by (simp_all add: ends_def)

lemma is_digit_simps [simp]:
  "\<not> is_digit (CHR '','')" "\<not> is_digit (CHR '']'')" "\<not> is_digit (CHR ''}'')" "\<not> is_digit (CHR 0x20)" "\<not> is_digit (CHR 0x09)"
  "\<not> is_digit (CHR 0x0A)" "\<not> is_digit (CHR 0x0D)"
  by (simp_all add: is_digit_def)

lemma ends_blank [simp]: "blank b \<Longrightarrow> ends (b @ s) \<longleftrightarrow> b \<noteq> [] \<or> ends s"
  by (cases b) (auto simp: blank_def)

lemma read_value_blank [simp]: "blank w \<Longrightarrow> read_value n (w @ s) = read_value n s"
  by (cases n) simp_all

text \<open>The first character of a value.\<close>

lemma digit_first:
  assumes "is_digit c"
  shows "\<not> is_blank c" "c \<noteq> CHR 0x22" "c \<noteq> CHR ''[''" "c \<noteq> CHR ''{''" "c \<noteq> CHR ''t''" "c \<noteq> CHR ''f''"
    "c \<noteq> CHR '']''" "c \<noteq> CHR ''}''"
  using assms by (auto simp: is_digit_def is_blank_def)

lemma json_text_first:
  assumes "json_text v t"
  obtains c u where "t = c # u" "\<not> is_blank c" "c \<noteq> CHR '']''" "c \<noteq> CHR ''}''"
  using assms
proof cases
  case (text_string w)
  obtain s where "t = CHR 0x22 # s"
    using text_string(2) by (rule json_string_read)
  then show thesis
    using that by simp
next
  case (text_number n)
  then obtain c u where "t = c # u" "is_digit c"
    by (cases t) (auto simp: json_number_def)
  then show thesis
    using that digit_first [of c] by blast
qed (use that in auto)

lemma elements_first: "json_elements vs t \<Longrightarrow> \<not> starts (CHR '']'') (skip (t @ s))"
  using json_text_first by (erule_tac json_elements.cases) (fastforce dest: json_text_first)+

lemma members_first: "json_members ms t \<Longrightarrow> \<not> starts (CHR ''}'') (skip (t @ s))"
  by (erule json_members.cases) (auto simp: json_string_def split: list.split_asm)

definition reads_value :: "json \<Rightarrow> string \<Rightarrow> bool" where
  "reads_value v t \<longleftrightarrow> (\<exists>m. \<forall>n \<ge> m. \<forall>s. ends s \<longrightarrow> read_value n (t @ s) = Some (v, s))"

definition reads_elements :: "json list \<Rightarrow> string \<Rightarrow> bool" where
  "reads_elements vs t \<longleftrightarrow> (\<exists>m. \<forall>n \<ge> m. \<forall>s. read_elements n (t @ CHR '']'' # s) = Some (vs, s))"

definition reads_members :: "(string \<times> json) list \<Rightarrow> string \<Rightarrow> bool" where
  "reads_members ms t \<longleftrightarrow> (\<exists>m. \<forall>n \<ge> m. \<forall>s. read_members n (t @ CHR ''}'' # s) = Some (ms, s))"

lemma reads_valueI: "(\<And>n s. m \<le> n \<Longrightarrow> ends s \<Longrightarrow> read_value (Suc n) (t @ s) = Some (v, s)) \<Longrightarrow> reads_value v t"
  unfolding reads_value_def by (metis Suc_le_D Suc_le_mono)

lemma reads_elementsI: "(\<And>n s. m \<le> n \<Longrightarrow> read_elements (Suc n) (t @ CHR '']'' # s) = Some (vs, s)) \<Longrightarrow> reads_elements vs t"
  unfolding reads_elements_def by (metis Suc_le_D Suc_le_mono)

lemma reads_membersI: "(\<And>n s. m \<le> n \<Longrightarrow> read_members (Suc n) (t @ CHR ''}'' # s) = Some (ms, s)) \<Longrightarrow> reads_members ms t"
  unfolding reads_members_def by (metis Suc_le_D Suc_le_mono)

lemma reads_number:
  assumes "json_number n t"
  shows "reads_value (JNumber n) t"
proof (rule reads_valueI)
  fix k s
  assume "ends s"
  obtain c u where t: "t = c # u" "is_digit c" "list_all is_digit u" "digits_value t = n"
    using assms by (cases t) (auto simp: json_number_def)
  have "takeWhile is_digit (t @ s) = t" "dropWhile is_digit (t @ s) = s"
    using t \<open>ends s\<close> by (cases s; auto simp: takeWhile_append2 list_all_iff ends_def)+
  then show "read_value (Suc k) (t @ s) = Some (JNumber n, s)"
    using t(1,4) digit_first [OF t(2)] by simp
qed

lemma reads_string: "json_string v t \<Longrightarrow> reads_value (JString v) t"
  by (rule reads_valueI [of 0]) (auto elim!: json_string_read)

lemma reads_array:
  assumes "json_elements vs t" and "reads_elements vs t"
  shows "reads_value (JArray vs) (''['' @ t @ '']'')"
proof -
  obtain m where "\<forall>n \<ge> m. \<forall>s. read_elements n (t @ CHR '']'' # s) = Some (vs, s)"
    using assms(2) by (auto simp: reads_elements_def)
  then show ?thesis
    using elements_first [OF assms(1)] by (intro reads_valueI [of m]) simp
qed

lemma reads_object:
  assumes "json_members ms t" and "reads_members ms t"
  shows "reads_value (JObject ms) (''{'' @ t @ ''}'')"
proof -
  obtain m where "\<forall>n \<ge> m. \<forall>s. read_members n (t @ CHR ''}'' # s) = Some (ms, s)"
    using assms(2) by (auto simp: reads_members_def)
  then show ?thesis
    using members_first [OF assms(1)] by (intro reads_valueI [of m]) simp
qed

lemma reads_last_element:
  assumes "blank a" and "reads_value v t" and "blank b"
  shows "reads_elements [v] (a @ t @ b)"
proof -
  obtain m where m: "\<forall>n \<ge> m. \<forall>s. ends s \<longrightarrow> read_value n (t @ s) = Some (v, s)"
    using assms(2) by (auto simp: reads_value_def)
  show ?thesis
    using m assms(1,3) by (intro reads_elementsI [of m]) simp
qed

lemma reads_more_elements:
  assumes "blank a" and "reads_value v t" and "blank b" and "reads_elements vs u"
  shows "reads_elements (v # vs) (a @ t @ b @ '','' @ u)"
proof -
  obtain m k where m: "\<forall>n \<ge> m. \<forall>s. ends s \<longrightarrow> read_value n (t @ s) = Some (v, s)"
      "\<forall>n \<ge> k. \<forall>s. read_elements n (u @ CHR '']'' # s) = Some (vs, s)"
    using assms(2,4) by (auto simp: reads_value_def reads_elements_def)
  show ?thesis
    using m assms(1,3) by (intro reads_elementsI [of "max m k"]) simp
qed

lemma reads_last_member:
  assumes "blank a" and "json_string k s" and "blank b" and "blank c" and "reads_value v t" and "blank d"
  shows "reads_members [(k, v)] (a @ s @ b @ '':'' @ c @ t @ d)"
proof -
  obtain m where m: "\<forall>n \<ge> m. \<forall>s. ends s \<longrightarrow> read_value n (t @ s) = Some (v, s)"
    using assms(5) by (auto simp: reads_value_def)
  obtain s' where s: "s = CHR 0x22 # s'" "\<forall>u. read_json_string (s' @ u) = Some (k, u)"
    using assms(2) by (rule json_string_read)
  show ?thesis
    using m s assms(1,3,4,6) by (intro reads_membersI [of m]) simp
qed

lemma reads_more_members:
  assumes "blank a" and "json_string k s" and "blank b" and "blank c" and "reads_value v t" and "blank d" and "reads_members ms u"
  shows "reads_members ((k, v) # ms) (a @ s @ b @ '':'' @ c @ t @ d @ '','' @ u)"
proof -
  obtain m j where m: "\<forall>n \<ge> m. \<forall>s. ends s \<longrightarrow> read_value n (t @ s) = Some (v, s)"
      "\<forall>n \<ge> j. \<forall>s. read_members n (u @ CHR ''}'' # s) = Some (ms, s)"
    using assms(5,7) by (auto simp: reads_value_def reads_members_def)
  obtain s' where s: "s = CHR 0x22 # s'" "\<forall>u. read_json_string (s' @ u) = Some (k, u)"
    using assms(2) by (rule json_string_read)
  show ?thesis
    using m s assms(1,3,4,6) by (intro reads_membersI [of "max m j"]) simp
qed

lemma reads_constants:
  "reads_value (JBool True) ''true''" "reads_value (JBool False) ''false''"
  "blank w \<Longrightarrow> reads_value (JArray []) (''['' @ w @ '']'')" "blank w \<Longrightarrow> reads_value (JObject []) (''{'' @ w @ ''}'')"
  by (rule reads_valueI [of 0]; simp)+

lemma grammar_reads:
  "(json_text v t \<longrightarrow> reads_value v t) \<and> (json_elements vs us \<longrightarrow> reads_elements vs us) \<and> (json_members ms ts \<longrightarrow> reads_members ms ts)"
  by (rule json_text_json_elements_json_members.induct)
    (blast intro: reads_string reads_number reads_constants reads_array reads_object reads_last_element
      reads_more_elements reads_last_member reads_more_members)+

text \<open>A document denotes one value.\<close>

lemma json_document_unique:
  assumes "json_document v t" and "json_document v' t"
  shows "v = v'"
proof -
  have read: "\<exists>m. \<forall>n \<ge> m. \<exists>s. read_value n t = Some (w, s)" if doc: "json_document w t" for w
  proof -
    obtain a b u where d: "blank a" "blank b" "json_text w u" "t = a @ u @ b"
      using doc unfolding json_document_def by blast
    have "reads_value w u"
      using d(3) grammar_reads by blast
    then obtain m where "\<forall>n \<ge> m. \<forall>s. ends s \<longrightarrow> read_value n (u @ s) = Some (w, s)"
      unfolding reads_value_def by blast
    moreover have "ends b"
      using d(2) ends_blank [of b "[]"] by simp
    ultimately show ?thesis
      using d by (intro exI [of _ m]) simp
  qed
  obtain m m' where "\<forall>n \<ge> m. \<exists>s. read_value n t = Some (v, s)" "\<forall>n \<ge> m'. \<exists>s. read_value n t = Some (v', s)"
    using read [OF assms(1)] read [OF assms(2)] by blast
  then obtain s s' where "read_value (max m m') t = Some (v, s)" "read_value (max m m') t = Some (v', s')"
    by (meson max.cobounded1 max.cobounded2)
  then show ?thesis by simp
qed

text \<open>The text is a document with exactly this value.\<close>

definition denotes :: "string \<Rightarrow> json \<Rightarrow> bool" where
  "denotes t v \<longleftrightarrow> (\<forall>w. json_document w t \<longleftrightarrow> w = v)"

lemma document_denotes: "json_document v t \<Longrightarrow> denotes t v"
  using json_document_unique by (auto simp: denotes_def)

end
