(* ===== verification/Export_Properties.thy ===== *)
theory Export_Properties
  imports Bundle_Text Bundle_Correct Json_Reader
begin

text \<open>
  The properties of the bundle exporter: on every reachable store the exported text is the
  JSON document of the stored archive, its checks never fail on what the store wrote, and an
  export never changes the store.
\<close>

section \<open>Running an export\<close>

definition exported_value :: "ArchiveRow \<Rightarrow> CommandEvidenceRecord list \<Rightarrow> CommandEvidenceReplayResult \<Rightarrow> json" where
  "exported_value row rs result = bundle_value (archive_summary row) Sha256Digest_zero
     (map (\<lambda>k. session_value (session_summary k rs) (projection_of (of_session k rs)))
       (sorted_list_of_set (session_key ` set rs)))
     (map (stored_record (ea_archive_id row)) rs) result
     (length (filter record_was_accepted rs)) (length (filter (\<lambda>r. \<not> record_was_accepted r) rs))"

lemma session_summary_key [simp]:
  "cid_value (ss_client_id (session_summary k rs)) = fst k" "sid_value (ss_session_id (session_summary k rs)) = snd k"
  by (simp_all add: session_summary_def Let_def)

lemma session_totals:
  assumes "list_all record_ok rs"
  shows "sum_list (map ss_accepted_count (map (\<lambda>k. session_summary k rs) (sorted_list_of_set (session_key ` set rs)))) =
      length (filter record_was_accepted rs)"
    and "sum_list (map ss_rejected_count (map (\<lambda>k. session_summary k rs) (sorted_list_of_set (session_key ` set rs)))) =
      length (filter (\<lambda>r. \<not> record_was_accepted r) rs)"
proof -
  have a: "filter record_was_accepted rs = filter accepted_record rs"
    using assms by (auto simp: list_all_iff accepted_iff intro!: filter_cong)
  have r: "filter (\<lambda>r. \<not> record_was_accepted r) rs = filter (\<lambda>r. \<not> accepted_record r) rs"
    using assms by (auto simp: list_all_iff accepted_iff intro!: filter_cong)
  have sum: "sum_list (map f (sorted_list_of_set (session_key ` set rs))) = sum f (session_key ` set rs)" for f :: "session_key \<Rightarrow> nat"
    by (simp add: sum_list_distinct_conv_sum_set)
  show "sum_list (map ss_accepted_count (map (\<lambda>k. session_summary k rs) (sorted_list_of_set (session_key ` set rs)))) =
      length (filter record_was_accepted rs)"
    unfolding map_map comp_def sum a by (simp add: session_summary_def Let_def sessions_partition)
  show "sum_list (map ss_rejected_count (map (\<lambda>k. session_summary k rs) (sorted_list_of_set (session_key ` set rs)))) =
      length (filter (\<lambda>r. \<not> record_was_accepted r) rs)"
    unfolding map_map comp_def sum r by (simp add: session_summary_def Let_def sessions_partition)
qed

lemma initial_head_zero:
  "links record_digest er_previous_record_digest Sha256Digest_zero rs h \<Longrightarrow> initial_head (map (stored_record i) rs) = Sha256Digest_zero"
  by (cases rs) (simp_all add: initial_head_def stored_record_def)

lemma stored_links:
  assumes "archive_stored t row e a"
  shows "links record_digest er_previous_record_digest Sha256Digest_zero (ca_records a) (ca_head_digest a)"
  using assms by (simp add: archive_stored_def decode_archive_iff archive_ok_def verify_chain_eq)

text \<open>The running variables after the loop over the evidence of an archive.\<close>

definition scanned :: "CommandEvidenceArchive \<Rightarrow> EvidenceScan" where
  "scanned a = \<lparr>sc_expected_digest = ca_head_digest a, sc_projections = fold project_record (ca_records a) [],
     sc_accepted_count = length (filter record_was_accepted (ca_records a)),
     sc_rejected_count = length (filter (\<lambda>r. \<not> record_was_accepted r) (ca_records a))\<rparr>"

abbreviation session_summaries :: "CommandEvidenceRecord list \<Rightarrow> EvidenceSessionSummary list" where
  "session_summaries rs \<equiv> map (\<lambda>k. session_summary k rs) (sorted_list_of_set (session_key ` set rs))"

lemma scanned_evidence:
  assumes "archive_stored t row e a"
  shows "scan_evidence (map (stored_record i) (ca_records a)) (scan_start (map (stored_record i) (ca_records a))) =
    (if \<exists>r \<in> set (ca_records a). unat (er_ordinal r) > 2147483647 then Inl json_range else Inr (scanned a))"
  by (subst scan_evidence_linked [where h = "ca_head_digest a"])
    (simp_all add: scan_start_def initial_head_zero [OF stored_links [OF assms]] stored_links [OF assms] scanned_def)

lemma scanned_projection:
  assumes "x \<in> set (session_summaries (ca_records a))"
  shows "map_of (sc_projections (scanned a)) (cid_value (ss_client_id x), sid_value (ss_session_id x)) =
    Some (projection_of (of_session (cid_value (ss_client_id x), sid_value (ss_session_id x)) (ca_records a)))"
  using assms by (auto simp: scanned_def projections_lookup of_session_def filter_empty_conv)

lemma scanned_sessions:
  assumes "archive_stored t row e a"
  shows "scan_sessions (sc_projections (scanned a)) (session_summaries (ca_records a)) (0, 0) =
    (if \<exists>x \<in> set (session_summaries (ca_records a)). ss_accepted_count x > 2147483647 \<or> ss_rejected_count x > 2147483647
     then Inl json_range else Inr (sc_accepted_count (scanned a), sc_rejected_count (scanned a)))"
proof -
  have dec: "decode_command_evidence_archive e (ca_head_digest a) = Inr (Inr a)"
    using assms by (simp add: archive_stored_def)
  have "length (filter P (ca_records a)) < u64_limit" for P
    using decoded_archive(5) [OF dec] length_filter_le [of P "ca_records a"] by linarith
  then show ?thesis
    using session_totals [OF decoded_archive(3) [OF dec]]
      scan_sessions_counts [of "session_summaries (ca_records a)" "sc_projections (scanned a)" "(0, 0)"]
    by (simp add: omap_contains_def scanned_projection del: map_map set_map) (simp add: scanned_def)
qed

text \<open>Every integer of the bundle is bounded by the number of records.\<close>

lemma range_records:
  assumes "archive_stored t row e a"
  shows "r \<in> set (ca_records a) \<Longrightarrow> unat (er_ordinal r) < length (ca_records a)"
    and "x \<in> set (session_summaries (ca_records a)) \<Longrightarrow>
      ss_accepted_count x \<le> length (ca_records a) \<and> ss_rejected_count x \<le> length (ca_records a)"
    and "sc_accepted_count (scanned a) \<le> length (ca_records a)" and "sc_rejected_count (scanned a) \<le> length (ca_records a)"
proof -
  have "numbered 0 (ca_records a)"
    using assms decoded_archive(7) unfolding archive_stored_def by blast
  then show "r \<in> set (ca_records a) \<Longrightarrow> unat (er_ordinal r) < length (ca_records a)"
    using numbered_nth by (auto simp: in_set_conv_nth)
  have counts: "length (filter P (of_session k (ca_records a))) \<le> length (ca_records a)" for P k
    unfolding of_session_def by (meson le_trans length_filter_le)
  show "x \<in> set (session_summaries (ca_records a)) \<Longrightarrow>
      ss_accepted_count x \<le> length (ca_records a) \<and> ss_rejected_count x \<le> length (ca_records a)"
    by (auto simp: session_summary_def Let_def intro: counts)
qed (simp_all add: scanned_def)

lemma exported_text:
  "\<exists>doc. bundle_json (archive_summary row) Sha256Digest_zero (session_summaries (ca_records a)) (scanned a)
     (map (stored_record (ea_archive_id row)) (ca_records a)) result = Inr doc \<and>
   json_document (exported_value row (ca_records a) result) doc"
proof -
  define projection where "projection x = projection_of (of_session (cid_value (ss_client_id x), sid_value (ss_session_id x)) (ca_records a))"
    for x :: EvidenceSessionSummary
  have "map_of (sc_projections (scanned a)) (cid_value (ss_client_id x), sid_value (ss_session_id x)) = Some (projection x)"
    if "x \<in> set (session_summaries (ca_records a))" for x
    using scanned_projection [OF that] by (simp add: projection_def)
  from bundle_json_text [of "session_summaries (ca_records a)", OF this] show ?thesis
    by (simp add: exported_value_def projection_def comp_def) (simp add: scanned_def)
qed

lemma export_loads:
  assumes "store_ok (cn_tables c)" and "healthy c" and "row \<in> set (tb_archives (cn_tables c))"
    and "archive_stored (cn_tables c) row e a" and "meaning (replay_result (ea_archive_id row)) (cn_tables c) = Inr (Some result, t)"
  obtains d1 d2 d3 d4 where "find_archive (ea_archive_id row) c = (Inr (archive_summary row), d1)"
    "replay_result (ea_archive_id row) d1 = (Inr (Some result), d2)"
    "load_all_evidence (ea_archive_id row) d2 = (Inr (map (stored_record (ea_archive_id row)) (ca_records a)), d3)"
    "list_sessions (ea_archive_id row) d3 = (Inr (session_summaries (ca_records a)), d4)"
proof -
  let ?i = "ea_archive_id row"
  have cr: "tb_created (cn_tables c)" and ids: "distinct (map ea_archive_id (tb_archives (cn_tables c)))"
    using assms(1) by (simp_all add: store_ok_def)
  have "find (\<lambda>r. ea_archive_id r = ?i) (archives_before None (cn_tables c)) = Some row"
    using find_key [of ea_archive_id "archives_before None (cn_tables c)"] ids assms(3) by (simp add: archives_before_def)
  then obtain d1 where d1: "find_archive ?i c = (Inr (archive_summary row), d1)" "cn_tables d1 = cn_tables c" "healthy d1"
    using find_archive_run [OF assms(1,2), of None ?i] by (auto simp: find_archive_def)
  obtain d2 where d2: "replay_result ?i d1 = (Inr (Some result), d2)" "cn_tables d2 = cn_tables c" "healthy d2"
    using healthy_run [OF stable_queries(1) d1(3)] assms(5) d1(2) reading_tables [OF reading_queries(1)] by metis
  have d2t: "archive_stored (cn_tables d2) row e a" "tb_created (cn_tables d2)"
    using assms(4) cr d2(2) by simp_all
  obtain d3 where d3: "load_all_evidence ?i d2 = (Inr (map (stored_record ?i) (ca_records a)), d3)" "cn_tables d3 = cn_tables c" "healthy d3"
    using load_evidence_run [OF d2t(2,1) d2(3), of 0] d2(2) by (auto simp: load_all_evidence_def)
  have "meaning (list_sessions ?i) (cn_tables d3) = Inr (session_summaries (ca_records a), cn_tables c)"
    using meaning_list_sessions [OF cr assms(4)] d3(2) by simp
  then show thesis
    using healthy_run [OF stable_queries(4) d3(3)] d1 d2 d3 that by metis
qed

lemma export_run:
  assumes "store_ok (cn_tables c)" and "healthy c" and "row \<in> set (tb_archives (cn_tables c))"
    and "archive_stored (cn_tables c) row e a" and "meaning (replay_result (ea_archive_id row)) (cn_tables c) = Inr (Some result, t)"
  shows "(\<exists>doc c'. export_investigation_bundle_json (ea_archive_id row) c = (Inr doc, c') \<and>
      json_document (exported_value row (ca_records a) result) doc) \<or>
    fst (export_investigation_bundle_json (ea_archive_id row) c) = Inl json_range \<and> length (ca_records a) > 2147483647"
proof -
  obtain d1 d2 d3 d4 where d: "find_archive (ea_archive_id row) c = (Inr (archive_summary row), d1)"
    "replay_result (ea_archive_id row) d1 = (Inr (Some result), d2)"
    "load_all_evidence (ea_archive_id row) d2 = (Inr (map (stored_record (ea_archive_id row)) (ca_records a)), d3)"
    "list_sessions (ea_archive_id row) d3 = (Inr (session_summaries (ca_records a)), d4)"
    using export_loads [OF assms] by metis
  have row: "(ea_archive_id row \<le> 0) = False" "as_record_count (archive_summary row) = length (ca_records a)"
      "as_chain_head (archive_summary row) = ca_head_digest a" "as_trusted_head (archive_summary row) = ca_head_digest a"
    using assms(4) by (auto simp: archive_summary_def archive_stored_def)
  have len: "card (session_key ` set (ca_records a)) = length (sc_projections (scanned a))"
    using arg_cong [OF projection_keys [of "ca_records a"], of length] by (simp add: scanned_def)
  obtain doc where doc: "bundle_json (archive_summary row) Sha256Digest_zero (session_summaries (ca_records a)) (scanned a)
      (map (stored_record (ea_archive_id row)) (ca_records a)) result = Inr doc"
      "json_document (exported_value row (ca_records a) result) doc"
    using exported_text by blast
  note checks = scanned_evidence [OF assms(4)] scanned_sessions [OF assms(4)] initial_head_zero [OF stored_links [OF assms(4)]]
  note export = export_investigation_bundle_json_def bind_action_def pure_action_def from_store_def d row len require_json_integer_eq
  show ?thesis
  proof (cases "2147483647 < length (ca_records a)")
    case True
    have "fst (export_investigation_bundle_json (ea_archive_id row) c) \<in> {Inl json_range, Inr doc}"
      using doc(1) by (simp add: export checks scanned_def [of a, THEN arg_cong, of sc_expected_digest])
    then show ?thesis
      using True doc(2) by (metis insertE prod.collapse singletonD)
  next
    case False
    have "(\<exists>r \<in> set (ca_records a). unat (er_ordinal r) > 2147483647) = False"
        "(\<exists>x \<in> set (session_summaries (ca_records a)). ss_accepted_count x > 2147483647 \<or> ss_rejected_count x > 2147483647) = False"
      using range_records(1,2) [OF assms(4)] False by (force simp del: set_map)+
    note checks = checks [unfolded this if_False]
    have "fst (export_investigation_bundle_json (ea_archive_id row) c) = Inr doc"
      using False doc(1) range_records(3,4) [OF assms(4)] by (simp add: export checks scanned_def [of a, THEN arg_cong, of sc_expected_digest])
    then show ?thesis
      using doc(2) by (metis prod.collapse)
  qed
qed

section \<open>Properties\<close>

text \<open>C11: The exported bundle is faithful. For every archive of a reachable store that has a
  recorded replay result, when no call fails, the export returns a JSON document that denotes
  exactly one value, the one determined by the archive: its digests, one object for every session with the counts
  and ticks of its records, one object for every record of the verified archive in order,
  and the replay result with the totals. None of the checks of the exporter fails; the only
  other outcome is the refusal of an archive with more than 2147483647 records, whose
  integers a reader may not represent.\<close>

theorem export_bundle_faithful:
  assumes "reachable store_init store_step (cn_tables c)" and "row \<in> set (tb_archives (cn_tables c))"
    and "healthy c" and "replay_result (ea_archive_id row) c = (Inr (Some result), c1)"
  shows "\<exists>encoded archive. sha256 encoded = Sha256Digest (ea_archive_digest row) \<and>
    decode_command_evidence_archive encoded (Sha256Digest (ea_trusted_head row)) = Inr (Inr archive) \<and>
    ((\<exists>doc c'. export_investigation_bundle_json (ea_archive_id row) c = (Inr doc, c') \<and>
       denotes doc (exported_value row (ca_records archive) result)) \<or>
     fst (export_investigation_bundle_json (ea_archive_id row) c) = Inl json_range \<and> ea_record_count row > 2147483647)"
proof -
  have ok: "store_ok (cn_tables c)"
    using store.inv_reachable [OF assms(1)] assms(2) by (auto simp: store_inv_def unopened_def)
  then obtain e a where st: "archive_stored (cn_tables c) row e a"
    using assms(2) by (auto simp: store_ok_def)
  have "meaning (replay_result (ea_archive_id row)) (cn_tables c) = Inr (Some result, cn_tables c1)"
    using stableD(2) [OF stable_queries(1) assms(4)] .
  from export_run [OF ok assms(3,2) st this]
  have "(\<exists>doc c'. export_investigation_bundle_json (ea_archive_id row) c = (Inr doc, c') \<and>
       denotes doc (exported_value row (ca_records a) result)) \<or>
     fst (export_investigation_bundle_json (ea_archive_id row) c) = Inl json_range \<and> ea_record_count row > 2147483647"
    using st by (auto simp: archive_stored_def intro: document_denotes)
  moreover have "sha256 e = Sha256Digest (ea_archive_digest row)"
      "decode_command_evidence_archive e (Sha256Digest (ea_trusted_head row)) = Inr (Inr a)"
    using st by (simp_all add: archive_stored_def)
  ultimately show ?thesis by blast
qed

lemma export_reading: "cn_tables (snd (export_investigation_bundle_json i c)) = cn_tables c"
proof -
  have steps: "reading (find_archive i)" "reading (load_all_evidence i)"
    "reading (from_store (replay_result i))" "reading (from_store (list_sessions i))"
    using find_archive_reading load_evidence_reading reading_queries(1,4)
    by (auto simp: reading_def find_archive_def load_all_evidence_def from_store_eq split: prod.split) (metis snd_conv)+
  then have "reading (export_investigation_bundle_json i)"
    unfolding export_investigation_bundle_json_def
    by (intro reading_choice reading_bind reading_basic) simp_all
  then show ?thesis
    by (simp add: reading_def)
qed

lemma stored_replay_result:
  assumes "store_ok t" and "0 < i" and "i \<in> set (map rt_archive_id (tb_replays t))"
  obtains result where "meaning (replay_result i) t = Inr (Some result, t)"
proof -
  obtain row where row: "find (\<lambda>row. rt_archive_id row = i) (tb_replays t) = Some row"
    using assms(3) by (cases "find (\<lambda>row. rt_archive_id row = i) (tb_replays t)") (auto simp: find_None_iff)
  then have "row \<in> set (tb_replays t)"
    by (auto simp: find_Some_iff)
  then obtain now j r where "storable r" "row = replay_row now j (int (rr_processed_records r)) r"
    using assms(1) unfolding store_ok_def replay_stored_def by blast
  then have "read_replay_row row = Inr r"
    by (simp add: read_replay_row_of)
  then show thesis
    using that assms(1,2) row by (simp add: meaning_replay_result store_ok_def)
qed

lemma export_without_replay:
  assumes "store_ok (cn_tables c)" and "healthy c" and "0 < i" and "row \<in> set (tb_archives (cn_tables c))"
    and "ea_archive_id row = i" and "i \<notin> set (map rt_archive_id (tb_replays (cn_tables c)))"
  shows "fst (export_investigation_bundle_json i c) = Inl (InvestigationBundleExportError Export_replay_result_missing)"
proof -
  have "find (\<lambda>r. ea_archive_id r = i) (archives_before None (cn_tables c)) = Some row"
    using assms(1,4,5) find_key [of ea_archive_id "tb_archives (cn_tables c)"] by (simp add: store_ok_def archives_before_def)
  then obtain d1 where d1: "find_archive i c = (Inr (archive_summary row), d1)" "cn_tables d1 = cn_tables c" "healthy d1"
    using find_archive_run [OF assms(1,2), of None i] by (auto simp: find_archive_def)
  have "find (\<lambda>row. rt_archive_id row = i) (tb_replays (cn_tables c)) = None"
    using assms(6) by (auto simp: find_None_iff)
  then have "meaning (replay_result i) (cn_tables d1) = Inr (None, cn_tables c)"
    using assms(1,3) d1(2) by (simp add: meaning_replay_result store_ok_def)
  then obtain d2 where "replay_result i d1 = (Inr None, d2)"
    using healthy_run [OF stable_queries(1) d1(3)] by metis
  then show ?thesis
    using assms(3) by (simp add: export_investigation_bundle_json_def bind_action_def from_store_def throw_action_def d1(1))
qed

lemma export_with_replay:
  assumes "store_ok (cn_tables c)" and "healthy c" and "0 < i" and "row \<in> set (tb_archives (cn_tables c))"
    and "ea_archive_id row = i" and "i \<in> set (map rt_archive_id (tb_replays (cn_tables c)))"
  shows "(\<exists>doc. fst (export_investigation_bundle_json i c) = Inr doc) \<or> fst (export_investigation_bundle_json i c) = Inl json_range"
proof -
  obtain result where m: "meaning (replay_result (ea_archive_id row)) (cn_tables c) = Inr (Some result, cn_tables c)"
    using stored_replay_result [OF assms(1,3,6)] assms(5) by metis
  obtain e a where st: "archive_stored (cn_tables c) row e a"
    using assms(1,4) by (auto simp: store_ok_def)
  from export_run [OF assms(1,2,4) st m] show ?thesis
    unfolding assms(5) by auto
qed

text \<open>C29: The outcomes of an export are exactly its documented errors. Under every schedule of
  failing calls an export leaves the tables as they are. On an opened store, when no call
  fails, it refuses an identifier that is not positive, an archive that is not stored and an
  archive without a replay result, each with its own code, and otherwise returns a document
  or refuses an integer that is too large: the count, chain and session checks never fail on
  what the store wrote.\<close>

theorem export_outcomes:
  assumes "reachable store_init store_step (cn_tables c)" and "tb_created (cn_tables c)" and "healthy c"
  shows "cn_tables (snd (export_investigation_bundle_json i d)) = cn_tables d \<and>
    (if i \<le> 0 then fst (export_investigation_bundle_json i c) = Inl (InvestigationBundleExportError Export_invalid_archive_id)
     else if i \<notin> archive_ids (cn_tables c)
     then fst (export_investigation_bundle_json i c) = Inl (InvestigationBundleExportError Export_archive_not_found)
     else if i \<notin> set (map rt_archive_id (tb_replays (cn_tables c)))
     then fst (export_investigation_bundle_json i c) = Inl (InvestigationBundleExportError Export_replay_result_missing)
     else (\<exists>doc. fst (export_investigation_bundle_json i c) = Inr doc) \<or>
       fst (export_investigation_bundle_json i c) = Inl json_range)"
proof -
  have ok: "store_ok (cn_tables c)"
    using store_opened [OF assms(1,2)] .
  obtain d1 where d1: "find_archive i c =
      ((case find (\<lambda>r. ea_archive_id r = i) (tb_archives (cn_tables c)) of
          None \<Rightarrow> Inl (InvestigationBundleExportError Export_archive_not_found)
        | Some row \<Rightarrow> Inr (archive_summary row)), d1)" "cn_tables d1 = cn_tables c" "healthy d1"
    using find_archive_run [OF ok assms(3), of None i] by (auto simp: find_archive_def archives_before_def)
  note export = export_investigation_bundle_json_def bind_action_def from_store_def throw_action_def d1(1)
  consider "i \<le> 0" | "0 < i" "i \<notin> archive_ids (cn_tables c)"
    | row where "0 < i" "row \<in> set (tb_archives (cn_tables c))" "ea_archive_id row = i"
    by (cases "i \<le> 0") (auto simp: archive_ids_def not_le)
  then show ?thesis
  proof cases
    case 1
    then show ?thesis by (simp add: export_reading) (simp add: export)
  next
    case 2
    then have "find (\<lambda>r. ea_archive_id r = i) (tb_archives (cn_tables c)) = None"
      by (auto simp: find_None_iff archive_ids_def)
    then show ?thesis
      using 2 by (simp add: export_reading) (simp add: export)
  next
    case 3
    then have "i \<in> archive_ids (cn_tables c)"
      by (auto simp: archive_ids_def)
    then show ?thesis
      using 3(1) export_without_replay [OF ok assms(3) 3] export_with_replay [OF ok assms(3) 3] by (simp add: export_reading)
  qed
qed

text \<open>C40: What the exporter prints reads back. A string literal, whatever bytes it holds, is one
  JSON string that denotes exactly that string, and a printed number is a JSON number without
  leading zeros that denotes it.\<close>

theorem export_literals_read_back:
  "(\<exists>t. append_json_string output v = output @ t \<and> json_string v t) \<and> json_number n (decimal n)"
  using quoted_text decimal_number by (auto simp: append_json_string_eq)

section \<open>Examples\<close>

lemma demo_replayed:
  obtains c where "reachable store_init store_step (cn_tables c)" "healthy c" "tb_created (cn_tables c)"
    "imported_row ''t'' demo_encoded demo_archive ''s'' 1 \<in> set (tb_archives (cn_tables c))"
    "\<exists>c1. replay_result 1 c = (Inr (Some demo_result), c1)"
proof -
  have ok: "store_ok demo_filled"
    using store_opened [OF demo_filled_reachable] by (simp add: demo_filled_def import_tables_def demo_store_def)
  have ids: "1 \<in> archive_ids demo_filled" and st: "storable demo_result"
    by (simp_all add: demo_filled_def import_tables_def archive_ids_def imported_row_def storable_def demo_result_def)
  obtain t where t: "meaning (record_replay_result ''t'' 1 demo_result) demo_filled = Inr ((), t)"
    using meaning_record_replay(1) [OF ok ids st] by blast
  obtain c where c: "record_replay_result ''t'' 1 demo_result (demo_connection demo_filled) = (Inr (), c)" "cn_tables c = t" "healthy c"
    using healthy_run [OF stable_record_replay demo_connection_simps(2)] t by (metis demo_connection_simps(1))
  have up: "upsert_replay (replay_row ''t'' 1 (int (rr_processed_records demo_result)) demo_result) demo_filled = Some ((), t)"
    using record_replay_Inr [OF c(1)] c(2) by simp
  have tabs: "tb_archives t = tb_archives demo_filled" "tb_created t"
    using up ok by (auto simp: upsert_replay_def store_ok_def split: if_split_asm)
  have "store_step demo_filled t"
    using step_replay [OF c(1)] c(2) by simp
  then have r: "reachable store_init store_step (cn_tables c)"
    using reachable_step [OF demo_filled_reachable] c(2) by simp
  have "find (\<lambda>row. rt_archive_id row = 1) (tb_replays t) = Some (replay_row ''t'' 1 (int (rr_processed_records demo_result)) demo_result)"
    using meaning_record_replay(2) [OF ok ids st, of "''t''"] up by simp
  then have m: "meaning (replay_result 1) (cn_tables c) = Inr (Some demo_result, t)"
    using tabs(2) c(2) read_replay_row_of [OF st] by (simp add: meaning_replay_result)
  have "\<exists>c1. replay_result 1 c = (Inr (Some demo_result), c1)"
    using healthy_run [OF stable_queries(1) c(3) m] by metis
  moreover have "imported_row ''t'' demo_encoded demo_archive ''s'' 1 \<in> set (tb_archives (cn_tables c))"
    using tabs(1) c(2) by (simp add: demo_filled_def import_tables_def)
  ultimately show thesis
    using that [of c] r c(2,3) tabs(2) by simp
qed

theorem export_bundle_faithful_witness:
  "\<exists>c doc c'. healthy c \<and> export_investigation_bundle_json 1 c = (Inr doc, c') \<and>
     (\<exists>(archive :: CommandEvidenceArchive).
       denotes doc (exported_value (imported_row ''t'' demo_encoded demo_archive ''s'' 1) (ca_records archive) demo_result))"
proof -
  let ?row = "imported_row ''t'' demo_encoded demo_archive ''s'' 1"
  obtain c c1 where c: "reachable store_init store_step (cn_tables c)" "healthy c" "?row \<in> set (tb_archives (cn_tables c))"
      "replay_result 1 c = (Inr (Some demo_result), c1)"
    using demo_replayed by metis
  have row: "ea_archive_id ?row = 1" "ea_record_count ?row = 1"
    by (simp_all add: imported_row_def demo_archive_def)
  have "replay_result (ea_archive_id ?row) c = (Inr (Some demo_result), c1)"
    using c(4) row(1) by simp
  from export_bundle_faithful [OF c(1,3,2) this] show ?thesis
    unfolding row using c(2) by auto
qed

theorem export_outcomes_witness:
  "fst (export_investigation_bundle_json 7 (demo_connection demo_filled)) =
     Inl (InvestigationBundleExportError Export_archive_not_found) \<and>
   fst (export_investigation_bundle_json 1 (demo_connection demo_filled)) =
     Inl (InvestigationBundleExportError Export_replay_result_missing)"
proof -
  let ?c = "demo_connection demo_filled"
  have c: "reachable store_init store_step (cn_tables ?c)" "tb_created (cn_tables ?c)" "healthy ?c"
    using demo_filled_reachable by (simp_all add: demo_filled_def import_tables_def demo_store_def)
  have t: "archive_ids demo_filled = {1}" "tb_replays demo_filled = []"
    by (simp_all add: demo_filled_def import_tables_def demo_store_def unopened_def archive_ids_def imported_row_def)
  show ?thesis
    using export_outcomes [OF c, of 7 ?c] export_outcomes [OF c, of 1 ?c] by (simp add: t)
qed

end
