(* ===== verification/Investigation.thy ===== *)
theory Investigation
  imports Export_Properties Replay_Correct
begin

text \<open>
  An investigation from an archive to a bundle: the archive is imported, the result of its
  replay is recorded, and the bundle is exported, each on the store the previous step left.
\<close>

lemma stored_twice:
  assumes "archive_stored t row e a" and "decode_command_evidence_archive e head = Inr (Inr archive)"
  shows "a = archive"
  using assms decode_determined unfolding archive_stored_def by blast

text \<open>After an import the archive is stored under the reported identifier.\<close>

lemma import_stores:
  assumes "store_ok t" and dec: "decode_command_evidence_archive encoded head = Inr (Inr archive)"
    and m: "meaning (import_body now archive (sha256 encoded) head source) t = Inr (import_report encoded archive i inserted, t')"
    and "\<And>row e a. row \<in> set (tb_archives t) \<Longrightarrow> archive_stored t row e a \<Longrightarrow> sha256 e = sha256 encoded \<Longrightarrow> e = encoded"
  obtains row where "store_ok t'" "row \<in> set (tb_archives t')" "ea_archive_id row = i" "archive_stored t' row encoded archive"
  using assms(1) dec m
proof (cases rule: import_body_Inr)
  case (existing row)
  then have row: "row \<in> set (tb_archives t)" "ea_archive_digest row = digest_bytes (sha256 encoded)"
    by (auto simp: existing_row_def find_Some_iff)
  then obtain e a where st: "archive_stored t row e a"
    using assms(1) by (auto simp: store_ok_def)
  then have "e = encoded"
    using assms(4) [OF row(1) st] row(2) st unfolding archive_stored_def by (metis digest_bytes_inject)
  moreover have "ea_archive_id row = i"
    using existing(2) by (simp add: import_report_def)
  moreover have "a = archive"
    using stored_twice [OF st] dec \<open>e = encoded\<close> by simp
  ultimately show thesis
    using that [of row] row(1) st existing(3) assms(1) by simp
next
  case (inserted j)
  have j: "j \<notin> archive_ids t" "0 < j" "j = i"
    using next_rowid_fresh [OF inserted(2)] inserted(3) by (simp_all add: archive_ids_def import_report_def)
  have "store_ok t'"
    using store_ok_import [OF assms(1) dec j(1,2) inserted(1)] inserted(4) by simp
  then show thesis
    using that [of "imported_row now encoded archive source i"] archive_stored_import(1) [OF assms(1) dec j(1,2)] inserted(4) j(3)
    by (simp add: import_tables_def imported_row_def)
qed

lemma record_replay_keeps:
  assumes "store_ok t" and "row \<in> set (tb_archives t)" and "archive_stored t row e a" and "storable r"
  obtains t' where "meaning (record_replay_result now (ea_archive_id row) r) t = Inr ((), t')" "store_ok t'"
    "row \<in> set (tb_archives t')" "archive_stored t' row e a"
    "meaning (replay_result (ea_archive_id row)) t' = Inr (Some r, t')"
proof -
  let ?i = "ea_archive_id row" and ?row = "replay_row now (ea_archive_id row) (int (rr_processed_records r)) r"
  have ids: "?i \<in> archive_ids t" and pos: "0 < ?i"
    using assms(2,3) by (simp_all add: archive_ids_def archive_stored_def)
  have "upsert_replay ?row t \<noteq> None"
    using ids replay_row_valid [OF assms(4), of now ?i] by (simp add: upsert_replay_def archive_ids_def replay_row_def)
  then obtain t' where up: "upsert_replay ?row t = Some ((), t')"
    by auto
  then have tabs: "tb_archives t' = tb_archives t" "tb_evidence t' = tb_evidence t" "tb_sessions t' = tb_sessions t"
    by (auto simp: upsert_replay_def split: if_split_asm)
  have ok: "store_ok t'"
    using store_ok_upsert [OF assms(1,4) up] .
  have "find (\<lambda>row. rt_archive_id row = ?i) (tb_replays t') = Some ?row"
    using meaning_record_replay(2) [OF assms(1) ids assms(4), of now] up by simp
  then have "meaning (replay_result ?i) t' = Inr (Some r, t')"
    using ok pos read_replay_row_of [OF assms(4)] by (simp add: meaning_replay_result store_ok_def)
  moreover have "meaning (record_replay_result now ?i r) t = Inr ((), t')"
    using meaning_record_replay(1) [OF assms(1) ids assms(4), of now] up by simp
  ultimately show thesis
    using that ok assms(2,3) tabs by (simp add: archive_stored_def)
qed

text \<open>What the three steps leave, when no call fails and no digests collide.\<close>

definition investigated ::
  "string \<Rightarrow> string \<Rightarrow> bytes \<Rightarrow> CommandEvidenceArchive \<Rightarrow> string \<Rightarrow> CommandEvidenceReplayResult \<Rightarrow> Tables Connection \<Rightarrow> bool"
where
  "investigated now now' encoded archive source r c \<longleftrightarrow>
     (\<exists>i inserted c1 c2 doc c3 row.
        import_archive now encoded (ca_head_digest archive) source c = (Inr (import_report encoded archive i inserted), c1) \<and>
        record_replay_result now' i r c1 = (Inr (), c2) \<and>
        export_investigation_bundle_json i c2 = (Inr doc, c3) \<and>
        row \<in> set (tb_archives (cn_tables c3)) \<and> ea_archive_id row = i \<and>
        denotes doc (exported_value row (ca_records archive) r))"

lemma investigation_runs:
  assumes "store_ok (cn_tables c)" and "healthy c" and "decode_command_evidence_archive encoded (ca_head_digest archive) = Inr (Inr archive)"
    and "source_ok source" and "next_rowid (map ea_archive_id (tb_archives (cn_tables c))) \<noteq> None"
    and "distinct (map record_digest (ca_records archive))"
    and "\<And>row e a. row \<in> set (tb_archives (cn_tables c)) \<Longrightarrow> archive_stored (cn_tables c) row e a \<Longrightarrow> sha256 e = sha256 encoded \<Longrightarrow> e = encoded"
    and "storable r" and "length (ca_records archive) \<le> 2147483647"
  shows "investigated now now' encoded archive source r c"
proof -
  obtain i inserted t1 where m: "meaning (import_body now archive (sha256 encoded) (ca_head_digest archive) source) (cn_tables c) =
      Inr (import_report encoded archive i inserted, t1)"
    by (rule import_body_succeeds [OF assms(1,3-7), where now = now])
  obtain c1 where c1: "import_archive now encoded (ca_head_digest archive) source c = (Inr (import_report encoded archive i inserted), c1)"
      "cn_tables c1 = t1" "healthy c1"
    using healthy_run [OF stable_import_archive assms(2)] m import_meaning [OF assms(3) source_ok_nonempty [OF assms(4)]] by metis
  obtain row where row: "store_ok t1" "row \<in> set (tb_archives t1)" "ea_archive_id row = i" "archive_stored t1 row encoded archive"
    using assms(7) by (rule import_stores [OF assms(1,3) m])
  obtain t2 where t2: "meaning (record_replay_result now' (ea_archive_id row) r) t1 = Inr ((), t2)" "store_ok t2"
      "row \<in> set (tb_archives t2)" "archive_stored t2 row encoded archive"
      "meaning (replay_result (ea_archive_id row)) t2 = Inr (Some r, t2)"
    using record_replay_keeps [OF row(1,2,4) assms(8)] by metis
  obtain c2 where c2: "record_replay_result now' i r c1 = (Inr (), c2)" "cn_tables c2 = t2" "healthy c2"
    using healthy_run [OF stable_record_replay c1(3)] t2(1) c1(2) row(3) by metis
  obtain doc c3 where "export_investigation_bundle_json i c2 = (Inr doc, c3)" "json_document (exported_value row (ca_records archive) r) doc"
    using export_run [of c2 row encoded archive r t2] t2 c2 assms(9) row(3) by auto
  moreover from this(1) have "cn_tables c3 = t2"
    using export_reading [of i c2] c2(2) by simp
  ultimately show ?thesis
    unfolding investigated_def using c1(1) c2(1) t2(3) row(3) document_denotes by blast
qed

lemma verified_storable:
  assumes "replay max_records policy (au_session a) (au_world a) (ca_records archive) (ca_head_digest archive) = Inr r"
    and "replay_verified r" and "checkpoint_ok a"
    and "decode_command_evidence_archive encoded (ca_head_digest archive) = Inr (Inr archive)"
  shows "storable r"
proof -
  note d = decoded_archive [OF assms(4)]
  have env: "list_all (\<lambda>r. envelope_ok (en_envelope (er_entry r))) (ca_records archive)"
    using d(3) by (auto simp: record_ok_def list_all_iff)
  show ?thesis
  proof (rule replay_verified_run [OF assms(1-3) env])
    fix b
    assume b: "serves max_records a (unat (rr_performed_tick_advances r)) b"
      "fingerprint_world_state (au_world b) = Inr (rr_final_world_fingerprint r)"
      "r = \<lparr>rr_code = Replay_verified, rr_processed_records = length (ca_records archive), rr_failed_ordinal = None,
        rr_performed_tick_advances = rr_performed_tick_advances r, rr_final_tick = tick_index (current_tick (au_world b)),
        rr_final_session_sequence = cs_highest_accepted_sequence (au_session b),
        rr_final_pending_command_count = pending_command_count (au_world b),
        rr_final_world_fingerprint = rr_final_world_fingerprint r, rr_replayed_head_digest = ca_head_digest archive\<rparr>"
    have "pending_command_count (au_world b) < u64_limit"
      using serves_ok [OF b(1) assms(3)] b(2) by (auto simp: checkpoint_ok_def elim: fingerprint_cases)
    then show "storable r"
      using d(2,8) by (subst b(3)) (simp add: storable_def)
  qed
qed

end
