(* ===== verification/Spec2Isabelle.thy ===== *)
theory Spec2Isabelle
  imports Canonical_State Sha256_Standard Stream_Parser Gateway Archive Replay_Correct Investigation
begin

text \<open>
  A verification of Tickline, a deterministic authoritative simulation whose every command
  leaves tamper-evident evidence (the C++ library under \<^verbatim>\<open>src/cpp\<close>).

  \<^bold>\<open>The program.\<close> A client encodes a command as an envelope in a binary frame. The server cuts
  the byte stream into frames, decodes the envelope, and submits it to the authoritative
  pipeline: the session checks identity, sequence, target tick and velocity, the world
  queues the command, and one record of what happened is appended to a log in which each
  record carries the SHA-256 digest of its predecessor. A tick executes the due commands
  and moves every entity. The log can be archived to a file, read back under a trusted head,
  and replayed from a checkpoint. The investigation store keeps verified archives and their
  replay results in an SQLite database and answers queries over them; the bundle exporter
  renders a stored archive as a JSON document.

  \<^bold>\<open>Theories and sources\<close> (paths below \<^verbatim>\<open>src/cpp\<close>, headers included).
  \<^item> \<open>Tickline_Prelude\<close>, \<open>Bytes\<close>, \<open>Ordered_Map\<close>, \<open>Hash_Chain\<close>: machine integers, errors, the error
    monad, first failing checks, reachability (\<open>system_invariant\<close>), spans, big-endian fields
    (\<open>byte_reader\<close>, \<open>byte_codec\<close>, \<open>fixed_width_codec\<close>), \<open>std::map\<close> (\<open>ordered_map\<close>) and hash
    chains (\<open>hash_chain\<close>).
  \<^item> \<open>Units\<close>: \<^verbatim>\<open>simulation/units.hpp\<close>, \<^verbatim>\<open>tick_clock.hpp\<close>. \<open>World\<close>: \<^verbatim>\<open>world.cpp\<close>;
    \<open>World_Correct\<close> proves its invariant and the absence of undefined behaviour,
    \<open>World_Runs\<close> its properties over runs.
  \<^item> \<open>Canonical_State\<close>: \<^verbatim>\<open>canonical_state.cpp\<close>, \<^verbatim>\<open>state_fingerprint.cpp\<close>. \<open>Sha256\<close>:
    \<^verbatim>\<open>security/sha256.cpp\<close>; \<open>Sha256_Standard\<close> states the published standard without any
    definition of the implementation and proves that the two agree.
  \<^item> \<open>Frame\<close>: \<^verbatim>\<open>protocol/frame_parser.cpp\<close>. \<open>Envelope_Codec\<close>: \<^verbatim>\<open>command_envelope_codec.cpp\<close>.
    \<open>Stream_Parser\<close>: \<^verbatim>\<open>stream_parser.cpp\<close>. \<open>Gateway\<close>: \<^verbatim>\<open>authoritative_command_gateway.cpp\<close>.
  \<^item> \<open>Command_Session\<close>: \<^verbatim>\<open>command/command_validator.cpp\<close>, \<^verbatim>\<open>command_session.cpp\<close>. \<open>Evidence\<close>:
    \<^verbatim>\<open>command_evidence.cpp\<close>. \<open>Pipeline\<close>: \<^verbatim>\<open>authoritative_command_pipeline.cpp\<close>. \<open>Archive\<close>:
    \<^verbatim>\<open>command_evidence_archive.cpp\<close>. \<open>Replay\<close>, \<open>Replay_Correct\<close>: \<^verbatim>\<open>command_evidence_replay.cpp\<close>.
  \<^item> \<open>Database\<close>: values, prepared statements and transactions of
    \<^verbatim>\<open>storage/investigation_store.cpp\<close>. \<open>Store\<close>: its tables and operations; \<open>Store_Correct\<close> proves
    the invariant of the tables and atomicity, \<open>Store_Properties\<close> what import, queries and replay
    results do. \<open>Exporter\<close>: \<^verbatim>\<open>storage/investigation_bundle_exporter.cpp\<close>; \<open>Json\<close> is a grammar
    of JSON texts independent of it, \<open>Json_Reader\<close> shows that a text denotes at most one
    value, \<open>Bundle_Text\<close> relates the printed text to the grammar,
    \<open>Bundle_Correct\<close> proves its loops and checks, \<open>Export_Properties\<close> its properties.

  \<^bold>\<open>Correspondence.\<close> A class is a record of its members, an enumeration a datatype, an
  unsigned integer a machine word, and a signed 64-bit integer the same word read with
  \<^const>\<open>sint\<close>. A function that can throw returns a sum; undefined behaviour (signed overflow,
  an access outside a span, a failed \<open>assert\<close>) is an error value too, so its absence is
  proved. Objects passed by reference are returned; an exception returns no state, and
  where the source guarantees that a throwing call changes nothing this is the caller
  keeping its value. \<open>std::expected\<close> is a sum inside the result.

  \<^bold>\<open>Parameters.\<close> \<open>max_records\<close> is \<open>std::vector::max_size\<close> for the log. The outcome of
  opening, writing and reading a file is an argument of the archive functions
  (\<^typ>\<open>write_outcome\<close>, \<^typ>\<open>read_outcome\<close>). Where the source sorts with \<open>std::sort\<close> the keys are
  proved distinct, so the result does not depend on the algorithm. Which calls of SQLite
  fail is the schedule \<open>cn_fails\<close> of a connection, and the time of \<open>CURRENT_TIMESTAMP\<close> the argument
  \<open>now\<close>. The SQL text in the source is translated statement by statement: a table is the list
  of its rows, a constraint a predicate on rows, a new row identifier one above the largest
  (random identifiers, which SQLite tries once the largest is taken, are not modelled),
  an aborted transaction restores the tables. There is one connection.

  \<^bold>\<open>What is shown.\<close> The world has no undefined behaviour, keeps its invariant, moves entities
  exactly and without drift, and is independent of the arrival order of accepted commands.
  The canonical encoding is injective on reachable worlds. The implementation of SHA-256
  computes the standard function. Parsers are total and memory safe on every input, report
  the first failing check, and accept exactly canonical encodings; the stream parser reaches
  the state the whole stream determines, however it is cut, and hands out its frames up to
  the chunk in which a header is unacceptable. Admission and submission are characterised completely;
  accepted sequence numbers increase strictly. Evidence and archives round-trip, and two
  chains with one head differ only by a hash collision. Replay verifies exactly the evidence
  of runs from the checkpoint, locates the first fault otherwise, and always returns. An
  import is atomic under every schedule of failing calls and idempotent, and its refusals
  are characterised; a reachable store
  holds exactly the rows its verified archives determine; queries return exactly the
  matching records; replay results are kept exactly. The exported text is a JSON document
  with the value the archive determines, and no check of the exporter fails on what the
  store wrote. This
  theory composes them: whatever bytes reach a gateway, the evidence of the run archives,
  reads back and replays; a replayed archive is the evidence of a run; and with the store and
  the exporter (\<open>Investigation\<close>), the evidence of a run is imported, its replay recorded, and
  the exported bundle shows exactly the records of the run.

  \<^bold>\<open>Termination.\<close> Every loop is a total function: recursion over the data, or a measure (the
  remaining input of the stream parser, the remaining ticks of the replay, the archives with
  smaller identifiers and the ordinals above the last one loaded in the paging loops of the
  exporter). There is no fuel.

  \<^bold>\<open>Not modelled.\<close> Memory exhaustion; texts of exception messages; several connections to one
  database and changes made to it by other programs. \<^verbatim>\<open>version.cpp\<close> holds constants of the
  build. The fuzz target, tests, the Go console, the Python tools and the Unity viewer are
  outside the C++ library.
\<close>

section \<open>Names of codes\<close>

text \<open>The names under which codes are reported determine the codes: parse errors,
  rejection codes, queue outcomes and replay codes each have pairwise distinct names.\<close>

lemma code_names_distinct:
  "inj parse_error_code_name \<and> inj command_rejection_code_name \<and> inj command_queue_outcome_name \<and>
   inj command_evidence_replay_code_name"
proof (intro conjI)
  show "inj parse_error_code_name"
    by (rule injI) (auto simp: parse_error_code_name_def split: ParseErrorCode.split_asm)
  show "inj command_rejection_code_name"
    by (rule injI) (auto simp: command_rejection_code_name_def split: CommandRejectionCode.split_asm)
  show "inj command_queue_outcome_name"
    by (rule injI) (auto simp: command_queue_outcome_name_def split: CommandQueueOutcome.split_asm)
  show "inj command_evidence_replay_code_name"
    by (rule injI) (auto simp: command_evidence_replay_code_name_def split: CommandEvidenceReplayCode.split_asm)
qed

section \<open>The composed system\<close>

text \<open>
  A server run: byte strings that arrive and ticks that pass, handled by one gateway for one
  session and world. The run also counts the ticks. It stops with the first exception.
\<close>

datatype event = Received bytes | Ticked

fun gateway_run ::
  "nat \<Rightarrow> event list \<Rightarrow> AuthoritativeCommandGateway \<Rightarrow> CommandSession \<Rightarrow> World \<Rightarrow>
   (AuthoritativeCommandGateway \<times> CommandSession \<times> World) result"
where
  "gateway_run max_records [] gateway session world = Inr (gateway, session, world)"
| "gateway_run max_records (Received bs # events) gateway session world =
     bind_result (gateway_submit max_records gateway session world bs) (\<lambda>(r, gateway, session, world).
     gateway_run max_records events gateway session world)"
| "gateway_run max_records (Ticked # events) gateway session world =
     bind_result (advance world) (\<lambda>(t, world).
     gateway_run max_records events gateway session world)"

definition tick_count :: "event list \<Rightarrow> nat" where
  "tick_count events = length (filter (\<lambda>e. e = Ticked) events)"

definition gateway_authority :: "AuthoritativeCommandGateway \<Rightarrow> CommandSession \<Rightarrow> World \<Rightarrow> Authority" where
  "gateway_authority gateway session world =
     \<lparr>au_log = gw_pipeline gateway, au_session = session, au_world = world\<rparr>"

text \<open>Whatever bytes arrive, the gateway serves at most a command with a valid envelope.\<close>

lemma gateway_submit_serves:
  assumes "serves max_records a n (gateway_authority gateway session world)" and "limits_ok (gw_limits gateway)"
    and "gateway_submit max_records gateway session world bs = Inr (r, gateway', session', world')"
  shows "serves max_records a n (gateway_authority gateway' session' world')" and "gw_limits gateway' = gw_limits gateway"
proof -
  from assms(2) have "serves max_records a n (gateway_authority gateway' session' world') \<and> gw_limits gateway' = gw_limits gateway"
  proof (cases rule: decode_command_frame_cases [where bs = bs])
    case (rejected code)
    then show ?thesis
      using assms(1,3) gateway_submit_rejected by simp
  next
    case (decoded e)
    then obtain r' log' where s: "submit max_records (gw_pipeline gateway) session world e = Inr (r', log', session', world')"
        "gateway' = gateway\<lparr>gw_pipeline := log'\<rparr>"
      using assms(3) by (auto simp: gateway_submit_decoded submitted_via_def result_simps)
    then show ?thesis
      using serves_submit [OF assms(1), of e] decoded(2) by (simp add: gateway_authority_def)
  qed
  then show "serves max_records a n (gateway_authority gateway' session' world')" "gw_limits gateway' = gw_limits gateway"
    by simp_all
qed

lemma gateway_run_serves:
  assumes "serves max_records a n (gateway_authority gateway session world)" and "limits_ok (gw_limits gateway)"
    and "gateway_run max_records events gateway session world = Inr (gateway', session', world')"
  shows "serves max_records a (n + tick_count events) (gateway_authority gateway' session' world')"
  using assms
proof (induction max_records events gateway session world arbitrary: n rule: gateway_run.induct)
  case (2 max_records bs events gateway session world)
  then obtain r gateway1 session1 world1 where s: "gateway_submit max_records gateway session world bs =
      Inr (r, gateway1, session1, world1)" "gateway_run max_records events gateway1 session1 world1 = Inr (gateway', session', world')"
    by (auto simp: result_simps)
  note g = gateway_submit_serves [OF 2(2,3) s(1)]
  show ?case
    using 2(1) [OF g(1) _ s(2)] g(2) 2(3) by (simp add: tick_count_def)
next
  case (3 max_records events gateway session world)
  then obtain t world1 where s: "advance world = Inr (t, world1)"
      "gateway_run max_records events gateway session world1 = Inr (gateway', session', world')"
    by (auto simp: result_simps)
  have "serves max_records a (Suc n) (gateway_authority gateway session world1)"
    using serves_tick [OF 3(2)] s(1) by (simp add: gateway_authority_def)
  from 3(1) [OF this 3(3) s(2)] show ?case
    by (simp add: tick_count_def)
qed (simp add: tick_count_def)

lemma gateway_run_start:
  assumes "make_gateway limits = Inr gateway"
  shows "serves max_records a 0 (gateway_authority gateway (au_session a) (au_world a))" and "limits_ok (gw_limits gateway)"
proof -
  have g: "gw_pipeline gateway = empty_log" "limits_ok (gw_limits gateway)"
    using assms by (auto simp: make_gateway_def limits_ok_def split: if_split_asm)
  show "limits_ok (gw_limits gateway)" by (rule g)
  show "serves max_records a 0 (gateway_authority gateway (au_session a) (au_world a))"
    using serves_start [of max_records a] by (cases a) (simp add: gateway_authority_def g)
qed

text \<open>What a run of the gateway leaves can be archived, and its replay verifies.\<close>

lemma gateway_evidence:
  assumes "reachable authority_init (authority_step max_records) a" and "world_fits (au_world a) 0"
    and "make_gateway limits = Inr gateway"
    and "gateway_run max_records events gateway (au_session a) (au_world a) = Inr (gateway', session', world')"
    and "tick_count events \<le> unat (rp_maximum_tick_advances policy)"
    and "length (cl_records (gw_pipeline gateway')) \<le> max_archive_records"
  obtains r where "archive_ok (cl_records (gw_pipeline gateway')) (cl_head_digest (gw_pipeline gateway'))"
    "replay max_records policy (au_session a) (au_world a) (cl_records (gw_pipeline gateway')) (cl_head_digest (gw_pipeline gateway')) = Inr r"
    "replay_verified r"
proof -
  note ok = checkpoint_reachable [OF assms(1)]
  have b: "serves max_records a (tick_count events) (gateway_authority gateway' session' world')"
    using gateway_run_serves [OF gateway_run_start [OF assms(3)] assms(4)] by simp
  have "log_ok (gw_pipeline gateway')"
    using serves_ok [OF b ok] by (simp add: checkpoint_ok_def gateway_authority_def)
  then have "archive_ok (cl_records (gw_pipeline gateway')) (cl_head_digest (gw_pipeline gateway'))"
    using assms(6) by (simp add: archive_ok_def log_ok_def log_verify_def)
  then show thesis
    using that replay_genuine [OF b ok assms(5,2)] by (auto simp: gateway_authority_def)
qed

text \<open>C7: End to end. Start a gateway at any checkpoint of an authority and feed it any byte
  strings and ticks. If no exception ends the run, the evidence it leaves can be archived,
  the archive is read back under the recorded head, and the replay of that archive from the
  checkpoint is verified, provided the budget admits the ticks of the run, the log fits in an
  archive, and the counts of the checkpoint's world fit their integer types.\<close>

theorem evidence_end_to_end:
  assumes "reachable authority_init (authority_step max_records) a" and "world_fits (au_world a) 0"
    and "make_gateway limits = Inr gateway"
    and "gateway_run max_records events gateway (au_session a) (au_world a) = Inr (gateway', session', world')"
    and "tick_count events \<le> unat (rp_maximum_tick_advances policy)"
    and "length (cl_records (gw_pipeline gateway')) \<le> max_archive_records"
  shows "\<exists>encoded archive r.
    encode_command_evidence_archive (cl_records (gw_pipeline gateway')) (cl_head_digest (gw_pipeline gateway')) =
      Inr (Inr encoded) \<and>
    decode_command_evidence_archive encoded (cl_head_digest (gw_pipeline gateway')) = Inr (Inr archive) \<and>
    replay_archive max_records policy (au_session a) (au_world a) archive = Inr r \<and> replay_verified r"
proof -
  let ?log = "gw_pipeline gateway'"
  let ?archive = "\<lparr>ca_records = cl_records ?log, ca_head_digest = cl_head_digest ?log\<rparr>"
  obtain r where arch: "archive_ok (cl_records ?log) (cl_head_digest ?log)"
      "replay max_records policy (au_session a) (au_world a) (cl_records ?log) (cl_head_digest ?log) = Inr r" "replay_verified r"
    by (rule gateway_evidence [OF assms])
  have "decode_command_evidence_archive (archive_bytes (cl_records ?log) (cl_head_digest ?log)) (cl_head_digest ?log) =
      Inr (Inr ?archive)"
    using arch(1) by (simp add: decode_archive_iff)
  moreover have "replay_archive max_records policy (au_session a) (au_world a) ?archive = Inr r"
    using arch(2) by (simp add: replay_archive_def)
  ultimately show ?thesis
    using arch(1,3) by (auto simp: encode_archive_eq archive_ok_def)
qed

text \<open>C8: An investigation, end to end. Feed a gateway any byte strings and ticks, archive its
  evidence, and replay it. When no exception ends the run, the budget admits its ticks, the
  counts fit, the run has at most 2147483647 records, no call of SQLite fails, the source is
  a text the table can hold and there is a free identifier, importing the archive into any
  reachable, opened store, recording the replay result and exporting the bundle all succeed,
  and the exported text is a JSON document that shows exactly the records of the run and
  that its replay was verified; unless SHA-256 collides on two records of the run, or on the
  archive and a different stored one.\<close>

theorem investigation_end_to_end:
  assumes "reachable authority_init (authority_step max_records) a" and "world_fits (au_world a) 0"
    and "make_gateway limits = Inr gateway"
    and "gateway_run max_records events gateway (au_session a) (au_world a) = Inr (gateway', session', world')"
    and "tick_count events \<le> unat (rp_maximum_tick_advances policy)"
    and "length (cl_records (gw_pipeline gateway')) \<le> 2147483647"
    and "reachable store_init store_step (cn_tables c)" and "tb_created (cn_tables c)" and "healthy c"
    and "source_ok source" and "next_rowid (map ea_archive_id (tb_archives (cn_tables c))) \<noteq> None"
  shows "\<exists>encoded archive r.
    encode_command_evidence_archive (cl_records (gw_pipeline gateway')) (cl_head_digest (gw_pipeline gateway')) =
      Inr (Inr encoded) \<and>
    ca_records archive = cl_records (gw_pipeline gateway') \<and> ca_head_digest archive = cl_head_digest (gw_pipeline gateway') \<and>
    replay_archive max_records policy (au_session a) (au_world a) archive = Inr r \<and> replay_verified r \<and>
    (investigated now now' encoded archive source r c \<or>
     \<not> distinct (map record_digest (cl_records (gw_pipeline gateway'))) \<or>
     (\<exists>row e stored. row \<in> set (tb_archives (cn_tables c)) \<and> archive_stored (cn_tables c) row e stored \<and>
        e \<noteq> encoded \<and> sha256 e = sha256 encoded))"
proof -
  let ?log = "gw_pipeline gateway'"
  let ?archive = "\<lparr>ca_records = cl_records ?log, ca_head_digest = cl_head_digest ?log\<rparr>"
  let ?encoded = "archive_bytes (cl_records ?log) (cl_head_digest ?log)"
  obtain r where r: "archive_ok (cl_records ?log) (cl_head_digest ?log)"
      "replay max_records policy (au_session a) (au_world a) (cl_records ?log) (cl_head_digest ?log) = Inr r" "replay_verified r"
    by (rule gateway_evidence [OF assms(1-5)]) (use assms(6) in auto)
  have dec: "decode_command_evidence_archive ?encoded (ca_head_digest ?archive) = Inr (Inr ?archive)"
    using r(1) by (simp add: decode_archive_iff)
  have st: "storable r"
    using verified_storable [OF _ r(3) checkpoint_reachable [OF assms(1)] dec] r(2) by simp
  have "investigated now now' ?encoded ?archive source r c"
    if "distinct (map record_digest (cl_records ?log))"
      and "\<And>row e a. row \<in> set (tb_archives (cn_tables c)) \<Longrightarrow> archive_stored (cn_tables c) row e a \<Longrightarrow> sha256 e = sha256 ?encoded \<Longrightarrow> e = ?encoded"
    using store_opened [OF assms(7,8)] assms(9) dec assms(10,11) _ that(2) st
    by (rule investigation_runs) (use that(1) assms(6) in simp_all)
  moreover have "encode_command_evidence_archive (cl_records ?log) (cl_head_digest ?log) = Inr (Inr ?encoded)"
    using r(1) by (simp add: encode_archive_eq archive_ok_def)
  moreover have "replay_archive max_records policy (au_session a) (au_world a) ?archive = Inr r"
    using r(2) by (simp add: replay_archive_def)
  ultimately show ?thesis
    using r(3) by (intro exI [of _ ?encoded] exI [of _ ?archive] exI [of _ r]) auto
qed

text \<open>C4: No forgery without breaking the hash. Whatever bytes a decoder accepts as an archive
  under a trusted head, a verified replay from a checkpoint shows that the records are
  exactly what some run of the pipeline from that checkpoint leaves as evidence, with the
  reported number of ticks and with that head.\<close>

theorem archive_replay_sound:
  assumes "reachable authority_init (authority_step max_records) a"
    and "decode_command_evidence_archive encoded trusted_head = Inr (Inr archive)"
    and "replay_archive max_records policy (au_session a) (au_world a) archive = Inr r" and "replay_verified r"
  shows "\<exists>b. serves max_records a (unat (rr_performed_tick_advances r)) b \<and>
    cl_records (au_log b) = ca_records archive \<and> cl_head_digest (au_log b) = trusted_head \<and>
    rr_final_tick r = tick_index (current_tick (au_world b)) \<and>
    rr_final_session_sequence r = cs_highest_accepted_sequence (au_session b) \<and>
    encode_command_evidence_archive (cl_records (au_log b)) trusted_head = Inr (Inr encoded)"
proof -
  have a: "archive_ok (ca_records archive) trusted_head" "ca_head_digest archive = trusted_head"
      "encoded = archive_bytes (ca_records archive) trusted_head"
    using assms(2) by (simp_all add: decode_archive_iff)
  have env: "list_all (\<lambda>r. envelope_ok (en_envelope (er_entry r))) (ca_records archive)"
    using a(1) by (auto simp: archive_ok_def record_ok_def list_all_iff)
  have run: "replay max_records policy (au_session a) (au_world a) (ca_records archive) trusted_head = Inr r"
    using assms(3) a(2) by (simp add: replay_archive_def)
  show ?thesis
  proof (rule replay_verified_run [OF run assms(4) checkpoint_reachable [OF assms(1)] env])
    fix b
    assume b: "serves max_records a (unat (rr_performed_tick_advances r)) b"
      "cl_records (au_log b) = ca_records archive" "cl_head_digest (au_log b) = trusted_head"
      "r = \<lparr>rr_code = Replay_verified, rr_processed_records = length (ca_records archive), rr_failed_ordinal = None,
        rr_performed_tick_advances = rr_performed_tick_advances r, rr_final_tick = tick_index (current_tick (au_world b)),
        rr_final_session_sequence = cs_highest_accepted_sequence (au_session b),
        rr_final_pending_command_count = pending_command_count (au_world b),
        rr_final_world_fingerprint = rr_final_world_fingerprint r, rr_replayed_head_digest = trusted_head\<rparr>"
    have "rr_final_tick r = tick_index (current_tick (au_world b))"
        "rr_final_session_sequence r = cs_highest_accepted_sequence (au_session b)"
      by (subst b(4), simp)+
    with b(1-3) a(1,3) show ?thesis
      by (intro exI [of _ b]) (simp add: encode_archive_eq archive_ok_def)
  qed
qed

section \<open>Examples\<close>

lemma demo_gateway_made: "make_gateway default_protocol_limits = Inr demo_gateway"
  by (simp add: make_gateway_def default_protocol_limits_def demo_gateway_def)

lemma demo_run:
  obtains gateway' session' world' where
    "gateway_run 100 [Received (frame_bytes (envelope_bytes demo_envelope))] demo_gateway (au_session demo_authority)
       (au_world demo_authority) = Inr (gateway', session', world')"
    "length (cl_records (gw_pipeline gateway')) = 1"
proof -
  have dec: "decode_command_frame (frame_bytes (envelope_bytes demo_envelope)) (gw_limits demo_gateway) = Inr (Inr demo_envelope)"
    by code_simp
  obtain r log' session' world' where s: "submit 100 (au_log demo_authority) (au_session demo_authority)
      (au_world demo_authority) demo_envelope = Inr (r, log', session', world')"
    using demo_submitted by blast
  have "length (cl_records log') = 1"
    using submit_record(1) [OF checkpoint_reachable [OF demo_authority_reachable] s] by (simp add: demo_authority_def empty_log_def)
  moreover have "gw_pipeline demo_gateway = au_log demo_authority"
    by (simp add: demo_gateway_def demo_authority_def)
  ultimately show thesis
    using s gateway_submit_decoded [OF dec, of 100] that [of "demo_gateway\<lparr>gw_pipeline := log'\<rparr>"] by (simp add: submitted_via_def)
qed

theorem evidence_end_to_end_witness:
  "\<exists>gateway' session' world' encoded archive r.
     gateway_run 100 [Received (frame_bytes (envelope_bytes demo_envelope))] demo_gateway (au_session demo_authority)
       (au_world demo_authority) = Inr (gateway', session', world') \<and>
     length (cl_records (gw_pipeline gateway')) = 1 \<and>
     decode_command_evidence_archive encoded (cl_head_digest (gw_pipeline gateway')) = Inr (Inr archive) \<and>
     replay_archive 100 default_replay_policy (au_session demo_authority) (au_world demo_authority) archive = Inr r \<and>
     replay_verified r"
proof -
  obtain gateway' session' world' where run:
    "gateway_run 100 [Received (frame_bytes (envelope_bytes demo_envelope))] demo_gateway (au_session demo_authority)
       (au_world demo_authority) = Inr (gateway', session', world')"
    "length (cl_records (gw_pipeline gateway')) = 1"
    by (rule demo_run)
  have "world_fits (au_world demo_authority) 0"
    using demo_fits by (rule world_fits_mono) simp
  from evidence_end_to_end [OF demo_authority_reachable this demo_gateway_made run(1), of default_replay_policy] run
  show ?thesis
    by (auto simp: tick_count_def)
qed

theorem investigation_end_to_end_witness:
  "\<exists>gateway' session' world' encoded archive r.
     gateway_run 100 [Received (frame_bytes (envelope_bytes demo_envelope))] demo_gateway (au_session demo_authority)
       (au_world demo_authority) = Inr (gateway', session', world') \<and>
     ca_records archive = cl_records (gw_pipeline gateway') \<and> length (ca_records archive) = 1 \<and>
     replay_verified r \<and> investigated ''t'' ''u'' encoded archive ''s'' r (demo_connection demo_store)"
proof -
  let ?c = "demo_connection demo_store"
  obtain gateway' session' world' where run:
    "gateway_run 100 [Received (frame_bytes (envelope_bytes demo_envelope))] demo_gateway (au_session demo_authority)
       (au_world demo_authority) = Inr (gateway', session', world')"
    "length (cl_records (gw_pipeline gateway')) = 1"
    by (rule demo_run)
  have fits: "world_fits (au_world demo_authority) 0"
    using demo_fits by (rule world_fits_mono) simp
  have c: "reachable store_init store_step (cn_tables ?c)" "tb_created (cn_tables ?c)" "tb_archives (cn_tables ?c) = []"
    using demo_store_reachable by (simp_all add: demo_store_def unopened_def)
  have id: "next_rowid (map ea_archive_id (tb_archives (cn_tables ?c))) \<noteq> None"
    using demo_rowid by simp
  have "tick_count [Received (frame_bytes (envelope_bytes demo_envelope))] \<le> unat (rp_maximum_tick_advances default_replay_policy)"
    by (simp add: tick_count_def)
  moreover have "distinct (map record_digest (cl_records (gw_pipeline gateway')))"
    using run(2) by (auto simp: length_Suc_conv)
  ultimately show ?thesis
    using investigation_end_to_end [OF demo_authority_reachable fits demo_gateway_made run(1) _ _ c(1,2) demo_connection_simps(2)
      demo_source id, of default_replay_policy "''t''" "''u''"] run c(3)
    by force
qed

theorem archive_replay_sound_witness:
  "\<exists>encoded trusted_head archive r b.
     decode_command_evidence_archive encoded trusted_head = Inr (Inr archive) \<and>
     replay_archive 100 default_replay_policy (au_session demo_authority) (au_world demo_authority) archive = Inr r \<and>
     replay_verified r \<and> length (ca_records archive) = 1 \<and>
     serves 100 demo_authority (unat (rr_performed_tick_advances r)) b \<and> cl_records (au_log b) = ca_records archive"
proof -
  obtain b where b: "serves 100 demo_authority 0 b" "length (cl_records (au_log b)) = 1"
    by (rule demo_served)
  note ok = checkpoint_reachable [OF demo_authority_reachable]
  let ?archive = "\<lparr>ca_records = cl_records (au_log b), ca_head_digest = cl_head_digest (au_log b)\<rparr>"
  have "archive_ok (cl_records (au_log b)) (cl_head_digest (au_log b))"
    using serves_ok [OF b(1) ok] b(2) by (simp add: checkpoint_ok_def archive_ok_def log_ok_def log_verify_def)
  then have dec: "decode_command_evidence_archive (archive_bytes (cl_records (au_log b)) (cl_head_digest (au_log b)))
      (cl_head_digest (au_log b)) = Inr (Inr ?archive)"
    by (simp add: decode_archive_iff)
  have "world_fits (au_world demo_authority) 0"
    using demo_fits by (rule world_fits_mono) simp
  then obtain r where r: "replay_archive 100 default_replay_policy (au_session demo_authority) (au_world demo_authority) ?archive = Inr r"
      "replay_verified r"
    using replay_genuine [OF b(1) ok, of default_replay_policy] by (auto simp: replay_archive_def)
  from archive_replay_sound [OF demo_authority_reachable dec r] dec r b(2) show ?thesis
    by fastforce
qed

end
